(* ===== verification/Prelude.thy ===== *)
theory Prelude
  imports Main "HOL-Library.Word" "HOL-Library.Char_ord" "HOL-Library.List_Lexorder"
begin

text \<open>
  What the components share: the machine types of the Rust code, its \<open>Result\<close> type, the parts of
  the Rust standard library that the code relies on (integer parsing and printing, big-endian
  integers, UTF-8 validation, ASCII string functions, ordered maps) and the generic lemmas about
  them. Rust strings are HOL strings of bytes: a \<open>char\<close> is one UTF-8 byte, so \<open>length\<close> is Rust's
  \<open>len\<close> and \<open><\<close> (lexicographic on bytes) is Rust's \<open>Ord\<close> of \<open>str\<close>.
\<close>

named_theorems wire_defs \<open>definitions of the wire format\<close>
named_theorems chan_defs \<open>definitions of the outbound queue\<close>
named_theorems toolbox_defs \<open>definitions of the toolbox and of the connection table\<close>

section \<open>Types of the source\<close>

type_synonym u8 = "8 word"
type_synonym u16 = "16 word"
type_synonym u32 = "32 word"
type_synonym u64 = "64 word"
type_synonym usize = "64 word"
type_synonym bytes = "8 word list"

text \<open>Rust's \<open>Result\<close>, with the constructors in the order the source writes them.\<close>

datatype ('a, 'e) result = Ok 'a | Err 'e

primrec result_bind :: "('a, 'e) result \<Rightarrow> ('a \<Rightarrow> ('b, 'e) result) \<Rightarrow> ('b, 'e) result" where
  "result_bind (Ok a) f = f a"
| "result_bind (Err e) f = Err e"

primrec result_map :: "('a \<Rightarrow> 'b) \<Rightarrow> ('a, 'e) result \<Rightarrow> ('b, 'e) result" where
  "result_map f (Ok a) = Ok (f a)"
| "result_map f (Err e) = Err e"

primrec result_map_err :: "('e \<Rightarrow> 'f) \<Rightarrow> ('a, 'e) result \<Rightarrow> ('a, 'f) result" where
  "result_map_err f (Ok a) = Ok a"
| "result_map_err f (Err e) = Err (f e)"

primrec is_ok :: "('a, 'e) result \<Rightarrow> bool" where
  "is_ok (Ok a) = True"
| "is_ok (Err e) = False"

primrec result_ok :: "('a, 'e) result \<Rightarrow> 'a option" where
  "result_ok (Ok a) = Some a"
| "result_ok (Err e) = None"

lemma result_bind_Ok_iff [simp]:
  "result_bind r f = Ok b \<longleftrightarrow> (\<exists>a. r = Ok a \<and> f a = Ok b)"
  by (cases r) auto

lemma result_map_Ok_iff [simp]: "result_map f r = Ok b \<longleftrightarrow> (\<exists>a. r = Ok a \<and> b = f a)"
  by (cases r) auto

lemma result_map_err_Ok_iff [simp]: "result_map_err f r = Ok a \<longleftrightarrow> r = Ok a"
  by (cases r) auto

lemma is_ok_iff: "is_ok r \<longleftrightarrow> (\<exists>a. r = Ok a)"
  by (cases r) auto

text \<open>One poll of a future.\<close>

datatype 'a poll = Ready 'a | Pending

section \<open>Decimal integers\<close>

definition is_digit :: "char \<Rightarrow> bool" where
  "is_digit c \<longleftrightarrow> CHR ''0'' \<le> c \<and> c \<le> CHR ''9''"

definition digit_val :: "char \<Rightarrow> nat" where
  "digit_val c = of_char c - 48"

fun digits_val :: "nat \<Rightarrow> string \<Rightarrow> nat option" where
  "digits_val acc [] = Some acc"
| "digits_val acc (c # cs) =
     (if is_digit c then digits_val (10 * acc + digit_val c) cs else None)"

text \<open>
  \<open>str::parse\<close> of an unsigned type with maximum \<open>mx\<close>: one optional plus sign, at least one digit,
  digits only, and no overflow.
\<close>

definition parse_unsigned :: "nat \<Rightarrow> string \<Rightarrow> nat option" where
  "parse_unsigned mx s =
     (let ds = (case s of [] \<Rightarrow> [] | c # cs \<Rightarrow> if c = CHR ''+'' then cs else s) in
      if ds = [] then None
      else case digits_val 0 ds of
             None \<Rightarrow> None
           | Some n \<Rightarrow> if n \<le> mx then Some n else None)"

text \<open>\<open>str::parse::<i64>\<close>: one optional sign, at least one digit, within the range of the type.\<close>

definition parse_i64 :: "string \<Rightarrow> int option" where
  "parse_i64 s =
     (let neg = (case s of c # _ \<Rightarrow> c = CHR ''-'' | [] \<Rightarrow> False);
          ds = (case s of [] \<Rightarrow> [] | c # cs \<Rightarrow> if c = CHR ''+'' \<or> c = CHR ''-'' then cs else s) in
      if ds = [] then None
      else case digits_val 0 ds of
             None \<Rightarrow> None
           | Some n \<Rightarrow> (let v = (if neg then - int n else int n) in
               if - (2 ^ 63) \<le> v \<and> v < 2 ^ 63 then Some v else None))"

definition digit_char :: "nat \<Rightarrow> char" where
  "digit_char n = char_of (48 + n)"

text \<open>\<open>to_string\<close> of an unsigned integer, and of a signed one.\<close>

fun show_nat :: "nat \<Rightarrow> string" where
  "show_nat n = (if n < 10 then [digit_char n] else show_nat (n div 10) @ [digit_char (n mod 10)])"

declare show_nat.simps [simp del]

definition show_int :: "int \<Rightarrow> string" where
  "show_int i = (if i < 0 then CHR ''-'' # show_nat (nat (- i)) else show_nat (nat i))"

lemma of_char_digit_char: "n < 10 \<Longrightarrow> (of_char (digit_char n) :: nat) = 48 + n"
  by (simp add: digit_char_def)

lemma is_digit_digit_char [simp]: "n < 10 \<Longrightarrow> is_digit (digit_char n)"
  by (simp add: is_digit_def less_eq_char_def of_char_digit_char)

lemma digit_val_digit_char [simp]: "n < 10 \<Longrightarrow> digit_val (digit_char n) = n"
  by (simp add: digit_val_def of_char_digit_char)

lemma digits_val_append:
  "digits_val acc (xs @ ys) =
     (case digits_val acc xs of None \<Rightarrow> None | Some n \<Rightarrow> digits_val n ys)"
  by (induction xs arbitrary: acc) auto

lemma digits_val_show_nat: "digits_val 0 (show_nat n) = Some n"
proof (induction n rule: show_nat.induct)
  case (1 n)
  then show ?case
    by (subst show_nat.simps) (auto simp: digits_val_append)
qed

lemma show_nat_nonempty [simp]: "show_nat n \<noteq> []"
  by (subst show_nat.simps) simp

lemma show_nat_digits: "c \<in> set (show_nat n) \<Longrightarrow> is_digit c"
proof (induction n rule: show_nat.induct)
  case (1 n)
  then show ?case
    by (subst (asm) show_nat.simps) (auto split: if_splits)
qed

lemma hd_show_nat_digit: "show_nat n = c # cs \<Longrightarrow> is_digit c"
  by (metis list.set_intros(1) show_nat_digits)

lemma plus_no_digit [simp]: "\<not> is_digit (CHR ''+'')" "\<not> is_digit (CHR ''-'')"
  by (simp_all add: is_digit_def less_eq_char_def)

lemma parse_unsigned_show_nat: "n \<le> mx \<Longrightarrow> parse_unsigned mx (show_nat n) = Some n"
proof -
  assume n: "n \<le> mx"
  obtain c cs where s: "show_nat n = c # cs"
    by (cases "show_nat n") auto
  then have "c \<noteq> CHR ''+''"
    using hd_show_nat_digit plus_no_digit by blast
  with s n digits_val_show_nat [of n] show ?thesis
    by (simp add: parse_unsigned_def)
qed

lemma parse_unsigned_bound: "parse_unsigned mx s = Some n \<Longrightarrow> n \<le> mx"
  by (auto simp: parse_unsigned_def Let_def split: if_splits option.splits)

lemma show_nat_inj: "show_nat m = show_nat n \<longleftrightarrow> m = n"
  by (metis digits_val_show_nat option.inject)

lemma parse_i64_show_int:
  assumes "- (2 ^ 63) \<le> i" and "i < 2 ^ 63"
  shows "parse_i64 (show_int i) = Some i"
proof (cases "i < 0")
  case True
  with assms digits_val_show_nat [of "nat (- i)"] show ?thesis
    by (simp add: parse_i64_def show_int_def)
next
  case False
  obtain c cs where s: "show_nat (nat i) = c # cs"
    by (cases "show_nat (nat i)") auto
  then have "c \<noteq> CHR ''+''" and "c \<noteq> CHR ''-''"
    using hd_show_nat_digit plus_no_digit by blast+
  with s False assms digits_val_show_nat [of "nat i"] show ?thesis
    by (simp add: parse_i64_def show_int_def)
qed

section \<open>Big-endian integers\<close>

definition be16 :: "nat \<Rightarrow> bytes" where
  "be16 n = [word_of_nat (n div 256), word_of_nat (n mod 256)]"

definition of_be16 :: "u8 \<Rightarrow> u8 \<Rightarrow> nat" where
  "of_be16 h l = unat h * 256 + unat l"

definition be32 :: "nat \<Rightarrow> bytes" where
  "be32 n = be16 (n div 65536) @ be16 (n mod 65536)"

fun of_be32 :: "bytes \<Rightarrow> nat" where
  "of_be32 [a, b, c, d] = of_be16 a b * 65536 + of_be16 c d"
| "of_be32 _ = 0"

lemma unat_byte_less [simp]: "unat (b :: u8) < 256"
  using unsigned_less [of b] by simp

lemma length_be [simp]: "length (be16 n) = 2" "length (be32 n) = 4"
  by (simp_all add: be16_def be32_def)

lemma of_be16_less: "of_be16 h l < 65536"
  using unat_byte_less [of h] unat_byte_less [of l] unfolding of_be16_def by linarith

lemma unat_byte_of_nat: "n < 256 \<Longrightarrow> unat (word_of_nat n :: u8) = n"
  by (simp add: unsigned_of_nat take_bit_nat_eq_self)

lemma of_be16_be16:
  "n < 65536 \<Longrightarrow> of_be16 (word_of_nat (n div 256)) (word_of_nat (n mod 256)) = n"
  unfolding of_be16_def by (simp add: unat_byte_of_nat)

lemma be16_of_be16: "be16 (of_be16 h l) = [h, l]"
  by (simp add: be16_def of_be16_def div_mult_self3)

lemma be16_eq_Cons: "\<exists>a b. be16 n = [a, b]"
  by (simp add: be16_def)

lemma of_be32_be32: "n < 2 ^ 32 \<Longrightarrow> of_be32 (be32 n) = n"
proof -
  assume "n < 2 ^ 32"
  then have "n div 65536 < 65536" and "n mod 65536 < 65536"
    by simp_all
  then show ?thesis
    by (simp add: be32_def be16_def of_be16_be16)
qed

lemma of_be32_less: "of_be32 bs < 2 ^ 32"
proof (cases bs rule: of_be32.cases)
  case (1 a b c d)
  with of_be16_less [of a b] of_be16_less [of c d] show ?thesis
    by simp
qed auto

section \<open>UTF-8\<close>

text \<open>
  \<open>std::str::from_utf8\<close>: the well-formed byte sequences of the Unicode standard. The first byte of
  a scalar gives its width (0 for a byte that starts none) and the range of the second byte; every
  further byte is a continuation byte.
\<close>

definition utf8_width :: "u8 \<Rightarrow> nat" where
  "utf8_width b =
     (if b < 0x80 then 1
      else if 0xC2 \<le> b \<and> b \<le> 0xDF then 2
      else if 0xE0 \<le> b \<and> b \<le> 0xEF then 3
      else if 0xF0 \<le> b \<and> b \<le> 0xF4 then 4 else 0)"

definition utf8_cont :: "u8 \<Rightarrow> bool" where
  "utf8_cont b \<longleftrightarrow> 0x80 \<le> b \<and> b \<le> 0xBF"

definition utf8_second :: "u8 \<Rightarrow> u8 \<Rightarrow> bool" where
  "utf8_second a b \<longleftrightarrow>
     (a = 0xE0 \<longrightarrow> 0xA0 \<le> b) \<and> (a = 0xED \<longrightarrow> b \<le> 0x9F) \<and>
     (a = 0xF0 \<longrightarrow> 0x90 \<le> b) \<and> (a = 0xF4 \<longrightarrow> b \<le> 0x8F)"

fun utf8_valid :: "bytes \<Rightarrow> bool" where
  "utf8_valid [] = True"
| "utf8_valid (b # bs) =
     (let n = utf8_width b in
      n \<noteq> 0 \<and> n - 1 \<le> length bs \<and> list_all utf8_cont (take (n - 1) bs) \<and>
      (n = 1 \<or> utf8_second b (hd bs)) \<and> utf8_valid (drop (n - 1) bs))"

lemma utf8_valid_ascii: "list_all (\<lambda>b. b < 0x80) bs \<Longrightarrow> utf8_valid bs"
  by (induction bs) (auto simp: utf8_width_def)

text \<open>A HOL string and its bytes.\<close>

definition str_bytes :: "string \<Rightarrow> bytes" where
  "str_bytes s = map (\<lambda>c. word_of_nat (of_char c)) s"

definition bytes_str :: "bytes \<Rightarrow> string" where
  "bytes_str bs = map (\<lambda>b. char_of (unat b)) bs"

lemma bytes_str_str_bytes [simp]: "bytes_str (str_bytes s) = s"
  by (simp add: bytes_str_def str_bytes_def comp_def unat_byte_of_nat)

lemma str_bytes_bytes_str [simp]: "str_bytes (bytes_str b) = b"
  by (simp add: bytes_str_def str_bytes_def comp_def map_idI)

lemma length_str_bytes [simp]: "length (str_bytes s) = length s"
  by (simp add: str_bytes_def)

section \<open>String operations of the standard library\<close>

definition starts_with :: "string \<Rightarrow> string \<Rightarrow> bool" where
  "starts_with s p \<longleftrightarrow> take (length p) s = p"

definition strip_prefix :: "string \<Rightarrow> string \<Rightarrow> string option" where
  "strip_prefix s p = (if starts_with s p then Some (drop (length p) s) else None)"

fun split_once :: "string \<Rightarrow> string \<Rightarrow> (string \<times> string) option" where
  "split_once [] p = (if p = [] then Some ([], []) else None)"
| "split_once (c # s) p =
     (if starts_with (c # s) p then Some ([], drop (length p) (c # s))
      else map_option (\<lambda>(a, b). (c # a, b)) (split_once s p))"

definition str_contains :: "string \<Rightarrow> string \<Rightarrow> bool" where
  "str_contains s p \<longleftrightarrow> split_once s p \<noteq> None"

text \<open>\<open>str::split\<close> on one character: the pieces between the separators, at least one.\<close>

fun split_char :: "char \<Rightarrow> string \<Rightarrow> string list" where
  "split_char d [] = [[]]"
| "split_char d (c # s) =
     (if c = d then [] # split_char d s
      else case split_char d s of p # ps \<Rightarrow> (c # p) # ps | [] \<Rightarrow> [[c]])"

lemma starts_with_append [simp]: "starts_with (p @ s) p"
  by (simp add: starts_with_def)

lemma strip_prefix_append [simp]: "strip_prefix (p @ s) p = Some s"
  by (simp add: strip_prefix_def)

lemma strip_prefix_Some: "strip_prefix s p = Some r \<longleftrightarrow> s = p @ r"
  by (auto simp: strip_prefix_def starts_with_def) (metis append_take_drop_id)

lemma starts_with_iff: "starts_with s p \<longleftrightarrow> (\<exists>r. s = p @ r)"
  by (metis strip_prefix_Some strip_prefix_def option.distinct(1))

lemma split_once_Some: "split_once s p = Some (a, b) \<Longrightarrow> s = a @ p @ b"
proof (induction s p arbitrary: a rule: split_once.induct)
  case (2 c s p)
  then show ?case
    by (auto simp: starts_with_def split: if_splits) (metis append_take_drop_id)
qed (auto split: if_splits)

lemma split_once_first:
  assumes "p \<noteq> []" and "hd p \<notin> set a"
  shows "split_once (a @ p @ b) p = Some (a, b)"
  using assms(2)
proof (induction a)
  case Nil
  with assms(1) show ?case by (cases p) (auto simp: starts_with_def)
next
  case (Cons c a)
  with assms(1) show ?case by (cases p) (auto simp: starts_with_def)
qed

lemma split_char_nonempty [simp]: "split_char d s \<noteq> []"
  by (cases s) (auto split: list.splits)

lemma split_char_join:
  "d \<notin> set p \<Longrightarrow> split_char d (p @ d # s) = p # split_char d s"
  by (induction p) auto

lemma split_char_last: "d \<notin> set p \<Longrightarrow> split_char d p = [p]"
  by (induction p) auto


section \<open>Trimming\<close>

text \<open>
  \<open>str::trim\<close>: the Unicode \<open>White_Space\<close> characters, each as its UTF-8 bytes. In well-formed text a
  byte string ends (begins) with one of them exactly when its last (first) character is that one.
\<close>

definition white_space :: "string list" where
  "white_space = map (map char_of)
     ([[32], [9], [10], [11], [12], [13], [0xC2, 0x85], [0xC2, 0xA0], [0xE1, 0x9A, 0x80],
       [0xE2, 0x80, 0xA8], [0xE2, 0x80, 0xA9], [0xE2, 0x80, 0xAF], [0xE2, 0x81, 0x9F], [0xE3, 0x80, 0x80 :: nat]]
      @ map (\<lambda>b. [0xE2, 0x80, b]) [0x80 ..< 0x8B])"

lemma find_prefix:
  assumes "find (\<lambda>p. p \<noteq> [] \<and> starts_with s p) ps = Some p"
  shows "p \<in> set ps \<and> (\<exists>c q r. p = c # q \<and> s = c # q @ r)"
proof -
  have "p \<in> set ps" "p \<noteq> []" "starts_with s p"
    using assms by (auto simp: find_Some_iff)
  moreover obtain c q where "p = c # q"
    using \<open>p \<noteq> []\<close> by (cases p) simp_all
  ultimately show ?thesis
    by (auto simp: starts_with_iff)
qed

function strip_any :: "string list \<Rightarrow> string \<Rightarrow> string" where
  "strip_any ps s =
     (case find (\<lambda>p. p \<noteq> [] \<and> starts_with s p) ps of
        None \<Rightarrow> s
      | Some p \<Rightarrow> strip_any ps (drop (length p) s))"
  by auto
termination
  by (relation "measure (\<lambda>(ps, s). length s)") (auto dest!: find_prefix)

declare strip_any.simps [simp del]

definition trim_start :: "string \<Rightarrow> string" where "trim_start s = strip_any white_space s"

definition trim_end :: "string \<Rightarrow> string" where
  "trim_end s = rev (strip_any (map rev white_space) (rev s))"

definition trim :: "string \<Rightarrow> string" where "trim s = trim_end (trim_start s)"

text \<open>A visible ASCII character belongs to no white space.\<close>

definition graphic :: "char \<Rightarrow> bool" where
  "graphic c \<longleftrightarrow> 32 < (of_char c :: nat) \<and> (of_char c :: nat) < 127"

lemma white_space_edges: "p \<in> set white_space \<Longrightarrow> p \<noteq> [] \<and> \<not> graphic (hd p) \<and> \<not> graphic (last p)"
  by (auto simp: white_space_def graphic_def upt_conv_Cons)

lemma strip_any_graphic:
  assumes "\<And>p. p \<in> set ps \<Longrightarrow> p \<noteq> [] \<Longrightarrow> \<not> graphic (hd p)" and "graphic c"
  shows "strip_any ps (c # s) = c # s"
proof (cases "find (\<lambda>p. p \<noteq> [] \<and> starts_with (c # s) p) ps")
  case None
  then show ?thesis
    by (subst strip_any.simps) simp
next
  case (Some p)
  then obtain p' where "p = c # p'" "p \<in> set ps"
    by (auto dest!: find_prefix)
  with assms show ?thesis
    by fastforce
qed

lemma strip_any_Nil [simp]: "strip_any ps [] = []"
  by (subst strip_any.simps) (auto dest!: find_prefix split: option.split)

lemma trim_end_graphic: "s \<noteq> [] \<Longrightarrow> graphic (last s) \<Longrightarrow> trim_end s = s"
proof -
  assume s: "s \<noteq> []" "graphic (last s)"
  then obtain c r where r: "rev s = c # r" "graphic c"
    by (metis hd_rev list.exhaust_sel rev_is_Nil_conv)
  have "strip_any (map rev white_space) (rev s) = rev s"
    unfolding r(1) by (rule strip_any_graphic) (use white_space_edges r in \<open>auto simp: hd_rev\<close>)
  then show ?thesis
    by (simp add: trim_end_def)
qed

lemma trim_graphic: "s \<noteq> [] \<Longrightarrow> graphic (hd s) \<Longrightarrow> graphic (last s) \<Longrightarrow> trim s = s"
  by (cases s) (simp_all add: trim_def trim_start_def strip_any_graphic white_space_edges trim_end_graphic)

lemma white_space_Cons: "white_space = '' '' # tl white_space"
  by (simp add: white_space_def char_of_def bit_0)

lemma trim_start_space: "trim_start (CHR '' '' # s) = trim_start s"
  unfolding trim_start_def
  by (subst strip_any.simps, subst (2) white_space_Cons) (simp add: starts_with_def)

lemma trim_space: "s \<noteq> [] \<Longrightarrow> graphic (hd s) \<Longrightarrow> graphic (last s) \<Longrightarrow> trim (CHR '' '' # s) = s"
  using trim_graphic [of s] by (simp add: trim_def trim_start_space)

lemma trim_space_trimmed: "trim (CHR '' '' # p) = trim p"
  by (simp add: trim_def trim_start_space)

lemma split_char_parts:
  "d \<notin> set p \<Longrightarrow> \<forall>q \<in> set qs. d \<notin> set q \<Longrightarrow> split_char d (p @ concat (map ((#) d) qs)) = p # qs"
  by (induction qs arbitrary: p) (auto simp: split_char_last split_char_join)

lemma strip_any_suffix: "\<exists>p. s = p @ strip_any ps s"
proof (induction ps s rule: strip_any.induct)
  case (1 ps s)
  show ?case
  proof (cases "find (\<lambda>p. p \<noteq> [] \<and> starts_with s p) ps")
    case None
    then show ?thesis
      by (subst strip_any.simps) simp
  next
    case (Some p)
    then obtain r where "s = p @ r"
      by (auto dest!: find_prefix)
    moreover from this Some obtain p' where "r = p' @ strip_any ps r"
      using 1 by auto
    ultimately have "s = (p @ p') @ strip_any ps r" and "strip_any ps s = strip_any ps r"
      using Some by (simp, subst strip_any.simps, simp)
    then show ?thesis
      by metis
  qed
qed

lemma strip_any_fixed: "strip_any ps s = s \<longleftrightarrow> find (\<lambda>p. p \<noteq> [] \<and> starts_with s p) ps = None"
proof (cases "find (\<lambda>p. p \<noteq> [] \<and> starts_with s p) ps")
  case (Some p)
  then obtain c q r where p: "p = c # q" "s = c # q @ r"
    by (auto dest!: find_prefix)
  obtain x where "drop (length p) s = x @ strip_any ps (drop (length p) s)"
    using strip_any_suffix by blast
  then have "length (strip_any ps (drop (length p) s)) \<le> length (drop (length p) s)"
    by (metis length_append le_add2)
  with p Some show ?thesis
    by (subst strip_any.simps) auto
qed (subst strip_any.simps, simp)

lemma strip_any_strip_any [simp]: "strip_any ps (strip_any ps s) = strip_any ps s"
proof (induction ps s rule: strip_any.induct)
  case (1 ps s)
  show ?case
  proof (cases "find (\<lambda>p. p \<noteq> [] \<and> starts_with s p) ps")
    case None
    then show ?thesis
      by (simp flip: strip_any_fixed)
  next
    case (Some p)
    then have "strip_any ps s = strip_any ps (drop (length p) s)"
      by (subst strip_any.simps) simp
    with 1 Some show ?thesis
      by simp
  qed
qed

lemma trim_trim [simp]: "trim (trim s) = trim s"
proof -
  let ?t = "trim_start s"
  obtain x where x: "rev ?t = x @ strip_any (map rev white_space) (rev ?t)"
    using strip_any_suffix by blast
  then have t: "?t = trim s @ rev x"
    by (metis rev_append rev_swap trim_def trim_end_def)
  have "find (\<lambda>p. p \<noteq> [] \<and> starts_with ?t p) white_space = None"
    by (simp add: trim_start_def flip: strip_any_fixed)
  then have "find (\<lambda>p. p \<noteq> [] \<and> starts_with (trim s) p) white_space = None"
    unfolding find_None_iff t starts_with_iff by (metis append_assoc)
  then have "trim_start (trim s) = trim s"
    by (simp add: trim_start_def strip_any_fixed)
  moreover have "trim_end (trim s) = trim s"
    by (simp add: trim_def trim_end_def)
  ultimately show ?thesis
    by (simp add: trim_def)
qed

lemma set_trim: "set (trim s) \<subseteq> set s"
proof -
  have "set (strip_any ps u) \<subseteq> set u" for ps u
    using strip_any_suffix [of u ps] by (metis set_append Un_upper2)
  then show ?thesis
    unfolding trim_def trim_start_def trim_end_def by (metis (no_types) set_rev subset_trans)
qed

lemma split_char_no_sep: "p \<in> set (split_char d s) \<Longrightarrow> d \<notin> set p"
  by (induction s arbitrary: p) (auto split: list.splits if_splits)

text \<open>\<open>str::to_ascii_lowercase\<close>.\<close>

definition ascii_lower :: "char \<Rightarrow> char" where
  "ascii_lower c = (if CHR ''A'' \<le> c \<and> c \<le> CHR ''Z'' then char_of ((of_char c :: nat) + 32) else c)"

definition to_ascii_lowercase :: "string \<Rightarrow> string" where
  "to_ascii_lowercase s = map ascii_lower s"

end
