(* ===== verification/Wire_Message.thy ===== *)
theory Wire_Message
  imports Prelude
begin

text \<open>
  The canonical message type of \<open>src/libs/ws/message.rs\<close> and its conversions to and from the
  WebSocket backend's message (\<open>src/libs/ws/tungstenite/message.rs\<close> and the client's pair in
  \<open>src/libs/ws/client.rs\<close>). \<open>Utf8Bytes\<close> carries the invariant that its bytes are UTF-8; the
  predicate \<open>wire_ok\<close> states it for a whole message.
\<close>

datatype utf8_bytes = Utf8Bytes (utf8_as_bytes: bytes)

definition utf8_try_from :: "bytes \<Rightarrow> utf8_bytes option" where
  "utf8_try_from bs = (if utf8_valid bs then Some (Utf8Bytes bs) else None)"

text \<open>\<open>From<String>\<close> and \<open>From<&str>\<close>: a Rust string is UTF-8 already.\<close>

definition utf8_from_string :: "string \<Rightarrow> utf8_bytes" where
  "utf8_from_string s = Utf8Bytes (str_bytes s)"

record close_frame =
  cf_code :: u16
  cf_reason :: utf8_bytes

datatype wire_message =
    Text utf8_bytes
  | Binary bytes
  | Ping bytes
  | Pong bytes
  | Close "close_frame option"

definition wire_from_string :: "string \<Rightarrow> wire_message" where
  "wire_from_string s = Text (utf8_from_string s)"

definition wire_from_vec :: "bytes \<Rightarrow> wire_message" where
  "wire_from_vec bs = Binary bs"

fun as_text :: "wire_message \<Rightarrow> bytes option" where
  "as_text (Text t) = Some (utf8_as_bytes t)"
| "as_text (Binary b) = (if utf8_valid b then Some b else None)"
| "as_text _ = None"

fun wire_as_bytes :: "wire_message \<Rightarrow> bytes" where
  "wire_as_bytes (Text t) = utf8_as_bytes t"
| "wire_as_bytes (Binary d) = d"
| "wire_as_bytes (Ping d) = d"
| "wire_as_bytes (Pong d) = d"
| "wire_as_bytes (Close None) = []"
| "wire_as_bytes (Close (Some f)) = utf8_as_bytes (cf_reason f)"

fun into_data :: "wire_message \<Rightarrow> bytes" where
  "into_data (Text t) = utf8_as_bytes t"
| "into_data (Binary d) = d"
| "into_data (Ping d) = d"
| "into_data (Pong d) = d"
| "into_data (Close None) = []"
| "into_data (Close (Some f)) = utf8_as_bytes (cf_reason f)"

definition wire_len :: "wire_message \<Rightarrow> nat" where
  "wire_len m = length (wire_as_bytes m)"

definition wire_is_empty :: "wire_message \<Rightarrow> bool" where
  "wire_is_empty m \<longleftrightarrow> wire_len m = 0"

fun is_close :: "wire_message \<Rightarrow> bool" where
  "is_close (Close _) = True"
| "is_close _ = False"

lemma into_data_as_bytes: "into_data m = wire_as_bytes m"
  by (cases m rule: into_data.cases) simp_all

text \<open>The text invariant of a message.\<close>

fun wire_ok :: "wire_message \<Rightarrow> bool" where
  "wire_ok (Text t) = utf8_valid (utf8_as_bytes t)"
| "wire_ok (Close (Some f)) = utf8_valid (utf8_as_bytes (cf_reason f))"
| "wire_ok _ = True"

lemma as_text_utf8: "wire_ok m \<Longrightarrow> as_text m = Some t \<Longrightarrow> utf8_valid t"
  by (cases m) (auto split: if_splits)

section \<open>The backend edge\<close>

text \<open>
  The backend's message carries the same five kinds with plain byte payloads; it validates text and
  close reasons before it hands a message over. Its close code is a type of the backend crate, and
  \<open>to_code\<close> and \<open>of_code\<close> are that crate's conversions from and to \<open>u16\<close>.
\<close>

record 'c nago_close_frame =
  ncf_code :: 'c
  ncf_reason :: bytes

datatype 'c nago_message =
    NText bytes
  | NBinary bytes
  | NPing bytes
  | NPong bytes
  | NClose "'c nago_close_frame option"

fun into_nago :: "(u16 \<Rightarrow> 'c) \<Rightarrow> wire_message \<Rightarrow> 'c nago_message" where
  "into_nago to_code (Text t) = NText (utf8_as_bytes t)"
| "into_nago to_code (Binary p) = NBinary p"
| "into_nago to_code (Ping p) = NPing p"
| "into_nago to_code (Pong p) = NPong p"
| "into_nago to_code (Close f) =
     NClose (map_option
       (\<lambda>f. \<lparr>ncf_code = to_code (cf_code f), ncf_reason = utf8_as_bytes (cf_reason f)\<rparr>) f)"

fun from_nago :: "('c \<Rightarrow> u16) \<Rightarrow> 'c nago_message \<Rightarrow> wire_message" where
  "from_nago of_code (NText p) = Text (Utf8Bytes p)"
| "from_nago of_code (NBinary p) = Binary p"
| "from_nago of_code (NPing p) = Ping p"
| "from_nago of_code (NPong p) = Pong p"
| "from_nago of_code (NClose f) =
     Close (map_option
       (\<lambda>f. \<lparr>cf_code = of_code (ncf_code f), cf_reason = Utf8Bytes (ncf_reason f)\<rparr>) f)"

text \<open>What the backend promises of a message it read.\<close>

fun nago_ok :: "'c nago_message \<Rightarrow> bool" where
  "nago_ok (NText p) = utf8_valid p"
| "nago_ok (NClose (Some f)) = utf8_valid (ncf_reason f)"
| "nago_ok _ = True"

lemma from_into_nago:
  assumes "\<And>c. of_code (to_code c) = c"
  shows "from_nago of_code (into_nago to_code m) = m"
proof (cases m)
  case (Close f)
  with assms show ?thesis by (cases f) simp_all
qed simp_all

lemma into_from_nago:
  assumes "\<And>c. to_code (of_code c) = c"
  shows "into_nago to_code (from_nago of_code n) = n"
proof (cases n)
  case (NClose f)
  with assms show ?thesis by (cases f) simp_all
qed simp_all

lemma from_nago_ok: "nago_ok n \<Longrightarrow> wire_ok (from_nago of_code n)"
  by (cases n rule: nago_ok.cases) auto

lemma into_nago_ok: "wire_ok m \<Longrightarrow> nago_ok (into_nago to_code m)"
  by (cases m rule: wire_ok.cases) auto

end
