(* ===== verification/Framed.thy ===== *)
theory Framed
  imports Wire_Message
begin

text \<open>
  Length-delimited framing of \<open>src/libs/ws/transport/framed.rs\<close>: the codec (\<open>encode\<close>, \<open>decode\<close>),
  the reading half (\<open>take_frame\<close>, \<open>poll_next\<close>) and the writing half (\<open>poll_ready\<close>, \<open>start_send\<close>,
  \<open>poll_flush\<close>, \<open>poll_close\<close>) of \<open>NeutralFramed\<close>. The byte stream underneath is a parameter: its
  answers to successive polls are a list, so a theorem over all lists is a theorem over every
  chunking and every pattern of \<open>Pending\<close>. An exhausted list answers \<open>Pending\<close>.
\<close>

definition DEFAULT_MAX_FRAME_BYTES :: nat where
  "DEFAULT_MAX_FRAME_BYTES = 16 * 1024 * 1024"

definition READ_CHUNK_BYTES :: nat where
  "READ_CHUNK_BYTES = 8 * 1024"

definition LENGTH_PREFIX_BYTES :: nat where
  "LENGTH_PREFIX_BYTES = 4"

definition KIND_TEXT :: u8 where "KIND_TEXT = 0"
definition KIND_BINARY :: u8 where "KIND_BINARY = 1"
definition KIND_PING :: u8 where "KIND_PING = 2"
definition KIND_PONG :: u8 where "KIND_PONG = 3"
definition KIND_CLOSE :: u8 where "KIND_CLOSE = 4"

lemmas kind_defs [wire_defs] =
  KIND_TEXT_def KIND_BINARY_def KIND_PING_def KIND_PONG_def KIND_CLOSE_def
  LENGTH_PREFIX_BYTES_def

datatype io_error = InvalidData string | UnexpectedEof string | WriteZero string | OsError nat

datatype framed_error =
    Io io_error
  | UnknownKind u8
  | EmptyFrame
  | InvalidUtf8
  | MalformedClose

section \<open>The codec\<close>

fun encode :: "wire_message \<Rightarrow> bytes" where
  "encode (Text t) = KIND_TEXT # utf8_as_bytes t"
| "encode (Binary d) = KIND_BINARY # d"
| "encode (Ping d) = KIND_PING # d"
| "encode (Pong d) = KIND_PONG # d"
| "encode (Close None) = [KIND_CLOSE]"
| "encode (Close (Some f)) =
     KIND_CLOSE # be16 (unat (cf_code f)) @ utf8_as_bytes (cf_reason f)"

fun decode :: "bytes \<Rightarrow> (wire_message, framed_error) result" where
  "decode [] = Err EmptyFrame"
| "decode (kind # payload) =
     (if kind = KIND_TEXT then
        (case utf8_try_from payload of Some t \<Rightarrow> Ok (Text t) | None \<Rightarrow> Err InvalidUtf8)
      else if kind = KIND_BINARY then Ok (Binary payload)
      else if kind = KIND_PING then Ok (Ping payload)
      else if kind = KIND_PONG then Ok (Pong payload)
      else if kind = KIND_CLOSE then
        (case payload of
           [] \<Rightarrow> Ok (Close None)
         | [_] \<Rightarrow> Err MalformedClose
         | h # l # rest \<Rightarrow>
             (case utf8_try_from rest of
                None \<Rightarrow> Err MalformedClose
              | Some reason \<Rightarrow>
                  Ok (Close (Some \<lparr>cf_code = word_of_nat (of_be16 h l), cf_reason = reason\<rparr>))))
      else Err (UnknownKind kind))"

lemma be16_u16: "be16 (unat (w :: u16)) = [a, b] \<Longrightarrow> word_of_nat (of_be16 a b) = w"
proof -
  assume "be16 (unat w) = [a, b]"
  then have "of_be16 a b = unat w"
    using of_be16_be16 [of "unat w"] unsigned_less [of w]
    by (auto simp: be16_def)
  then show ?thesis by simp
qed

lemma unat_u16_of_be16: "unat (word_of_nat (of_be16 h l) :: u16) = of_be16 h l"
  using of_be16_less [of h l] by (simp add: unsigned_of_nat take_bit_nat_eq_self)

lemma decode_encode: "wire_ok m \<Longrightarrow> decode (encode m) = Ok m"
proof (cases m rule: encode.cases)
  case (6 f)
  assume "wire_ok m"
  obtain a b where ab: "be16 (unat (cf_code f)) = [a, b]"
    using be16_eq_Cons by blast
  with 6 \<open>wire_ok m\<close> be16_u16 [OF ab] show ?thesis
    by (cases f; cases "cf_reason f") (auto simp: wire_defs utf8_try_from_def)
qed (auto simp: wire_defs utf8_try_from_def)

lemma encode_decode: "decode fr = Ok m \<Longrightarrow> encode m = fr \<and> wire_ok m"
  by (cases fr rule: decode.cases)
    (auto simp: wire_defs utf8_try_from_def be16_of_be16 unat_u16_of_be16
       split: if_splits list.splits)

lemma encode_nonempty [simp]: "encode m \<noteq> []"
  by (cases m rule: encode.cases) auto

section \<open>The reading half\<close>

record framed =
  max_frame_bytes :: nat
  read_buf :: bytes
  write_buf :: bytes
  read_eof :: bool

definition framed_json_neutral_with_max_frame :: "nat \<Rightarrow> framed" where
  "framed_json_neutral_with_max_frame mx =
     \<lparr>max_frame_bytes = mx, read_buf = [], write_buf = [], read_eof = False\<rparr>"

definition framed_json_neutral :: framed where
  "framed_json_neutral = framed_json_neutral_with_max_frame DEFAULT_MAX_FRAME_BYTES"

definition oversize_error :: "nat \<Rightarrow> nat \<Rightarrow> framed_error" where
  "oversize_error n mx =
     Io (InvalidData (''frame of '' @ show_nat n @ '' bytes exceeds the '' @ show_nat mx
                      @ '' byte maximum''))"

definition take_frame :: "framed \<Rightarrow> framed \<times> (bytes option, framed_error) result" where
  "take_frame f =
     (if length (read_buf f) < LENGTH_PREFIX_BYTES then (f, Ok None)
      else let frame_len = of_be32 (take LENGTH_PREFIX_BYTES (read_buf f)) in
        if frame_len > max_frame_bytes f then (f, Err (oversize_error frame_len (max_frame_bytes f)))
        else if length (read_buf f) < LENGTH_PREFIX_BYTES + frame_len then (f, Ok None)
        else (f\<lparr>read_buf := drop (LENGTH_PREFIX_BYTES + frame_len) (read_buf f)\<rparr>,
              Ok (Some (take frame_len (drop LENGTH_PREFIX_BYTES (read_buf f))))))"

text \<open>
  One answer of the stream's \<open>poll_read\<close>: the bytes it put into the buffer (none means the end of
  the stream), an error, or \<open>Pending\<close>.
\<close>

datatype io_read = ReadBytes bytes | ReadErr io_error | ReadPending

fun poll_next ::
  "io_read list \<Rightarrow> framed \<Rightarrow>
    framed \<times> io_read list \<times> (wire_message, framed_error) result option poll" where
  "poll_next io f =
     (case take_frame f of
        (f, Err e) \<Rightarrow> (f, io, Ready (Some (Err e)))
      | (f, Ok (Some frame)) \<Rightarrow> (f, io, Ready (Some (decode frame)))
      | (f, Ok None) \<Rightarrow>
          if read_eof f then
            (f, io, Ready (if read_buf f = [] then None
              else Some (Err (Io (UnexpectedEof ''the stream ended in the middle of a frame'')))))
          else
            (case io of
               [] \<Rightarrow> (f, [], Pending)
             | ReadBytes bs # io' \<Rightarrow>
                 if bs = [] then poll_next io' (f\<lparr>read_eof := True\<rparr>)
                 else poll_next io' (f\<lparr>read_buf := read_buf f @ bs\<rparr>)
             | ReadErr e # io' \<Rightarrow> (f, io', Ready (Some (Err (Io e))))
             | ReadPending # io' \<Rightarrow> (f, io', Pending)))"

declare poll_next.simps [simp del]

section \<open>The writing half\<close>

text \<open>
  One answer of \<open>poll_write\<close>: how many bytes of the buffer were taken, an error, or \<open>Pending\<close>; and
  one answer of the stream's own \<open>poll_flush\<close> or \<open>poll_close\<close>. The bytes taken are returned in
  order, as the peer sees them.
\<close>

datatype io_write = Wrote nat | WriteErr io_error | WritePending

datatype io_done = IoDone | IoDoneErr io_error | IoDonePending

fun io_done_result :: "io_done \<Rightarrow> (unit, framed_error) result poll" where
  "io_done_result IoDone = Ready (Ok ())"
| "io_done_result (IoDoneErr e) = Ready (Err (Io e))"
| "io_done_result IoDonePending = Pending"

text \<open>The loop of \<open>poll_flush\<close>; \<open>None\<close> means it drained the buffer.\<close>

fun write_loop ::
  "io_write list \<Rightarrow> bytes \<Rightarrow> bytes \<times> bytes \<times> (unit, framed_error) result poll option" where
  "write_loop ws [] = ([], [], None)"
| "write_loop [] buf = ([], buf, Some Pending)"
| "write_loop (Wrote n # ws) buf =
     (if n = 0 then ([], buf, Some (Ready (Err (Io (WriteZero ''the stream accepted no bytes'')))))
      else case write_loop ws (drop n buf) of (out, rest, r) \<Rightarrow> (take n buf @ out, rest, r))"
| "write_loop (WriteErr e # ws) buf = ([], buf, Some (Ready (Err (Io e))))"
| "write_loop (WritePending # ws) buf = ([], buf, Some Pending)"

definition poll_flush ::
  "io_write list \<Rightarrow> io_done \<Rightarrow> framed \<Rightarrow> framed \<times> bytes \<times> (unit, framed_error) result poll" where
  "poll_flush ws fl f =
     (case write_loop ws (write_buf f) of
        (out, rest, Some r) \<Rightarrow> (f\<lparr>write_buf := rest\<rparr>, out, r)
      | (out, rest, None) \<Rightarrow> (f\<lparr>write_buf := rest\<rparr>, out, io_done_result fl))"

definition poll_ready ::
  "io_write list \<Rightarrow> io_done \<Rightarrow> framed \<Rightarrow> framed \<times> bytes \<times> (unit, framed_error) result poll" where
  "poll_ready ws fl f =
     (if length (write_buf f) \<ge> max_frame_bytes f then poll_flush ws fl f
      else (f, [], Ready (Ok ())))"

definition start_send :: "framed \<Rightarrow> wire_message \<Rightarrow> framed \<times> (unit, framed_error) result" where
  "start_send f item =
     (let payload = encode item in
      if length payload > max_frame_bytes f then
        (f, Err (oversize_error (length payload) (max_frame_bytes f)))
      else if length payload \<ge> 2 ^ 32 then
        (f, Err (Io (InvalidData ''frame length does not fit in u32'')))
      else (f\<lparr>write_buf := write_buf f @ be32 (length payload) @ payload\<rparr>, Ok ()))"

definition poll_close ::
  "io_write list \<Rightarrow> io_done \<Rightarrow> io_done \<Rightarrow> framed
    \<Rightarrow> framed \<times> bytes \<times> (unit, framed_error) result poll" where
  "poll_close ws fl cl f =
     (case poll_flush ws fl f of
        (f', out, Ready (Ok _)) \<Rightarrow> (f', out, io_done_result cl)
      | other \<Rightarrow> other)"

section \<open>Frames on the stream\<close>

definition frame_of :: "wire_message \<Rightarrow> bytes" where
  "frame_of m = be32 (length (encode m)) @ encode m"

definition sendable :: "nat \<Rightarrow> wire_message \<Rightarrow> bool" where
  "sendable mx m \<longleftrightarrow> wire_ok m \<and> length (encode m) \<le> mx \<and> length (encode m) < 2 ^ 32"

definition read_data :: "io_read list \<Rightarrow> bytes" where
  "read_data io = concat (map (\<lambda>r. case r of ReadBytes bs \<Rightarrow> bs | _ \<Rightarrow> []) io)"

text \<open>A stream that delivers its bytes in any chunks and pends at any time, with no error.\<close>

fun benign_read :: "io_read \<Rightarrow> bool" where
  "benign_read (ReadBytes bs) = (bs \<noteq> [])"
| "benign_read ReadPending = True"
| "benign_read (ReadErr e) = False"

lemma read_data_simps [simp]:
  "read_data [] = []"
  "read_data (ReadBytes bs # io) = bs @ read_data io"
  "read_data (ReadPending # io) = read_data io"
  "read_data (ReadErr e # io) = read_data io"
  by (simp_all add: read_data_def)

lemma length_frame_of: "length (frame_of m) = 4 + length (encode m)"
  by (simp add: frame_of_def)

lemma take_frame_complete:
  assumes "sendable (max_frame_bytes f) m" and "read_buf f = frame_of m @ rest"
  shows "take_frame f = (f\<lparr>read_buf := rest\<rparr>, Ok (Some (encode m)))"
  using assms
  by (simp add: take_frame_def frame_of_def sendable_def wire_defs of_be32_be32 Let_def)

lemma take_frame_partial:
  assumes "length (encode m) \<le> max_frame_bytes f" and "length (encode m) < 2 ^ 32"
    and "frame_of m = read_buf f @ extra" and "extra \<noteq> []"
  shows "take_frame f = (f, Ok None)"
proof (cases "length (read_buf f) < 4")
  case True
  then show ?thesis by (simp add: take_frame_def wire_defs)
next
  case False
  have "take 4 (frame_of m) = be32 (length (encode m))"
    by (simp add: frame_of_def)
  with False assms(3) have hd: "take 4 (read_buf f) = be32 (length (encode m))"
    by simp
  have "length (read_buf f) < 4 + length (encode m)"
    using arg_cong [OF assms(3), of length] assms(4) by (simp add: length_frame_of)
  with False assms(1,2) hd show ?thesis
    by (simp add: take_frame_def wire_defs of_be32_be32)
qed

lemma take_frame_empty: "read_buf f = [] \<Longrightarrow> take_frame f = (f, Ok None)"
  by (simp add: take_frame_def wire_defs)

text \<open>
  One poll on a stream that still carries the frame of \<open>m\<close>: either the message comes out and the
  rest of the bytes is untouched, or the poll pends having consumed an answer of the stream and
  nothing of the data.
\<close>

lemma poll_next_frame:
  assumes "list_all benign_read io" and "\<not> read_eof f" and "sendable (max_frame_bytes f) m"
    and "read_buf f @ read_data io = frame_of m @ rest"
  shows "\<exists>f' io'. list_all benign_read io' \<and> \<not> read_eof f'
    \<and> max_frame_bytes f' = max_frame_bytes f
    \<and> (poll_next (io @ tl_io) f = (f', io' @ tl_io, Ready (Some (Ok m)))
         \<and> length io' \<le> length io \<and> read_buf f' @ read_data io' = rest
       \<or> poll_next (io @ tl_io) f = (f', io' @ tl_io, Pending)
         \<and> length io' < length io \<and> read_buf f' @ read_data io' = frame_of m @ rest)"
  using assms
proof (induction io arbitrary: f)
  case Nil
  then have "take_frame f = (f\<lparr>read_buf := rest\<rparr>, Ok (Some (encode m)))"
    by (auto intro: take_frame_complete)
  with Nil show ?case
    by (intro exI [of _ "f\<lparr>read_buf := rest\<rparr>"] exI [of _ "[]"])
      (auto simp: poll_next.simps decode_encode sendable_def)
next
  case (Cons r io)
  show ?case
  proof (cases "length (frame_of m) \<le> length (read_buf f)")
    case True
    then obtain extra where extra: "read_buf f = frame_of m @ extra" and rest: "rest = extra @ read_data (r # io)"
      using Cons.prems(4) by (metis append_eq_append_conv_if append_take_drop_id)
    have "take_frame f = (f\<lparr>read_buf := extra\<rparr>, Ok (Some (encode m)))"
      using Cons.prems(3) extra by (rule take_frame_complete)
    with Cons.prems rest show ?thesis
      by (intro exI [of _ "f\<lparr>read_buf := extra\<rparr>"] exI [of _ "r # io"])
        (auto simp: poll_next.simps decode_encode sendable_def)
  next
    case False
    then obtain extra where extra: "frame_of m = read_buf f @ extra" "extra \<noteq> []"
      using Cons.prems(4)
      by (metis append_eq_append_conv_if append_take_drop_id drop_eq_Nil2)
    then have part: "take_frame f = (f, Ok None)"
      using Cons.prems(3) by (auto intro: take_frame_partial simp: sendable_def)
    show ?thesis
    proof (cases r)
      case (ReadBytes bs)
      with Cons.prems Cons.IH [of "f\<lparr>read_buf := read_buf f @ bs\<rparr>"] part show ?thesis
        by (auto simp: poll_next.simps [of "_ # _"] le_SucI less_SucI)
    next
      case (ReadErr e)
      with Cons.prems show ?thesis by simp
    next
      case ReadPending
      with Cons.prems part show ?thesis
        by (intro exI [of _ f] exI [of _ io]) (auto simp: poll_next.simps [of "_ # _"])
    qed
  qed
qed

text \<open>The same when the data has run out: the poll pends, or reports the clean end.\<close>

lemma poll_next_end:
  assumes "list_all benign_read io" and "\<not> read_eof f" and "read_buf f = []" and "read_data io = []"
  shows "(\<exists>f'. poll_next (io @ [ReadBytes []]) f = (f', [], Ready None)) \<and> io = []
    \<or> (\<exists>io'. poll_next (io @ [ReadBytes []]) f = (f, io' @ [ReadBytes []], Pending)
        \<and> list_all benign_read io' \<and> read_data io' = [] \<and> length io' < length io)"
proof (cases io)
  case Nil
  with assms show ?thesis
    by (auto simp: poll_next.simps take_frame_empty)
next
  case (Cons r io')
  with assms show ?thesis
    by (cases r) (auto simp: poll_next.simps take_frame_empty)
qed

text \<open>\<open>n\<close> successive polls by the session: the items they yield, and whether the end was reported.\<close>

fun reader_run ::
  "nat \<Rightarrow> io_read list \<Rightarrow> framed \<Rightarrow> (wire_message, framed_error) result list \<times> bool" where
  "reader_run 0 io f = ([], False)"
| "reader_run (Suc n) io f =
     (case poll_next io f of
        (f', io', Pending) \<Rightarrow> reader_run n io' f'
      | (f', io', Ready None) \<Rightarrow> ([], True)
      | (f', io', Ready (Some x)) \<Rightarrow> (case reader_run n io' f' of (xs, e) \<Rightarrow> (x # xs, e)))"

lemma reader_run_end:
  assumes "list_all benign_read io" and "\<not> read_eof f" and "read_buf f = []" and "read_data io = []" and "length io < n"
  shows "reader_run n (io @ [ReadBytes []]) f = ([], True)"
  using assms
proof (induction n arbitrary: io)
  case (Suc n)
  from poll_next_end [OF Suc.prems(1-4)] show ?case
  proof (elim disjE exE conjE)
    fix io'
    assume p: "poll_next (io @ [ReadBytes []]) f = (f, io' @ [ReadBytes []], Pending)"
      and io': "list_all benign_read io'" "read_data io' = []" "length io' < length io"
    have "reader_run n (io' @ [ReadBytes []]) f = ([], True)"
      using Suc.prems io' by (intro Suc.IH) auto
    with p show ?thesis by simp
  qed simp
qed simp

lemma reader_run_delivers:
  assumes "list_all benign_read io" and "\<not> read_eof f"
    and "\<forall>m \<in> set ms. sendable (max_frame_bytes f) m"
    and "read_buf f @ read_data io = concat (map frame_of ms)"
    and "length ms + length io < n"
  shows "reader_run n (io @ [ReadBytes []]) f = (map Ok ms, True)"
  using assms
proof (induction n arbitrary: io f ms)
  case 0
  then show ?case by simp
next
  case (Suc n)
  show ?case
  proof (cases ms)
    case Nil
    with Suc.prems reader_run_end [of io f "Suc n"] show ?thesis by simp
  next
    case (Cons m ms')
    have "read_buf f @ read_data io = frame_of m @ concat (map frame_of ms')"
      using Suc.prems(4) Cons by simp
    from poll_next_frame [OF Suc.prems(1,2) _ this, of "[ReadBytes []]"] Suc.prems(3) Cons
    obtain f' io' where io': "list_all benign_read io'" "\<not> read_eof f'"
        "max_frame_bytes f' = max_frame_bytes f"
      and step: "poll_next (io @ [ReadBytes []]) f = (f', io' @ [ReadBytes []], Ready (Some (Ok m)))
          \<and> length io' \<le> length io \<and> read_buf f' @ read_data io' = concat (map frame_of ms')
        \<or> poll_next (io @ [ReadBytes []]) f = (f', io' @ [ReadBytes []], Pending)
          \<and> length io' < length io
          \<and> read_buf f' @ read_data io' = frame_of m @ concat (map frame_of ms')"
      by auto
    from step show ?thesis
    proof (elim disjE conjE)
      assume "poll_next (io @ [ReadBytes []]) f = (f', io' @ [ReadBytes []], Ready (Some (Ok m)))"
        and "length io' \<le> length io" "read_buf f' @ read_data io' = concat (map frame_of ms')"
      moreover have "reader_run n (io' @ [ReadBytes []]) f' = (map Ok ms', True)"
        using Suc.prems io' calculation Cons by (intro Suc.IH) auto
      ultimately show ?thesis by (simp add: Cons)
    next
      assume "poll_next (io @ [ReadBytes []]) f = (f', io' @ [ReadBytes []], Pending)"
        and "length io' < length io"
          "read_buf f' @ read_data io' = frame_of m @ concat (map frame_of ms')"
      moreover have "reader_run n (io' @ [ReadBytes []]) f' = (map Ok ms, True)"
        using Suc.prems io' calculation Cons by (intro Suc.IH) auto
      ultimately show ?thesis by simp
    qed
  qed
qed

section \<open>The writing half conserves bytes\<close>

lemma write_loop_conserves: "write_loop ws buf = (out, rest, r) \<Longrightarrow> out @ rest = buf"
  by (induction ws buf arbitrary: out rest rule: write_loop.induct)
    (auto split: if_splits prod.splits)

lemma write_loop_done: "write_loop ws buf = (out, rest, None) \<Longrightarrow> rest = []"
  by (induction ws buf arbitrary: out rest rule: write_loop.induct)
    (auto split: if_splits prod.splits)

lemma poll_flush_conserves:
  "poll_flush ws fl f = (f', out, r) \<Longrightarrow> out @ write_buf f' = write_buf f"
  by (auto simp: poll_flush_def dest: write_loop_conserves split: prod.splits option.splits)

lemma poll_flush_ok_drains:
  "poll_flush ws fl f = (f', out, Ready (Ok ())) \<Longrightarrow> write_buf f' = []"
proof -
  assume a: "poll_flush ws fl f = (f', out, Ready (Ok ()))"
  have "r \<noteq> Ready (Ok ())" if "write_loop ws buf = (o1, rest, Some r)" for buf o1 rest r
    using that by (induction ws buf arbitrary: o1 rest rule: write_loop.induct)
      (auto split: if_splits prod.splits)
  with a show ?thesis
    by (auto simp: poll_flush_def dest: write_loop_done split: prod.splits option.splits)
qed

fun send_all :: "framed \<Rightarrow> wire_message list \<Rightarrow> framed \<times> (unit, framed_error) result" where
  "send_all f [] = (f, Ok ())"
| "send_all f (m # ms) =
     (case start_send f m of (f', Ok _) \<Rightarrow> send_all f' ms | (f', Err e) \<Rightarrow> (f', Err e))"

fun flush_run :: "(io_write list \<times> io_done) list \<Rightarrow> framed \<Rightarrow> framed \<times> bytes" where
  "flush_run [] f = (f, [])"
| "flush_run ((ws, fl) # sched) f =
     (case poll_flush ws fl f of (f', out, _) \<Rightarrow>
        case flush_run sched f' of (f'', outs) \<Rightarrow> (f'', out @ outs))"

lemma start_send_Ok:
  "start_send f m = (f', Ok ()) \<longleftrightarrow>
     length (encode m) \<le> max_frame_bytes f \<and> length (encode m) < 2 ^ 32
     \<and> f' = f\<lparr>write_buf := write_buf f @ frame_of m\<rparr>"
  by (auto simp: start_send_def Let_def frame_of_def)

lemma send_all_Ok:
  "send_all f ms = (f', Ok ()) \<Longrightarrow>
     (\<forall>m \<in> set ms. length (encode m) \<le> max_frame_bytes f \<and> length (encode m) < 2 ^ 32)
     \<and> f' = f\<lparr>write_buf := write_buf f @ concat (map frame_of ms)\<rparr>"
proof (induction ms arbitrary: f)
  case Nil
  then show ?case by simp
next
  case (Cons m ms)
  then obtain g where g: "start_send f m = (g, Ok ())" and ms: "send_all g ms = (f', Ok ())"
    by (auto split: prod.splits result.splits)
  from Cons.IH [OF ms] g show ?case
    by (auto simp: start_send_Ok)
qed

lemma flush_run_conserves: "flush_run sched f = (f', out) \<Longrightarrow> out @ write_buf f' = write_buf f"
proof (induction sched f arbitrary: out rule: flush_run.induct)
  case (2 ws fl sched f)
  obtain g o1 r where g: "poll_flush ws fl f = (g, o1, r)"
    by (cases "poll_flush ws fl f") auto
  obtain h o2 where h: "flush_run sched g = (h, o2)"
    by (cases "flush_run sched g") auto
  have "o2 @ write_buf h = write_buf g"
    using "2.IH" g h "2.prems" by simp
  with "2.prems" g h poll_flush_conserves [OF g] show ?case by auto
qed simp

section \<open>Properties\<close>

text \<open>
  The frame codec is a bijection between well-formed messages and the frames \<open>decode\<close> accepts:
  \<open>decode\<close> inverts \<open>encode\<close> on every message whose text is UTF-8, and conversely a frame that
  decodes is exactly the encoding of the message it decodes to, which carries valid UTF-8.
\<close>
theorem framed_codec_bijection:
  "(wire_ok m \<longrightarrow> decode (encode m) = Ok m)
   \<and> (decode fr = Ok m \<longrightarrow> encode m = fr \<and> wire_ok m)"
  using decode_encode encode_decode by blast

theorem framed_codec_bijection_witness:
  "let m = Close (Some \<lparr>cf_code = 1000, cf_reason = Utf8Bytes [0x62, 0xC3, 0xA9]\<rparr>)
   in wire_ok m \<and> decode (encode m) = Ok m \<and> encode m = [4, 3, 0xE8, 0x62, 0xC3, 0xA9]"
proof -
  let ?m = "Close (Some \<lparr>cf_code = 1000, cf_reason = Utf8Bytes [0x62, 0xC3, 0xA9]\<rparr>)"
  have ok: "wire_ok ?m"
    by (simp add: utf8_width_def utf8_cont_def utf8_second_def Let_def)
  have enc: "encode ?m = [4, 3, 0xE8, 0x62, 0xC3, 0xA9]"
    by (simp add: wire_defs be16_def)
  have "decode (encode ?m) = Ok ?m"
    using framed_codec_bijection [of ?m "[]"] ok by blast
  with ok enc show ?thesis by (simp only: Let_def simp_thms)
qed

text \<open>
  C7. The framed transport end to end. Messages queued with \<open>start_send\<close> and flushed under any
  schedule of partial writes, errors and \<open>Pending\<close>, as long as the buffer drains in the end, reach
  a peer that reads the bytes in any chunks, pends at any time and then sees the end of the
  stream: it yields exactly those messages, in order, and then the clean end. The number of polls
  needed is bounded by the messages and the stream's answers.
\<close>
theorem framed_end_to_end:
  assumes "\<forall>m \<in> set ms. wire_ok m"
    and "send_all (framed_json_neutral_with_max_frame mx) ms = (f, Ok ())"
    and "flush_run sched f = (f', out)" and "write_buf f' = []"
    and "list_all benign_read io" and "read_data io = out"
    and "length ms + length io < n"
  shows "reader_run n (io @ [ReadBytes []]) (framed_json_neutral_with_max_frame mx)
         = (map Ok ms, True)"
proof (rule reader_run_delivers)
  have sent: "(\<forall>m \<in> set ms. length (encode m) \<le> mx \<and> length (encode m) < 2 ^ 32)"
    "write_buf f = concat (map frame_of ms)"
    using send_all_Ok [OF assms(2)] by (auto simp: framed_json_neutral_with_max_frame_def)
  then show "\<forall>m \<in> set ms.
      sendable (max_frame_bytes (framed_json_neutral_with_max_frame mx)) m"
    using assms(1) by (auto simp: sendable_def framed_json_neutral_with_max_frame_def)
  show "read_buf (framed_json_neutral_with_max_frame mx) @ read_data io = concat (map frame_of ms)"
    using flush_run_conserves [OF assms(3)] assms(4,6) sent
    by (simp add: framed_json_neutral_with_max_frame_def)
qed (use assms in \<open>auto simp: framed_json_neutral_with_max_frame_def\<close>)

theorem framed_end_to_end_witness:
  "reader_run 5 [ReadBytes [0, 0, 0], ReadPending, ReadBytes [2, 1, 9], ReadBytes []]
     (framed_json_neutral_with_max_frame 16) = ([Ok (Binary [9])], True)"
proof -
  let ?f = "(framed_json_neutral_with_max_frame 16)\<lparr>write_buf := [0, 0, 0, 2, 1, 9]\<rparr>"
  have s: "send_all (framed_json_neutral_with_max_frame 16) [Binary [9]] = (?f, Ok ())"
    by (simp add: start_send_def framed_json_neutral_with_max_frame_def wire_defs be32_def be16_def)
  have fl: "flush_run [([Wrote 2, WritePending], IoDone), ([Wrote 4], IoDone)] ?f
      = (?f\<lparr>write_buf := []\<rparr>, [0, 0, 0, 2, 1, 9])"
    by (simp add: poll_flush_def numeral_eq_Suc)
  show ?thesis
    using framed_end_to_end [OF _ s fl, of "[ReadBytes [0, 0, 0], ReadPending, ReadBytes [2, 1, 9]]" 5]
    by simp
qed

text \<open>What one \<open>poll_read\<close> may answer: at most the chunk it was offered.\<close>

fun chunk_ok :: "io_read \<Rightarrow> bool" where
  "chunk_ok (ReadBytes bs) = (length bs \<le> READ_CHUNK_BYTES)"
| "chunk_ok _ = True"

lemma take_frame_None:
  "take_frame f = (f', Ok None) \<Longrightarrow>
     f' = f \<and> length (read_buf f) < LENGTH_PREFIX_BYTES + max_frame_bytes f"
  by (auto simp: take_frame_def Let_def split: if_splits)

lemma take_frame_length:
  "take_frame f = (f', r) \<Longrightarrow>
     length (read_buf f') \<le> length (read_buf f) \<and> max_frame_bytes f' = max_frame_bytes f"
  by (auto simp: take_frame_def Let_def split: if_splits)

lemma poll_next_bound:
  assumes "list_all chunk_ok io" and "poll_next io f = (f', io', r)"
    and "length (read_buf f) < LENGTH_PREFIX_BYTES + max_frame_bytes f + READ_CHUNK_BYTES"
  shows "length (read_buf f') < LENGTH_PREFIX_BYTES + max_frame_bytes f + READ_CHUNK_BYTES
    \<and> max_frame_bytes f' = max_frame_bytes f \<and> list_all chunk_ok io'"
  using assms
proof (induction io arbitrary: f)
  case Nil
  obtain g t where t: "take_frame f = (g, t)" by (cases "take_frame f") auto
  with Nil take_frame_length [OF t] show ?case
    by (auto simp: poll_next.simps [of "[]"] split: result.splits option.splits if_splits)
next
  case (Cons x io)
  obtain g t where t: "take_frame f = (g, t)" by (cases "take_frame f") auto
  show ?case
  proof (cases "t = Ok None \<and> \<not> read_eof g \<and> (\<exists>bs. x = ReadBytes bs)")
    case True
    then obtain bs where x: "x = ReadBytes bs" and tn: "t = Ok None" and eof: "\<not> read_eof g"
      by auto
    have g: "g = f" "length (read_buf f) < LENGTH_PREFIX_BYTES + max_frame_bytes f"
      using take_frame_None t tn by auto
    then have "length (read_buf f @ bs) < LENGTH_PREFIX_BYTES + max_frame_bytes f + READ_CHUNK_BYTES"
      using Cons.prems(1) x by simp
    with g Cons.IH [of "f\<lparr>read_buf := read_buf f @ bs\<rparr>"] Cons.IH [of "f\<lparr>read_eof := True\<rparr>"]
      Cons.prems t tn eof x show ?thesis
      by (auto simp: poll_next.simps [of "_ # _"] split: if_splits)
  next
    case False
    with Cons.prems t take_frame_length [OF t] show ?thesis
      by (auto simp: poll_next.simps [of "_ # _"] split: result.splits option.splits if_splits
          io_read.splits)
  qed
qed

text \<open>
  C37. A peer cannot make the reader buffer without limit. The read buffer stays below the length
  prefix, one maximal frame and one read chunk in every poll, whatever the peer sends: a frame
  whose length prefix exceeds the maximum is refused as soon as its four bytes are there, before
  any of its body is asked for.
\<close>
theorem framed_read_buffer_bounded:
  assumes "list_all chunk_ok io"
    and "length (read_buf f) < LENGTH_PREFIX_BYTES + max_frame_bytes f + READ_CHUNK_BYTES"
    and "poll_next io f = (f', io', r)"
  shows "length (read_buf f') < LENGTH_PREFIX_BYTES + max_frame_bytes f' + READ_CHUNK_BYTES
    \<and> (LENGTH_PREFIX_BYTES \<le> length (read_buf f)
         \<and> max_frame_bytes f < of_be32 (take LENGTH_PREFIX_BYTES (read_buf f)) \<longrightarrow>
       f' = f \<and> io' = io \<and> r = Ready (Some (Err
         (oversize_error (of_be32 (take LENGTH_PREFIX_BYTES (read_buf f))) (max_frame_bytes f)))))"
proof (intro conjI impI; (elim conjE)?)
  show "length (read_buf f') < LENGTH_PREFIX_BYTES + max_frame_bytes f' + READ_CHUNK_BYTES"
    using poll_next_bound [OF assms(1,3,2)] by simp
next
  let ?n = "of_be32 (take LENGTH_PREFIX_BYTES (read_buf f))"
  assume "LENGTH_PREFIX_BYTES \<le> length (read_buf f)" and "max_frame_bytes f < ?n"
  then have "take_frame f = (f, Err (oversize_error ?n (max_frame_bytes f)))"
    by (simp add: take_frame_def)
  then have "poll_next io f = (f, io, Ready (Some (Err (oversize_error ?n (max_frame_bytes f)))))"
    by (subst poll_next.simps) simp
  with assms(3) show "f' = f" and "io' = io"
    and "r = Ready (Some (Err (oversize_error ?n (max_frame_bytes f))))"
    by auto
qed

theorem framed_read_buffer_bounded_witness:
  "let f = framed_json_neutral_with_max_frame 8
   in case poll_next [ReadBytes [0xFF, 0xFF, 0xFF, 0xFF, 0]] f of
        (f', _) \<Rightarrow> length (read_buf f') < LENGTH_PREFIX_BYTES + max_frame_bytes f' + READ_CHUNK_BYTES"
proof -
  have "list_all chunk_ok [ReadBytes [0xFF, 0xFF, 0xFF, 0xFF, 0]]"
    by (simp add: READ_CHUNK_BYTES_def)
  from framed_read_buffer_bounded [OF this, of "framed_json_neutral_with_max_frame 8"]
  show ?thesis
    by (cases "poll_next [ReadBytes [0xFF, 0xFF, 0xFF, 0xFF, 0]] (framed_json_neutral_with_max_frame 8)")
      (simp add: framed_json_neutral_with_max_frame_def READ_CHUNK_BYTES_def)
qed

text \<open>The backlog of the writer: a caller that waits for \<open>poll_ready\<close> keeps it below two frames.\<close>

lemma poll_ready_room:
  assumes "poll_ready ws fl f = (f', out, Ready (Ok ()))" and "0 < max_frame_bytes f"
  shows "length (write_buf f') < max_frame_bytes f"
  using assms poll_flush_ok_drains [of ws fl f f' out]
  by (auto simp: poll_ready_def split: if_splits)

lemma framed_write_backlog_bounded:
  assumes "poll_ready ws fl f = (f', out, Ready (Ok ()))" and "0 < max_frame_bytes f"
    and "start_send f' m = (f'', Ok ())" and "max_frame_bytes f' = max_frame_bytes f"
  shows "length (write_buf f'') < 2 * max_frame_bytes f + LENGTH_PREFIX_BYTES"
  using poll_ready_room [OF assms(1,2)] assms(3,4)
  by (auto simp: start_send_Ok length_frame_of LENGTH_PREFIX_BYTES_def)

end
