(* ===== verification/Json.thy ===== *)
theory Json
  imports Prelude "HOL-Library.List_Lexorder" "HOL-Library.Char_ord"
begin

text \<open>
  The JSON values the crate passes around (\<open>serde_json::Value\<close>). An object is a \<open>BTreeMap\<close>: an
  association list in strictly increasing key order, so that equality of values is equality of
  terms. An integer is the number itself, a float its IEEE bit pattern. \<open>btree_map\<close> is the contract
  of the sorted map, used for objects, for the \<open>$defs\<close> of a schema and for the type registry.
\<close>

section \<open>Sorted string maps\<close>

type_synonym 'v btree = "(string \<times> 'v) list"

fun obj_insert :: "string \<Rightarrow> 'v \<Rightarrow> 'v btree \<Rightarrow> 'v btree" where
  "obj_insert k v [] = [(k, v)]"
| "obj_insert k v ((k', v') # m) =
     (if k = k' then (k, v) # m
      else if k < k' then (k, v) # (k', v') # m
      else (k', v') # obj_insert k v m)"

definition obj_get :: "'v btree \<Rightarrow> string \<Rightarrow> 'v option" where
  "obj_get m k = map_of m k"

definition obj_of :: "(string \<times> 'v) list \<Rightarrow> 'v btree" where
  "obj_of kvs = fold (\<lambda>(k, v). obj_insert k v) kvs []"

definition obj_wf :: "'v btree \<Rightarrow> bool" where
  "obj_wf m \<longleftrightarrow> sorted_wrt (<) (map fst m)"

lemma obj_get_insert [simp]: "obj_get (obj_insert k v m) k' = (if k' = k then Some v else obj_get m k')"
  by (induction k v m rule: obj_insert.induct) (auto simp: obj_get_def)

lemma obj_get_Nil [simp]: "obj_get [] k = None"
  by (simp add: obj_get_def)

lemma obj_keys_insert [simp]: "fst ` set (obj_insert k v m) = insert k (fst ` set m)"
  by (induction k v m rule: obj_insert.induct) auto

lemma obj_wf_insert [simp]: "obj_wf m \<Longrightarrow> obj_wf (obj_insert k v m)"
proof (induction k v m rule: obj_insert.induct)
  case (2 k v k' v' m)
  have "set (map fst (obj_insert k v m)) = insert k (set (map fst m))"
    using obj_keys_insert [of k v m] by simp
  with 2 show ?case
    by (auto simp: obj_wf_def)
qed (simp add: obj_wf_def)

lemma obj_wf_Nil [simp]: "obj_wf []"
  by (simp add: obj_wf_def)

lemma obj_get_None_iff: "obj_get m k = None \<longleftrightarrow> k \<notin> fst ` set m"
  by (simp add: obj_get_def map_of_eq_None_iff)

lemma set_obj_insert: "set (obj_insert k v m) \<subseteq> insert (k, v) (set m)"
  by (induction k v m rule: obj_insert.induct) auto

lemma obj_wf_distinct: "obj_wf m \<Longrightarrow> distinct (map fst m)"
  by (induction m) (auto simp: obj_wf_def)

lemma map_of_rev: "distinct (map fst m) \<Longrightarrow> map_of (rev m) = map_of m"
  by (subst map_of_inject_set) (simp_all flip: rev_map)

lemma obj_get_iff: "obj_wf m \<Longrightarrow> obj_get m k = Some v \<longleftrightarrow> (k, v) \<in> set m"
  by (simp add: obj_get_def obj_wf_distinct map_of_eq_Some_iff)

lemma obj_insert_mem:
  "obj_wf m \<Longrightarrow> (k', v') \<in> set (obj_insert k v m) \<longleftrightarrow>
     (if k' = k then v' = v else (k', v') \<in> set m)"
  by (simp flip: obj_get_iff) auto

lemma btree_rebuild: "distinct (map fst m) \<Longrightarrow> m = map (\<lambda>k. (k, the (map_of m k))) (map fst m)"
  by (rule sym, simp, rule map_idI) auto

lemma obj_ext:
  assumes "obj_wf m" "obj_wf m'" and get: "\<And>k. obj_get m k = obj_get m' k"
  shows "m = m'"
proof -
  have eq: "map_of m = map_of m'"
    using get by (auto simp: obj_get_def)
  then have "set (map fst m) = set (map fst m')"
    by (metis dom_map_of_conv_image_fst list.set_map)
  moreover have "sorted (map fst m)" "sorted (map fst m')"
    using assms(1,2) by (simp_all add: obj_wf_def strict_sorted_iff)
  ultimately have "map fst m = map fst m'"
    using assms(1,2) by (intro sorted_distinct_set_unique) (simp_all add: obj_wf_distinct)
  then show ?thesis
    using btree_rebuild [of m] btree_rebuild [of m'] eq assms(1,2) by (simp add: obj_wf_distinct)
qed

text \<open>The contract of \<open>BTreeMap\<close> the crate relies on.\<close>

locale btree_map =
  fixes wf :: "'m \<Rightarrow> bool" and emp :: 'm and ins :: "string \<Rightarrow> 'v \<Rightarrow> 'm \<Rightarrow> 'm"
    and get :: "'m \<Rightarrow> string \<Rightarrow> 'v option"
  assumes wf_emp: "wf emp"
    and wf_ins: "wf m \<Longrightarrow> wf (ins k v m)"
    and get_emp: "get emp k = None"
    and get_ins: "get (ins k v m) k' = (if k' = k then Some v else get m k')"
begin

definition extend :: "(string \<times> 'v) list \<Rightarrow> 'm \<Rightarrow> 'm" where
  "extend kvs m = fold (\<lambda>(k, v). ins k v) kvs m"

lemma extend_simps [simp]:
  "extend [] m = m" "extend ((k, v) # kvs) m = extend kvs (ins k v m)"
  by (simp_all add: extend_def)

lemma wf_extend: "wf m \<Longrightarrow> wf (extend kvs m)"
  by (induction kvs arbitrary: m) (auto simp: wf_ins)

lemma get_extend: "get (extend kvs m) k = (case map_of (rev kvs) k of Some v \<Rightarrow> Some v | None \<Rightarrow> get m k)"
  by (induction kvs arbitrary: m) (auto simp: get_ins map_add_def split: option.splits)

lemma get_extend_other: "k \<notin> fst ` set kvs \<Longrightarrow> get (extend kvs m) k = get m k"
  by (simp add: get_extend map_of_eq_None_iff split: option.split)
    (metis image_eqI fst_conv map_of_SomeD set_rev)

end

interpretation obj: btree_map obj_wf "[]" obj_insert obj_get
  by unfold_locales (auto split: if_splits)

lemma obj_of_extend: "obj_of kvs = obj.extend kvs []"
  by (simp add: obj_of_def obj.extend_def)

lemma obj_wf_of [simp]: "obj_wf (obj_of kvs)"
  by (simp add: obj_of_extend obj.wf_extend)

lemma obj_get_of: "obj_get (obj_of kvs) k = map_of (rev kvs) k"
  by (simp add: obj_of_extend obj.get_extend split: option.splits)

section \<open>Values\<close>

datatype json =
    JNull
  | JBool bool
  | JInt int
  | JFloat u64
  | JStr string
  | JArr "json list"
  | JObj "(string \<times> json) list"

text \<open>\<open>Value::get\<close> on a key, \<open>Value::as_str\<close>, and the \<open>json!\<close> object literal.\<close>

fun jget :: "json \<Rightarrow> string \<Rightarrow> json option" where
  "jget (JObj m) k = obj_get m k"
| "jget _ k = None"

fun as_str :: "json \<Rightarrow> string option" where
  "as_str (JStr s) = Some s"
| "as_str _ = None"

definition jobj :: "(string \<times> json) list \<Rightarrow> json" where
  "jobj kvs = JObj (obj_of kvs)"

lemma jget_jobj: "jget (jobj kvs) k = map_of (rev kvs) k"
  by (simp add: jobj_def obj_get_of)

lemma jget_not_obj: "(\<And>m. j \<noteq> JObj m) \<Longrightarrow> jget j k = None"
  by (cases j) auto

end
