(* ===== verification/Error_Code.thy ===== *)
theory Error_Code
  imports Prelude
begin

text \<open>
  The public error codes of \<open>src/libs/error_code.rs\<close>: a wrapper around \<open>u32\<close>, the table of the
  standard codes, their names and the two parsers.
\<close>

datatype error_code = ErrorCode (to_u32: u32)

definition BAD_REQUEST :: error_code where "BAD_REQUEST = ErrorCode 100400"
definition UNAUTHORIZED :: error_code where "UNAUTHORIZED = ErrorCode 100401"
definition PAYMENT_REQUIRED :: error_code where "PAYMENT_REQUIRED = ErrorCode 100402"
definition FORBIDDEN :: error_code where "FORBIDDEN = ErrorCode 100403"
definition NOT_FOUND :: error_code where "NOT_FOUND = ErrorCode 100404"
definition METHOD_NOT_ALLOWED :: error_code where "METHOD_NOT_ALLOWED = ErrorCode 100405"
definition NOT_ACCEPTABLE :: error_code where "NOT_ACCEPTABLE = ErrorCode 100406"
definition PROXY_AUTHENTICATION_REQUIRED :: error_code where "PROXY_AUTHENTICATION_REQUIRED = ErrorCode 100407"
definition REQUEST_TIMEOUT :: error_code where "REQUEST_TIMEOUT = ErrorCode 100408"
definition CONFLICT :: error_code where "CONFLICT = ErrorCode 100409"
definition GONE :: error_code where "GONE = ErrorCode 100410"
definition LENGTH_REQUIRED :: error_code where "LENGTH_REQUIRED = ErrorCode 100411"
definition PRECONDITION_FAILED :: error_code where "PRECONDITION_FAILED = ErrorCode 100412"
definition PAYLOAD_TOO_LARGE :: error_code where "PAYLOAD_TOO_LARGE = ErrorCode 100413"
definition URI_TOO_LONG :: error_code where "URI_TOO_LONG = ErrorCode 100414"
definition UNSUPPORTED_MEDIA_TYPE :: error_code where "UNSUPPORTED_MEDIA_TYPE = ErrorCode 100415"
definition RANGE_NOT_SATISFIABLE :: error_code where "RANGE_NOT_SATISFIABLE = ErrorCode 100416"
definition EXPECTATION_FAILED :: error_code where "EXPECTATION_FAILED = ErrorCode 100417"
definition IM_A_TEAPOT :: error_code where "IM_A_TEAPOT = ErrorCode 100418"
definition MISDIRECTED_REQUEST :: error_code where "MISDIRECTED_REQUEST = ErrorCode 100421"
definition UNPROCESSABLE_ENTITY :: error_code where "UNPROCESSABLE_ENTITY = ErrorCode 100422"
definition LOCKED :: error_code where "LOCKED = ErrorCode 100423"
definition FAILED_DEPENDENCY :: error_code where "FAILED_DEPENDENCY = ErrorCode 100424"
definition UPGRADE_REQUIRED :: error_code where "UPGRADE_REQUIRED = ErrorCode 100426"
definition PRECONDITION_REQUIRED :: error_code where "PRECONDITION_REQUIRED = ErrorCode 100428"
definition TOO_MANY_REQUESTS :: error_code where "TOO_MANY_REQUESTS = ErrorCode 100429"
definition REQUEST_HEADER_FIELDS_TOO_LARGE :: error_code where "REQUEST_HEADER_FIELDS_TOO_LARGE = ErrorCode 100431"
definition UNAVAILABLE_FOR_LEGAL_REASONS :: error_code where "UNAVAILABLE_FOR_LEGAL_REASONS = ErrorCode 100451"
definition INTERNAL_ERROR :: error_code where "INTERNAL_ERROR = ErrorCode 100500"
definition NOT_IMPLEMENTED :: error_code where "NOT_IMPLEMENTED = ErrorCode 100501"
definition BAD_GATEWAY :: error_code where "BAD_GATEWAY = ErrorCode 100502"
definition SERVICE_UNAVAILABLE :: error_code where "SERVICE_UNAVAILABLE = ErrorCode 100503"
definition GATEWAY_TIMEOUT :: error_code where "GATEWAY_TIMEOUT = ErrorCode 100504"
definition HTTP_VERSION_NOT_SUPPORTED :: error_code where "HTTP_VERSION_NOT_SUPPORTED = ErrorCode 100505"
definition VARIANT_ALSO_NEGOTIATES :: error_code where "VARIANT_ALSO_NEGOTIATES = ErrorCode 100506"
definition INSUFFICIENT_STORAGE :: error_code where "INSUFFICIENT_STORAGE = ErrorCode 100507"
definition LOOP_DETECTED :: error_code where "LOOP_DETECTED = ErrorCode 100508"
definition NOT_EXTENDED :: error_code where "NOT_EXTENDED = ErrorCode 100510"
definition NETWORK_AUTHENTICATION_REQUIRED :: error_code where "NETWORK_AUTHENTICATION_REQUIRED = ErrorCode 100511"

lemmas error_code_consts =
  BAD_REQUEST_def UNAUTHORIZED_def PAYMENT_REQUIRED_def
  FORBIDDEN_def NOT_FOUND_def METHOD_NOT_ALLOWED_def
  NOT_ACCEPTABLE_def PROXY_AUTHENTICATION_REQUIRED_def REQUEST_TIMEOUT_def
  CONFLICT_def GONE_def LENGTH_REQUIRED_def
  PRECONDITION_FAILED_def PAYLOAD_TOO_LARGE_def URI_TOO_LONG_def
  UNSUPPORTED_MEDIA_TYPE_def RANGE_NOT_SATISFIABLE_def EXPECTATION_FAILED_def
  IM_A_TEAPOT_def MISDIRECTED_REQUEST_def UNPROCESSABLE_ENTITY_def
  LOCKED_def FAILED_DEPENDENCY_def UPGRADE_REQUIRED_def
  PRECONDITION_REQUIRED_def TOO_MANY_REQUESTS_def REQUEST_HEADER_FIELDS_TOO_LARGE_def
  UNAVAILABLE_FOR_LEGAL_REASONS_def INTERNAL_ERROR_def NOT_IMPLEMENTED_def
  BAD_GATEWAY_def SERVICE_UNAVAILABLE_def GATEWAY_TIMEOUT_def
  HTTP_VERSION_NOT_SUPPORTED_def VARIANT_ALSO_NEGOTIATES_def INSUFFICIENT_STORAGE_def
  LOOP_DETECTED_def NOT_EXTENDED_def NETWORK_AUTHENTICATION_REQUIRED_def

text \<open>\<open>kind\<close>: the match on the number, as its table, with the wildcard arm.\<close>

definition kind_table :: "(u32 \<times> string) list" where
  "kind_table =
    [(100400, ''BadRequest''),
     (100401, ''Unauthorized''),
     (100402, ''PaymentRequired''),
     (100403, ''Forbidden''),
     (100404, ''NotFound''),
     (100405, ''MethodNotAllowed''),
     (100406, ''NotAcceptable''),
     (100407, ''ProxyAuthenticationRequired''),
     (100408, ''RequestTimeout''),
     (100409, ''Conflict''),
     (100410, ''Gone''),
     (100411, ''LengthRequired''),
     (100412, ''PreconditionFailed''),
     (100413, ''PayloadTooLarge''),
     (100414, ''UriTooLong''),
     (100415, ''UnsupportedMediaType''),
     (100416, ''RangeNotSatisfiable''),
     (100417, ''ExpectationFailed''),
     (100418, ''ImATeapot''),
     (100421, ''MisdirectedRequest''),
     (100422, ''UnprocessableEntity''),
     (100423, ''Locked''),
     (100424, ''FailedDependency''),
     (100426, ''UpgradeRequired''),
     (100428, ''PreconditionRequired''),
     (100429, ''TooManyRequests''),
     (100431, ''RequestHeaderFieldsTooLarge''),
     (100451, ''UnavailableForLegalReasons''),
     (100500, ''InternalError''),
     (100501, ''NotImplemented''),
     (100502, ''BadGateway''),
     (100503, ''ServiceUnavailable''),
     (100504, ''GatewayTimeout''),
     (100505, ''HttpVersionNotSupported''),
     (100506, ''VariantAlsoNegotiates''),
     (100507, ''InsufficientStorage''),
     (100508, ''LoopDetected''),
     (100510, ''NotExtended''),
     (100511, ''NetworkAuthenticationRequired'')]"

definition kind :: "error_code \<Rightarrow> string" where
  "kind c = (case map_of kind_table (to_u32 c) of Some k \<Rightarrow> k | None \<Rightarrow> ''CustomError'')"

definition is_ascii_alphanumeric :: "char \<Rightarrow> bool" where
  "is_ascii_alphanumeric c \<longleftrightarrow>
     is_digit c \<or> (CHR ''A'' \<le> c \<and> c \<le> CHR ''Z'') \<or> (CHR ''a'' \<le> c \<and> c \<le> CHR ''z'')"

definition ascii_upper :: "char \<Rightarrow> char" where
  "ascii_upper c =
     (if CHR ''a'' \<le> c \<and> c \<le> CHR ''z'' then char_of (of_char c - (32 :: nat)) else c)"

definition normalize_name :: "string \<Rightarrow> string" where
  "normalize_name name = map ascii_upper (filter is_ascii_alphanumeric name)"

definition name_table :: "(string \<times> error_code) list" where
  "name_table =
    [(''BADREQUEST'', BAD_REQUEST),
     (''UNAUTHORIZED'', UNAUTHORIZED),
     (''PAYMENTREQUIRED'', PAYMENT_REQUIRED),
     (''FORBIDDEN'', FORBIDDEN),
     (''NOTFOUND'', NOT_FOUND),
     (''METHODNOTALLOWED'', METHOD_NOT_ALLOWED),
     (''NOTACCEPTABLE'', NOT_ACCEPTABLE),
     (''PROXYAUTHENTICATIONREQUIRED'', PROXY_AUTHENTICATION_REQUIRED),
     (''REQUESTTIMEOUT'', REQUEST_TIMEOUT),
     (''CONFLICT'', CONFLICT),
     (''GONE'', GONE),
     (''LENGTHREQUIRED'', LENGTH_REQUIRED),
     (''PRECONDITIONFAILED'', PRECONDITION_FAILED),
     (''PAYLOADTOOLARGE'', PAYLOAD_TOO_LARGE),
     (''URITOOLONG'', URI_TOO_LONG),
     (''UNSUPPORTEDMEDIATYPE'', UNSUPPORTED_MEDIA_TYPE),
     (''RANGENOTSATISFIABLE'', RANGE_NOT_SATISFIABLE),
     (''EXPECTATIONFAILED'', EXPECTATION_FAILED),
     (''IMATEAPOT'', IM_A_TEAPOT),
     (''MISDIRECTEDREQUEST'', MISDIRECTED_REQUEST),
     (''UNPROCESSABLEENTITY'', UNPROCESSABLE_ENTITY),
     (''LOCKED'', LOCKED),
     (''FAILEDDEPENDENCY'', FAILED_DEPENDENCY),
     (''UPGRADEREQUIRED'', UPGRADE_REQUIRED),
     (''PRECONDITIONREQUIRED'', PRECONDITION_REQUIRED),
     (''TOOMANYREQUESTS'', TOO_MANY_REQUESTS),
     (''REQUESTHEADERFIELDSTOOLARGE'', REQUEST_HEADER_FIELDS_TOO_LARGE),
     (''UNAVAILABLEFORLEGALREASONS'', UNAVAILABLE_FOR_LEGAL_REASONS),
     (''INTERNALERROR'', INTERNAL_ERROR),
     (''NOTIMPLEMENTED'', NOT_IMPLEMENTED),
     (''BADGATEWAY'', BAD_GATEWAY),
     (''SERVICEUNAVAILABLE'', SERVICE_UNAVAILABLE),
     (''GATEWAYTIMEOUT'', GATEWAY_TIMEOUT),
     (''HTTPVERSIONNOTSUPPORTED'', HTTP_VERSION_NOT_SUPPORTED),
     (''VARIANTALSONEGOTIATES'', VARIANT_ALSO_NEGOTIATES),
     (''INSUFFICIENTSTORAGE'', INSUFFICIENT_STORAGE),
     (''LOOPDETECTED'', LOOP_DETECTED),
     (''NOTEXTENDED'', NOT_EXTENDED),
     (''NETWORKAUTHENTICATIONREQUIRED'', NETWORK_AUTHENTICATION_REQUIRED)]"

definition from_name :: "string \<Rightarrow> error_code option" where
  "from_name name = map_of name_table (normalize_name name)"

datatype parse_error_code_error = ParseErrorCodeError

text \<open>\<open>FromStr\<close>: a name first, then a decimal \<open>u32\<close>.\<close>

definition error_code_from_str :: "string \<Rightarrow> (error_code, parse_error_code_error) result" where
  "error_code_from_str value =
     (case from_name value of
        Some code \<Rightarrow> Ok code
      | None \<Rightarrow>
          (case parse_unsigned (2 ^ 32 - 1) value of
             Some n \<Rightarrow> Ok (ErrorCode (word_of_nat n))
           | None \<Rightarrow> Err ParseErrorCodeError))"

section \<open>Lemmas\<close>

lemma ascii_upper_simps [simp]:
  "is_digit c \<Longrightarrow> ascii_upper c = c"
  by (auto simp: is_digit_def ascii_upper_def less_eq_char_def)

lemma digit_alphanumeric [simp]: "is_digit c \<Longrightarrow> is_ascii_alphanumeric c"
  by (simp add: is_ascii_alphanumeric_def)

lemma normalize_digits: "\<forall>c \<in> set s. is_digit c \<Longrightarrow> normalize_name s = s"
  by (induction s) (auto simp: normalize_name_def)

lemma name_table_letters: "list_all (\<lambda>(k, _). k \<noteq> [] \<and> \<not> is_digit (hd k)) name_table"
  by (simp add: name_table_def is_digit_def less_eq_char_def)

lemma from_name_digits: "s \<noteq> [] \<Longrightarrow> \<forall>c \<in> set s. is_digit c \<Longrightarrow> from_name s = None"
proof -
  assume s: "s \<noteq> []" "\<forall>c \<in> set s. is_digit c"
  have "s \<noteq> fst p" if "p \<in> set name_table" for p
    using bspec [OF name_table_letters [unfolded list_all_iff] that] s hd_in_set [of s]
    by (cases p) auto
  then have "s \<notin> fst ` set name_table" by auto
  with s show ?thesis by (simp add: from_name_def normalize_digits map_of_eq_None_iff)
qed

lemma kind_names_normalized: "map (normalize_name \<circ> snd) kind_table = map fst name_table"
  by (simp add: kind_table_def name_table_def normalize_name_def is_ascii_alphanumeric_def
      ascii_upper_def is_digit_def less_eq_char_def char_of_eq_iff)

lemma kind_codes_named: "map (ErrorCode \<circ> fst) kind_table = map snd name_table"
  by (simp add: kind_table_def name_table_def error_code_consts)

lemma name_table_distinct: "distinct (map fst name_table)"
  by (simp add: name_table_def)

lemma kind_table_names: "(c, k) \<in> set kind_table \<Longrightarrow> from_name k = Some (ErrorCode c)"
proof -
  assume "(c, k) \<in> set kind_table"
  then obtain i where i: "i < length kind_table" "kind_table ! i = (c, k)"
    by (auto simp: in_set_conv_nth)
  have len: "length kind_table = length name_table"
    using arg_cong [OF kind_codes_named, of length] by simp
  have "normalize_name k = fst (name_table ! i)"
    using arg_cong [OF kind_names_normalized, of "\<lambda>xs. xs ! i"] i len by simp
  moreover have "ErrorCode c = snd (name_table ! i)"
    using arg_cong [OF kind_codes_named, of "\<lambda>xs. xs ! i"] i len by simp
  ultimately have "(normalize_name k, ErrorCode c) \<in> set name_table"
    using i len by (metis nth_mem prod.collapse)
  then show ?thesis
    using name_table_distinct by (simp add: from_name_def map_of_is_SomeI)
qed

lemma kind_table_distinct: "distinct (map fst kind_table)"
  by code_simp

lemma custom_error_no_name: "from_name ''CustomError'' = None"
  by code_simp

lemma kind_of_table: "(c, k) \<in> set kind_table \<Longrightarrow> kind (ErrorCode c) = k"
  using kind_table_distinct by (simp add: kind_def map_of_is_SomeI)

section \<open>Properties\<close>

text \<open>
  Error codes survive their two textual forms. Every \<open>u32\<close> code is recovered by \<open>from_str\<close> from
  its decimal form, whether it is a standard code or not; the name of a code names the same code
  exactly when the code is standard, and parsing a name ignores case and punctuation.
\<close>
theorem error_code_round_trip:
  "error_code_from_str (show_nat (unat (to_u32 c))) = Ok c
   \<and> (to_u32 c \<in> fst ` set kind_table \<longrightarrow> from_name (kind c) = Some c)
   \<and> (to_u32 c \<notin> fst ` set kind_table \<longrightarrow> kind c = ''CustomError'' \<and> from_name (kind c) = None)
   \<and> (normalize_name s = normalize_name t \<longrightarrow> from_name s = from_name t)"
proof (intro conjI impI)
  have "unat (to_u32 c) \<le> 2 ^ 32 - 1"
    using unsigned_less [of "to_u32 c", where ?'a = nat] by simp
  then show "error_code_from_str (show_nat (unat (to_u32 c))) = Ok c"
    using from_name_digits [of "show_nat (unat (to_u32 c))"] show_nat_digits
    by (cases c) (simp add: error_code_from_str_def parse_unsigned_show_nat)
next
  assume "to_u32 c \<in> fst ` set kind_table"
  then obtain k where k: "(to_u32 c, k) \<in> set kind_table" by auto
  then have "from_name k = Some (ErrorCode (to_u32 c))"
    by (rule kind_table_names)
  with kind_of_table [OF k] show "from_name (kind c) = Some c" by simp
next
  assume "to_u32 c \<notin> fst ` set kind_table"
  then show "kind c = ''CustomError''" and "from_name (kind c) = None"
    by (simp_all add: kind_def map_of_eq_None_iff [THEN iffD2] custom_error_no_name)
next
  assume "normalize_name s = normalize_name t"
  then show "from_name s = from_name t" by (simp add: from_name_def)
qed

theorem error_code_round_trip_witness:
  "to_u32 BAD_REQUEST \<in> fst ` set kind_table \<and> from_name (kind BAD_REQUEST) = Some BAD_REQUEST
   \<and> from_name ''bad_request'' = from_name ''Bad-Request''"
proof -
  have "to_u32 BAD_REQUEST \<in> fst ` set kind_table"
    and "normalize_name ''bad_request'' = normalize_name ''Bad-Request''"
    by code_simp+
  with error_code_round_trip [of BAD_REQUEST "''bad_request''" "''Bad-Request''"] show ?thesis
    by blast
qed

end
