(* ===== verification/Api_Types.thy ===== *)
theory Api_Types
  imports Json Error_Code
begin

text \<open>
  The schema model of \<open>src/model/types.rs\<close>, \<open>src/model/endpoint.rs\<close>, \<open>src/model/service.rs\<close> and
  \<open>src/model/pg_func.rs\<close>: fields, types, endpoints and the textual form of an endpoint's error
  code. The case conversions come from the \<open>convert_case\<close> crate and are an argument, the record
  \<open>casing\<close>.
\<close>

section \<open>Types and fields\<close>

record casing =
  to_camel :: "string \<Rightarrow> string"
  to_pascal :: "string \<Rightarrow> string"
  to_snake :: "string \<Rightarrow> string"

type_synonym meta_map = "json btree"

definition meta_is_empty :: "meta_map \<Rightarrow> bool" where
  "meta_is_empty m \<longleftrightarrow> m = []"

definition meta_get :: "meta_map \<Rightarrow> string \<Rightarrow> json option" where
  "meta_get = obj_get"

definition meta_insert :: "meta_map \<Rightarrow> string \<Rightarrow> json \<Rightarrow> meta_map" where
  "meta_insert m k v = obj_insert k v m"

text \<open>
  \<open>Ord\<close> and \<open>Hash\<close> of a meta map go through the canonical text of its values; \<open>render\<close> is the
  printer of \<open>serde_json\<close>.
\<close>

definition meta_keyed :: "(json \<Rightarrow> string) \<Rightarrow> meta_map \<Rightarrow> (string \<times> string) list" where
  "meta_keyed render m = map (\<lambda>(k, v). (k, render v)) m"

record enum_variant =
  ev_name :: string
  ev_description :: string
  ev_value :: int

definition enum_variant_new :: "string \<Rightarrow> int \<Rightarrow> enum_variant" where
  "enum_variant_new n v = \<lparr>ev_name = n, ev_description = [], ev_value = v\<rparr>"

definition enum_variant_new_with_description :: "string \<Rightarrow> string \<Rightarrow> int \<Rightarrow> enum_variant" where
  "enum_variant_new_with_description n d v = \<lparr>ev_name = n, ev_description = d, ev_value = v\<rparr>"

datatype ty =
    UInt32
  | Int32
  | Int64
  | Float64
  | Boolean
  | TString
  | Bytea
  | UUID
  | NanoId nat
  | IpAddr
  | Struct string "field list"
  | StructRef string
  | Object
  | StructTable string
  | Vec ty
  | TUnit
  | Optional ty
  | Enum string "enum_variant list"
  | EnumRef string bool
  | TimeStampMs
  | BlockchainDecimal
  | BlockchainAddress
  | BlockchainTransactionHash
and field = Field (fl_name: string) (fl_description: string) (fl_ty: ty) (fl_meta: meta_map)

definition field_new :: "string \<Rightarrow> ty \<Rightarrow> field" where
  "field_new n t = Field n [] t []"

definition field_new_with_description :: "string \<Rightarrow> string \<Rightarrow> ty \<Rightarrow> field" where
  "field_new_with_description n d t = Field n d t []"

definition field_with_meta :: "field \<Rightarrow> meta_map \<Rightarrow> field" where
  "field_with_meta f m = Field (fl_name f) (fl_description f) (fl_ty f) m"

text \<open>The constructor functions of \<open>Type\<close>.\<close>

definition ty_struct :: "string \<Rightarrow> field list \<Rightarrow> ty" where
  "ty_struct n fs = Struct n fs"

definition ty_struct_ref :: "string \<Rightarrow> ty" where
  "ty_struct_ref n = StructRef n"

definition ty_struct_table :: "string \<Rightarrow> ty" where
  "ty_struct_table r = StructTable r"

definition ty_vec :: "ty \<Rightarrow> ty" where
  "ty_vec t = Vec t"

definition ty_optional :: "ty \<Rightarrow> ty" where
  "ty_optional t = Optional t"

definition ty_enum :: "string \<Rightarrow> enum_variant list \<Rightarrow> ty" where
  "ty_enum n vs = Enum n vs"

definition enum_ref :: "string \<Rightarrow> bool \<Rightarrow> ty" where
  "enum_ref n prefixed = EnumRef n prefixed"

fun try_unwrap :: "ty \<Rightarrow> ty option" where
  "try_unwrap (Vec v) = Some v"
| "try_unwrap (StructTable _) = None"
| "try_unwrap t = Some t"

fun is_optional :: "ty \<Rightarrow> bool" where
  "is_optional (Optional _) = True"
| "is_optional _ = False"

section \<open>Endpoints\<close>

record endpoint_error_code_ref =
  ec_ty :: ty
  ec_variant :: string

record endpoint_error_schema =
  ee_name :: string
  ee_code :: endpoint_error_code_ref
  ee_message :: string
  ee_fields :: "field list"

record endpoint_schema =
  ep_name :: string
  ep_code :: u32
  ep_parameters :: "field list"
  ep_returns :: "field list"
  ep_stream_response :: "ty option"
  ep_description :: string
  ep_json_schema :: json
  ep_roles :: "string list"
  ep_errors :: "endpoint_error_schema list"
  ep_meta :: meta_map

definition endpoint_new :: "string \<Rightarrow> u32 \<Rightarrow> field list \<Rightarrow> field list \<Rightarrow> endpoint_schema" where
  "endpoint_new n c ps rs =
     \<lparr>ep_name = n, ep_code = c, ep_parameters = ps, ep_returns = rs, ep_stream_response = None,
      ep_description = [], ep_json_schema = JNull, ep_roles = [], ep_errors = [], ep_meta = []\<rparr>"

definition with_meta :: "endpoint_schema \<Rightarrow> meta_map \<Rightarrow> endpoint_schema" where
  "with_meta e m = e\<lparr>ep_meta := m\<rparr>"

definition with_stream_response_type :: "endpoint_schema \<Rightarrow> ty \<Rightarrow> endpoint_schema" where
  "with_stream_response_type e t = e\<lparr>ep_stream_response := Some t\<rparr>"

definition with_description :: "endpoint_schema \<Rightarrow> string \<Rightarrow> endpoint_schema" where
  "with_description e d = e\<lparr>ep_description := d\<rparr>"

definition with_roles :: "endpoint_schema \<Rightarrow> string list \<Rightarrow> endpoint_schema" where
  "with_roles e rs = e\<lparr>ep_roles := rs\<rparr>"

definition with_errors :: "endpoint_schema \<Rightarrow> endpoint_error_schema list \<Rightarrow> endpoint_schema" where
  "with_errors e es = e\<lparr>ep_errors := es\<rparr>"

definition error_schema_new :: "string \<Rightarrow> endpoint_error_code_ref \<Rightarrow> endpoint_error_schema" where
  "error_schema_new n c = \<lparr>ee_name = n, ee_code = c, ee_message = [], ee_fields = []\<rparr>"

definition error_with_message :: "endpoint_error_schema \<Rightarrow> string \<Rightarrow> endpoint_error_schema" where
  "error_with_message e m = e\<lparr>ee_message := m\<rparr>"

definition error_with_fields :: "endpoint_error_schema \<Rightarrow> field list \<Rightarrow> endpoint_error_schema" where
  "error_with_fields e fs = e\<lparr>ee_fields := fs\<rparr>"

record service =
  sv_name :: string
  sv_id :: u16
  sv_endpoints :: "endpoint_schema list"

definition service_new :: "string \<Rightarrow> u16 \<Rightarrow> endpoint_schema list \<Rightarrow> service" where
  "service_new n i es = \<lparr>sv_name = n, sv_id = i, sv_endpoints = es\<rparr>"

section \<open>Error code references\<close>

definition ENUM_NAME :: string where "ENUM_NAME = ''ErrorCode''"

definition code_ref_new :: "string \<Rightarrow> endpoint_error_code_ref" where
  "code_ref_new v = \<lparr>ec_ty = enum_ref ENUM_NAME True, ec_variant = v\<rparr>"

definition path :: "endpoint_error_code_ref \<Rightarrow> string" where
  "path r = ENUM_NAME @ ''::'' @ ec_variant r"

fun validate_ty :: "ty \<Rightarrow> (ty, string) result" where
  "validate_ty (EnumRef n p) =
     (if n = ENUM_NAME then Ok (EnumRef n p)
      else Err (''expected '' @ ENUM_NAME @ '' enum ref, got '' @ n))"
| "validate_ty _ = Err (''expected '' @ ENUM_NAME @ '' enum ref'')"

definition parse_path :: "string \<Rightarrow> (endpoint_error_code_ref, string) result" where
  "parse_path p =
     (case split_once p ''::'' of
        None \<Rightarrow> Err (''expected '' @ ENUM_NAME @ ''::Variant'')
      | Some (enum_name, variant) \<Rightarrow>
          if enum_name \<noteq> ENUM_NAME
          then Err (''expected '' @ ENUM_NAME @ '' enum path, got '' @ enum_name)
          else if variant = [] \<or> str_contains variant ''::''
          then Err (''expected '' @ ENUM_NAME @ ''::Variant'')
          else Ok (code_ref_new variant))"

text \<open>The two forms \<open>Deserialize\<close> accepts: the path, and the structure \<open>Serialize\<close> writes.\<close>

datatype code_ref_repr = PathRepr string | StructuredRepr ty string

fun deserialize_code_ref :: "code_ref_repr \<Rightarrow> (endpoint_error_code_ref, string) result" where
  "deserialize_code_ref (PathRepr p) = parse_path p"
| "deserialize_code_ref (StructuredRepr t v) =
     result_map (\<lambda>t. \<lparr>ec_ty = t, ec_variant = v\<rparr>) (validate_ty t)"

text \<open>
  A type as it reads back after it was written: \<open>prefixed_name\<close> is skipped by the derived
  serialisation and defaults to false.
\<close>

fun written_ty :: "ty \<Rightarrow> ty" and written_field :: "field \<Rightarrow> field" where
  "written_ty (Struct n fs) = Struct n (map written_field fs)"
| "written_ty (Vec t) = Vec (written_ty t)"
| "written_ty (Optional t) = Optional (written_ty t)"
| "written_ty (EnumRef n _) = EnumRef n False"
| "written_ty t = t"
| "written_field (Field n d t m) = Field n d (written_ty t) m"

definition serialize_code_ref :: "endpoint_error_code_ref \<Rightarrow> code_ref_repr" where
  "serialize_code_ref r = StructuredRepr (written_ty (ec_ty r)) (ec_variant r)"

definition plain_variant :: "string \<Rightarrow> bool" where
  "plain_variant v \<longleftrightarrow> v \<noteq> [] \<and> \<not> str_contains v ''::''"

lemma validate_ty_Ok: "validate_ty t = Ok t' \<longleftrightarrow> t' = t \<and> (\<exists>p. t = EnumRef ENUM_NAME p)"
  by (cases t rule: validate_ty.cases) auto

lemma parse_path_path: "plain_variant v \<Longrightarrow> parse_path (path (code_ref_new v)) = Ok (code_ref_new v)"
  using split_once_first [of "''::''" ENUM_NAME v]
  by (simp add: parse_path_def path_def code_ref_new_def plain_variant_def ENUM_NAME_def)

lemma parse_path_Ok:
  assumes "parse_path p = Ok r"
  shows "path r = p \<and> plain_variant (ec_variant r) \<and> r = code_ref_new (ec_variant r)"
  using assms split_once_Some [of p "''::''"]
  by (auto simp: parse_path_def plain_variant_def code_ref_new_def path_def
      split: option.splits prod.splits if_splits)

lemma written_ty_EnumRef: "written_ty t = EnumRef n b \<longleftrightarrow> (\<exists>c. t = EnumRef n c) \<and> \<not> b"
  by (cases t) auto

text \<open>
  The textual form of an endpoint's error code is parsed back exactly: a path is accepted if
  and only if it is the path of a reference with a plain variant name, and the result is that
  reference. What \<open>Serialize\<close> writes is accepted exactly for references to the \<open>ErrorCode\<close> enum,
  and keeps the variant but not the prefix flag, which is never written.
\<close>
theorem error_code_path_round_trip:
  "(parse_path p = Ok r \<longleftrightarrow> (\<exists>v. plain_variant v \<and> p = path r \<and> r = code_ref_new v)) \<and>
   (deserialize_code_ref (serialize_code_ref r) = Ok r' \<longleftrightarrow>
      (\<exists>b. ec_ty r = EnumRef ENUM_NAME b) \<and> r' = r\<lparr>ec_ty := EnumRef ENUM_NAME False\<rparr>)"
proof
  show "parse_path p = Ok r \<longleftrightarrow> (\<exists>v. plain_variant v \<and> p = path r \<and> r = code_ref_new v)"
    using parse_path_Ok [of p r] parse_path_path by auto
  show "deserialize_code_ref (serialize_code_ref r) = Ok r' \<longleftrightarrow>
      (\<exists>b. ec_ty r = EnumRef ENUM_NAME b) \<and> r' = r\<lparr>ec_ty := EnumRef ENUM_NAME False\<rparr>"
    by (cases r) (auto simp: serialize_code_ref_def validate_ty_Ok written_ty_EnumRef)
qed

section \<open>Stored procedures\<close>

record procedural_function =
  pf_name :: string
  pf_parameters :: "field list"
  pf_return_row_type :: ty
  pf_body :: string

text \<open>\<open>sorted_by_cached_key\<close> is a stable sort, and \<open>false\<close> comes before \<open>true\<close>.\<close>

definition sort_parameters :: "field list \<Rightarrow> field list" where
  "sort_parameters ps = sort_key (\<lambda>f. is_optional (fl_ty f)) ps"

definition procedural_function_new ::
  "casing \<Rightarrow> string \<Rightarrow> field list \<Rightarrow> field list \<Rightarrow> string \<Rightarrow> procedural_function" where
  "procedural_function_new cc n ps rs b =
     \<lparr>pf_name = n, pf_parameters = sort_parameters ps,
      pf_return_row_type = Struct (to_pascal cc n @ ''RespRow'') rs, pf_body = b\<rparr>"

definition new_with_row_type :: "string \<Rightarrow> field list \<Rightarrow> ty \<Rightarrow> string \<Rightarrow> procedural_function" where
  "new_with_row_type n ps t b =
     \<lparr>pf_name = n, pf_parameters = sort_parameters ps, pf_return_row_type = t, pf_body = b\<rparr>"

lemma insort_key_bool:
  "\<forall>a \<in> set as. \<not> f a \<Longrightarrow> \<forall>b \<in> set bs. f b \<Longrightarrow>
     insort_key f x (as @ bs) = (if f x then as @ x # bs else x # as @ bs)"
  by (induction as) (cases bs, auto)

lemma sort_parameters_conv:
  "sort_parameters ps =
     filter (\<lambda>f. \<not> is_optional (fl_ty f)) ps @ filter (\<lambda>f. is_optional (fl_ty f)) ps"
  unfolding sort_parameters_def
  by (induction ps) (auto simp: insort_key_bool)

end
