(* ===== verification/Json_Schema.thy ===== *)
theory Json_Schema
  imports Api_Types
begin

text \<open>
  The conversion of types to JSON Schema, \<open>src/model/json_schema.rs\<close>, and \<open>collect_refs\<close> of
  \<open>src/model/api_document.rs\<close>. \<open>to_json_schema\<close> follows references through the registry, so its
  recursion is not structural: it carries fuel, running out is the error \<open>OutOfFuel\<close>, and
  \<open>schema_fuel\<close> is an amount that is always enough.
\<close>

section \<open>The registry\<close>

record type_registry =
  structs :: "ty btree"
  enums :: "ty btree"

definition registry_new :: type_registry where
  "registry_new = \<lparr>structs = [], enums = []\<rparr>"

fun add_type :: "ty \<Rightarrow> type_registry \<Rightarrow> type_registry"
  and add_fields :: "field list \<Rightarrow> type_registry \<Rightarrow> type_registry" where
  "add_type (Struct n fs) r =
     add_fields fs (r\<lparr>structs := obj_insert n (Struct n fs) (structs r)\<rparr>)"
| "add_type (Enum n vs) r = r\<lparr>enums := obj_insert n (Enum n vs) (enums r)\<rparr>"
| "add_type (Vec t) r = add_type t r"
| "add_type (Optional t) r = add_type t r"
| "add_type _ r = r"
| "add_fields [] r = r"
| "add_fields (Field _ _ t _ # fs) r = add_fields fs (add_type t r)"

definition add_all :: "ty list \<Rightarrow> type_registry \<Rightarrow> type_registry" where
  "add_all ts r = fold add_type ts r"

definition add_endpoint :: "endpoint_schema \<Rightarrow> type_registry \<Rightarrow> type_registry" where
  "add_endpoint e r =
     (let r = add_all (map fl_ty (ep_parameters e)) r;
          r = add_all (map fl_ty (ep_returns e)) r in
      case ep_stream_response e of Some t \<Rightarrow> add_type t r | None \<Rightarrow> r)"

definition get_struct :: "type_registry \<Rightarrow> string \<Rightarrow> ty option" where
  "get_struct r n = obj_get (structs r) n"

definition get_enum :: "type_registry \<Rightarrow> string \<Rightarrow> ty option" where
  "get_enum r n = obj_get (enums r) n"

section \<open>Conversion\<close>

type_synonym defs = "json btree"

datatype schema_error = Bail string | OutOfFuel

definition struct_def_name :: "casing \<Rightarrow> string \<Rightarrow> string" where
  "struct_def_name cc n = to_pascal cc n"

definition enum_def_name :: "casing \<Rightarrow> string \<Rightarrow> bool \<Rightarrow> string" where
  "enum_def_name cc n prefixed = (if prefixed then ''Enum'' @ to_pascal cc n else to_pascal cc n)"

definition DEFS_PREFIX :: string where "DEFS_PREFIX = ''#/$defs/''"

definition ref_to :: "string \<Rightarrow> json" where
  "ref_to d = jobj [(''$ref'', JStr (DEFS_PREFIX @ d))]"

definition enum_entry :: "enum_variant \<Rightarrow> json" where
  "enum_entry v =
     jobj ([(''const'', JInt (ev_value v)), (''title'', JStr (ev_name v))] @
           (if ev_description v = [] then [] else [(''description'', JStr (ev_description v))]))"

definition enum_to_schema :: "string \<Rightarrow> enum_variant list \<Rightarrow> json" where
  "enum_to_schema n vs =
     jobj [(''type'', JStr ''integer''), (''title'', JStr n), (''oneOf'', JArr (map enum_entry vs))]"

text \<open>\<open>map.entry("description").or_insert_with(..)\<close> on an object schema.\<close>

fun describe :: "string \<Rightarrow> json \<Rightarrow> json" where
  "describe d (JObj m) =
     (if d = [] \<or> obj_get m ''description'' \<noteq> None then JObj m
      else JObj (obj_insert ''description'' (JStr d) m))"
| "describe d j = j"

fun unwrap_optional :: "ty \<Rightarrow> ty" where
  "unwrap_optional (Optional t) = t"
| "unwrap_optional t = t"

text \<open>The loop over the fields, with the conversion of a field's type as an argument.\<close>

primrec fields_loop ::
  "casing \<Rightarrow> (ty \<Rightarrow> defs \<Rightarrow> (json \<times> defs, schema_error) result) \<Rightarrow> field list
    \<Rightarrow> json btree \<Rightarrow> json list \<Rightarrow> defs \<Rightarrow> (json btree \<times> json list \<times> defs, schema_error) result" where
  "fields_loop cc conv [] ps rq ds = Ok (ps, rq, ds)"
| "fields_loop cc conv (f # fs) ps rq ds =
     (let key = to_camel cc (fl_name f) in
      case conv (unwrap_optional (fl_ty f)) ds of
        Err e \<Rightarrow> Err e
      | Ok (schema, ds') \<Rightarrow>
          fields_loop cc conv fs (obj_insert key (describe (fl_description f) schema) ps)
            (if is_optional (fl_ty f) then rq else rq @ [JStr key]) ds')"

definition object_schema :: "json btree \<Rightarrow> json list \<Rightarrow> json" where
  "object_schema ps rq =
     jobj [(''type'', JStr ''object''), (''properties'', JObj ps), (''required'', JArr rq),
           (''additionalProperties'', JBool False)]"

definition fields_with ::
  "casing \<Rightarrow> (ty \<Rightarrow> defs \<Rightarrow> (json \<times> defs, schema_error) result) \<Rightarrow> field list \<Rightarrow> defs
    \<Rightarrow> (json \<times> defs, schema_error) result" where
  "fields_with cc conv fs ds =
     result_map (\<lambda>(ps, rq, ds'). (object_schema ps rq, ds')) (fields_loop cc conv fs [] [] ds)"

fun leaf_schema :: "ty \<Rightarrow> json" where
  "leaf_schema UInt32 =
     jobj [(''type'', JStr ''integer''), (''minimum'', JInt 0), (''maximum'', JInt 4294967295)]"
| "leaf_schema Int32 =
     jobj [(''type'', JStr ''integer''), (''minimum'', JInt (- 2147483648)),
           (''maximum'', JInt 2147483647)]"
| "leaf_schema Int64 = jobj [(''type'', JStr ''integer'')]"
| "leaf_schema TimeStampMs =
     jobj [(''type'', JStr ''integer''), (''description'', JStr ''Unix timestamp in milliseconds'')]"
| "leaf_schema Float64 = jobj [(''type'', JStr ''number'')]"
| "leaf_schema Boolean = jobj [(''type'', JStr ''boolean'')]"
| "leaf_schema TString = jobj [(''type'', JStr ''string'')]"
| "leaf_schema Bytea = jobj [(''type'', JStr ''string''), (''contentEncoding'', JStr ''base64'')]"
| "leaf_schema UUID = jobj [(''type'', JStr ''string''), (''format'', JStr ''uuid'')]"
| "leaf_schema (NanoId len) =
     jobj [(''type'', JStr ''string''), (''minLength'', JInt (int len)), (''maxLength'', JInt (int len)),
           (''pattern'', JStr ''^[0-9A-Za-z]+$'')]"
| "leaf_schema IpAddr =
     jobj [(''type'', JStr ''string''), (''description'', JStr ''IPv4 or IPv6 address'')]"
| "leaf_schema Object = jobj [(''type'', JStr ''object'')]"
| "leaf_schema TUnit = jobj [(''type'', JStr ''null'')]"
| "leaf_schema BlockchainDecimal =
     jobj [(''type'', JStr ''string''), (''description'', JStr ''Decimal number as string'')]"
| "leaf_schema BlockchainAddress =
     jobj [(''type'', JStr ''string''), (''pattern'', JStr ''^0x[0-9a-fA-F]{40}$'')]"
| "leaf_schema BlockchainTransactionHash =
     jobj [(''type'', JStr ''string''), (''pattern'', JStr ''^0x[0-9a-fA-F]{64}$'')]"
| "leaf_schema _ = JNull"

definition array_of :: "json \<Rightarrow> json" where
  "array_of items = jobj [(''type'', JStr ''array''), (''items'', items)]"

primrec to_json_schema ::
  "casing \<Rightarrow> type_registry \<Rightarrow> nat \<Rightarrow> ty \<Rightarrow> defs \<Rightarrow> (json \<times> defs, schema_error) result" where
  "to_json_schema cc reg 0 t ds = Err OutOfFuel"
| "to_json_schema cc reg (Suc n) t ds =
     (case t of
        Vec inner \<Rightarrow>
          result_map (\<lambda>(j, ds'). (array_of j, ds')) (to_json_schema cc reg n inner ds)
      | Optional inner \<Rightarrow>
          result_map (\<lambda>(j, ds'). (jobj [(''anyOf'', JArr [j, jobj [(''type'', JStr ''null'')]])], ds'))
            (to_json_schema cc reg n inner ds)
      | Struct name fs \<Rightarrow>
          (let def_name = struct_def_name cc name in
           if obj_get ds def_name \<noteq> None then Ok (ref_to def_name, ds)
           else result_map (\<lambda>(schema, ds'). (ref_to def_name, obj_insert def_name schema ds'))
                  (fields_with cc (to_json_schema cc reg n) fs (obj_insert def_name JNull ds)))
      | StructRef name \<Rightarrow>
          (case get_struct reg name of
             None \<Rightarrow> Err (Bail (''unresolved StructRef: '' @ name @ '' (not present in TypeRegistry)''))
           | Some t' \<Rightarrow> to_json_schema cc reg n t' ds)
      | StructTable name \<Rightarrow>
          (case get_struct reg name of
             None \<Rightarrow>
               Err (Bail (''unresolved StructTable ref: '' @ name @ '' (not present in TypeRegistry)''))
           | Some t' \<Rightarrow> result_map (\<lambda>(j, ds'). (array_of j, ds')) (to_json_schema cc reg n t' ds))
      | Enum name variants \<Rightarrow>
          (let def_name = enum_def_name cc name False in
           Ok (ref_to def_name,
               if obj_get ds def_name \<noteq> None then ds
               else obj_insert def_name (enum_to_schema def_name variants) ds))
      | EnumRef name prefixed \<Rightarrow>
          (case get_enum reg name of
             Some (Enum _ variants) \<Rightarrow>
               (let def_name = enum_def_name cc name prefixed in
                Ok (ref_to def_name,
                    if obj_get ds def_name \<noteq> None then ds
                    else obj_insert def_name (enum_to_schema def_name variants) ds))
           | _ \<Rightarrow> Err (Bail (''unresolved EnumRef: '' @ name @ '' (not present in TypeRegistry)'')))
      | _ \<Rightarrow> Ok (leaf_schema t, ds))"

definition fields_to_object_schema ::
  "casing \<Rightarrow> type_registry \<Rightarrow> nat \<Rightarrow> field list \<Rightarrow> defs \<Rightarrow> (json \<times> defs, schema_error) result" where
  "fields_to_object_schema cc reg n = fields_with cc (to_json_schema cc reg n)"

fun attach_defs :: "json \<Rightarrow> defs \<Rightarrow> json" where
  "attach_defs (JObj m) ds = (if ds = [] then JObj m else JObj (obj_insert ''$defs'' (JObj ds) m))"
| "attach_defs j ds = j"

definition tool_name :: "casing \<Rightarrow> endpoint_schema \<Rightarrow> string" where
  "tool_name cc e = to_snake cc (ep_name e)"

definition to_mcp_input_schema ::
  "casing \<Rightarrow> type_registry \<Rightarrow> nat \<Rightarrow> endpoint_schema \<Rightarrow> (json, schema_error) result" where
  "to_mcp_input_schema cc reg n e =
     result_map (\<lambda>(root, ds). attach_defs root ds) (fields_to_object_schema cc reg n (ep_parameters e) [])"

definition to_mcp_output_schema ::
  "casing \<Rightarrow> type_registry \<Rightarrow> nat \<Rightarrow> endpoint_schema \<Rightarrow> (json, schema_error) result" where
  "to_mcp_output_schema cc reg n e =
     result_map (\<lambda>(root, ds). attach_defs root ds) (fields_to_object_schema cc reg n (ep_returns e) [])"

section \<open>References in a schema\<close>

function (sequential) collect_refs :: "json \<Rightarrow> string list"
  and collect_refs_obj :: "(string \<times> json) list \<Rightarrow> string list"
  and collect_refs_arr :: "json list \<Rightarrow> string list" where
  "collect_refs (JObj m) =
     (case obj_get m ''$ref'' of Some (JStr target) \<Rightarrow> [target] | _ \<Rightarrow> []) @ collect_refs_obj m"
| "collect_refs (JArr xs) = collect_refs_arr xs"
| "collect_refs _ = []"
| "collect_refs_obj [] = []"
| "collect_refs_obj ((k, v) # m) = collect_refs v @ collect_refs_obj m"
| "collect_refs_arr [] = []"
| "collect_refs_arr (x # xs) = collect_refs x @ collect_refs_arr xs"
  by pat_completeness auto
termination
  by (relation "measure (\<lambda>x. case x of
        Inl j \<Rightarrow> size j
      | Inr (Inl m) \<Rightarrow> size_list (size_prod (\<lambda>_. 0) size) m
      | Inr (Inr xs) \<Rightarrow> size_list size xs)") auto

lemma set_collect_refs_obj:
  "set (collect_refs_obj m) = (\<Union>(k, v) \<in> set m. set (collect_refs v))"
  by (induction m) auto

lemma set_collect_refs_arr: "set (collect_refs_arr xs) = (\<Union>x \<in> set xs. set (collect_refs x))"
  by (induction xs) auto

definition refs_in :: "string set \<Rightarrow> json \<Rightarrow> bool" where
  "refs_in D j \<longleftrightarrow> set (collect_refs j) \<subseteq> (\<lambda>d. DEFS_PREFIX @ d) ` D"

fun is_jobj :: "json \<Rightarrow> bool" where
  "is_jobj (JObj _) = True"
| "is_jobj _ = False"

definition sound_schema :: "string set \<Rightarrow> json \<Rightarrow> bool" where
  "sound_schema D j \<longleftrightarrow> is_jobj j \<and> refs_in D j"

lemma refs_in_mono: "refs_in D j \<Longrightarrow> D \<subseteq> D' \<Longrightarrow> refs_in D' j"
  by (auto simp: refs_in_def)

lemma sound_schema_mono: "sound_schema D j \<Longrightarrow> D \<subseteq> D' \<Longrightarrow> sound_schema D' j"
  by (auto simp: sound_schema_def intro: refs_in_mono)

lemma refs_in_atom [simp]:
  "refs_in D JNull" "refs_in D (JBool b)" "refs_in D (JInt i)" "refs_in D (JFloat x)"
  "refs_in D (JStr s)"
  by (simp_all add: refs_in_def)

lemma refs_in_arr [simp]: "refs_in D (JArr xs) \<longleftrightarrow> (\<forall>x \<in> set xs. refs_in D x)"
  by (auto simp: refs_in_def set_collect_refs_arr)

lemma refs_in_obj:
  assumes "\<And>k v. (k, v) \<in> set m \<Longrightarrow> refs_in D v" and "\<And>s. obj_get m ''$ref'' \<noteq> Some (JStr s)"
  shows "refs_in D (JObj m)"
proof -
  have "(case obj_get m ''$ref'' of Some (JStr target) \<Rightarrow> [target] | _ \<Rightarrow> []) = []"
    using assms(2) by (auto split: option.splits json.splits)
  with assms(1) show ?thesis
    by (auto simp: refs_in_def set_collect_refs_obj)
qed

lemma set_obj_of: "set (obj_of kvs) \<subseteq> set kvs"
proof -
  have "set (fold (\<lambda>(k, v). obj_insert k v) kvs m) \<subseteq> set m \<union> set kvs" for m :: "'a btree"
  proof (induction kvs arbitrary: m)
    case (Cons p kvs)
    then show ?case
      using set_obj_insert [of "fst p" "snd p" m] by (cases p) fastforce
  qed simp
  from this [of "[]"] show ?thesis by (simp add: obj_of_def)
qed

lemma sound_jobj:
  assumes "\<forall>(k, v) \<in> set kvs. refs_in D v" and "''$ref'' \<notin> fst ` set kvs"
  shows "sound_schema D (jobj kvs)"
proof -
  have "obj_get (obj_of kvs) ''$ref'' = None"
    using assms(2) by (simp add: obj_get_of map_of_eq_None_iff)
  moreover have "refs_in D v" if "(k, v) \<in> set (obj_of kvs)" for k v
    using assms(1) set_obj_of [of kvs] that by auto
  ultimately show ?thesis
    by (simp add: sound_schema_def jobj_def refs_in_obj)
qed

lemma sound_ref_to: "d \<in> D \<Longrightarrow> sound_schema D (ref_to d)"
  by (simp add: ref_to_def sound_schema_def jobj_def obj_of_def refs_in_def obj_get_def)

lemma sound_describe: "sound_schema D j \<Longrightarrow> sound_schema D (describe d j)"
proof (cases j)
  case (JObj m)
  assume s: "sound_schema D j"
  show ?thesis
  proof (cases "d = [] \<or> obj_get m ''description'' \<noteq> None")
    case False
    have "set (collect_refs_obj (obj_insert ''description'' (JStr d) m)) \<subseteq> set (collect_refs_obj m)"
      using set_obj_insert [of "''description''" "JStr d" m] by (fastforce simp: set_collect_refs_obj)
    with s False JObj show ?thesis
      by (auto simp: sound_schema_def refs_in_def)
  qed (use s JObj in auto)
qed (auto simp: sound_schema_def)

lemma sound_enum_to_schema: "sound_schema D (enum_to_schema n vs)"
proof -
  have "refs_in D (enum_entry v)" for v
    using sound_jobj [of _ D] by (auto simp: enum_entry_def sound_schema_def)
  then show ?thesis
    unfolding enum_to_schema_def by (intro sound_jobj) auto
qed

lemma sound_array_of: "sound_schema D j \<Longrightarrow> sound_schema D (array_of j)"
  unfolding array_of_def by (intro sound_jobj) (auto simp: sound_schema_def)

lemma sound_object_schema:
  assumes "\<And>k v. (k, v) \<in> set ps \<Longrightarrow> sound_schema D v" and "obj_wf ps"
    and "\<And>x. x \<in> set rq \<Longrightarrow> refs_in D x"
  shows "sound_schema D (object_schema ps rq)"
proof -
  have "obj_get ps ''$ref'' \<noteq> Some (JStr s)" for s
    using assms(1) [of "''$ref''" "JStr s"] assms(2) by (auto simp: obj_get_iff sound_schema_def)
  then have "refs_in D (JObj ps)"
    using assms(1) by (intro refs_in_obj) (auto simp: sound_schema_def)
  with assms(3) show ?thesis
    unfolding object_schema_def by (intro sound_jobj) auto
qed

section \<open>Soundness of the conversion\<close>

text \<open>
  How a conversion changes the definitions: it keeps what is there and adds only sound schemas,
  whose references all resolve in the result.
\<close>

definition grows :: "defs \<Rightarrow> defs \<Rightarrow> bool" where
  "grows ds ds' \<longleftrightarrow>
     obj_wf ds' \<and> (\<forall>k v. obj_get ds k = Some v \<longrightarrow> obj_get ds' k = Some v) \<and>
     (\<forall>k v. obj_get ds k = None \<longrightarrow> obj_get ds' k = Some v \<longrightarrow> sound_schema (dom (obj_get ds')) v)"

lemma grows_refl: "obj_wf ds \<Longrightarrow> grows ds ds"
  by (simp add: grows_def)

lemma grows_dom: "grows ds ds' \<Longrightarrow> dom (obj_get ds) \<subseteq> dom (obj_get ds')"
  by (auto simp: grows_def)

lemma grows_trans:
  assumes "grows ds1 ds2" and "grows ds2 ds3"
  shows "grows ds1 ds3"
proof -
  have "sound_schema (dom (obj_get ds3)) v"
    if "obj_get ds1 k = None" "obj_get ds3 k = Some v" for k v
  proof (cases "obj_get ds2 k")
    case (Some u)
    with assms that have "sound_schema (dom (obj_get ds2)) v" by (auto simp: grows_def)
    then show ?thesis using grows_dom [OF assms(2)] by (rule sound_schema_mono)
  qed (use assms(2) that in \<open>auto simp: grows_def\<close>)
  with assms show ?thesis by (auto simp: grows_def)
qed

lemma grows_insert:
  "obj_wf ds \<Longrightarrow> obj_get ds d = None \<Longrightarrow> sound_schema (insert d (dom (obj_get ds))) j \<Longrightarrow>
     grows ds (obj_insert d j ds)"
  by (auto simp: grows_def dom_def insert_Collect split: if_splits)

definition converts :: "defs \<Rightarrow> json \<times> defs \<Rightarrow> bool" where
  "converts ds r \<longleftrightarrow> grows ds (snd r) \<and> sound_schema (dom (obj_get (snd r))) (fst r)"

lemma fields_loop_sound:
  assumes conv: "\<And>t ds r. conv t ds = Ok r \<Longrightarrow> obj_wf ds \<Longrightarrow> converts ds r"
  shows "fields_loop cc conv fs ps rq ds = Ok (ps', rq', ds') \<Longrightarrow> obj_wf ds \<Longrightarrow> obj_wf ps \<Longrightarrow>
    (\<forall>(k, v) \<in> set ps. sound_schema (dom (obj_get ds)) v) \<Longrightarrow> (\<forall>x \<in> set rq. refs_in {} x) \<Longrightarrow>
    grows ds ds' \<and> obj_wf ps' \<and> (\<forall>(k, v) \<in> set ps'. sound_schema (dom (obj_get ds')) v) \<and>
    (\<forall>x \<in> set rq'. refs_in {} x)"
proof (induction fs arbitrary: ps rq ds)
  case Nil
  then show ?case by (auto simp: grows_refl)
next
  case (Cons f fs)
  then obtain j ds1 where c: "conv (unwrap_optional (fl_ty f)) ds = Ok (j, ds1)"
    by (auto simp: Let_def split: result.splits)
  let ?key = "to_camel cc (fl_name f)"
  let ?ps = "obj_insert ?key (describe (fl_description f) j) ps"
  from conv [OF c] Cons.prems(2) have g: "grows ds ds1" and j: "sound_schema (dom (obj_get ds1)) j"
    by (auto simp: converts_def)
  let ?rq = "if is_optional (fl_ty f) then rq else rq @ [JStr ?key]"
  have "sound_schema (dom (obj_get ds1)) v" if "(k, v) \<in> set ?ps" for k v
    using that set_obj_insert [of ?key "describe (fl_description f) j" ps] Cons.prems(4)
      sound_describe [OF j] sound_schema_mono [OF _ grows_dom [OF g]] by fastforce
  then have sp: "\<forall>(k, v) \<in> set ?ps. sound_schema (dom (obj_get ds1)) v" by auto
  have wf: "obj_wf ds1" "obj_wf ?ps" using g Cons.prems(3) by (simp_all add: grows_def)
  have rq: "\<forall>x \<in> set ?rq. refs_in {} x" using Cons.prems(5) by auto
  have loop: "fields_loop cc conv fs ?ps ?rq ds1 = Ok (ps', rq', ds')"
    using Cons.prems(1) c by (simp add: Let_def)
  from Cons.IH [OF loop wf sp rq] show ?case
    using grows_trans [OF g] by blast
qed

lemma fields_with_sound:
  assumes "\<And>t ds r. conv t ds = Ok r \<Longrightarrow> obj_wf ds \<Longrightarrow> converts ds r"
    and "fields_with cc conv fs ds = Ok r" and "obj_wf ds"
  shows "converts ds r"
proof -
  obtain ps rq ds' where l: "fields_loop cc conv fs [] [] ds = Ok (ps, rq, ds')"
    and r: "r = (object_schema ps rq, ds')"
    using assms(2) by (auto simp: fields_with_def)
  from fields_loop_sound [OF assms(1) l assms(3)] have "grows ds ds'" "obj_wf ps"
    "\<forall>(k, v) \<in> set ps. sound_schema (dom (obj_get ds')) v" "\<forall>x \<in> set rq. refs_in {} x"
    by auto
  with r show ?thesis
    by (auto simp: converts_def intro!: sound_object_schema intro: refs_in_mono)
qed

lemma sound_leaf: "leaf_schema t \<noteq> JNull \<Longrightarrow> sound_schema D (leaf_schema t)"
  by (cases t rule: leaf_schema.cases) (auto intro!: sound_jobj)

lemma converts_enum:
  assumes "obj_wf ds"
  shows "converts ds (ref_to d, if obj_get ds d \<noteq> None then ds else obj_insert d (enum_to_schema n vs) ds)"
  using assms grows_insert [of ds d "enum_to_schema n vs"]
  by (auto simp: converts_def grows_refl sound_enum_to_schema intro!: sound_ref_to)

lemma converts_struct:
  assumes "obj_wf ds" and new: "obj_get ds d = None" and c: "converts (obj_insert d JNull ds) (j, ds')"
  shows "converts ds (ref_to d, obj_insert d j ds')"
proof -
  have d: "obj_get ds' d = Some JNull"
    using c by (auto simp: converts_def grows_def)
  then have dom: "dom (obj_get (obj_insert d j ds')) = dom (obj_get ds')"
    by (auto simp: dom_def)
  have "grows ds (obj_insert d j ds')"
    using c new unfolding converts_def grows_def dom by (auto split: if_splits)
  with d dom show ?thesis
    by (auto simp: converts_def intro!: sound_ref_to)
qed

lemma converts_array: "converts ds (j, ds') \<Longrightarrow> converts ds (array_of j, ds')"
  by (simp add: converts_def sound_array_of)

lemma to_json_schema_sound:
  "to_json_schema cc reg n t ds = Ok r \<Longrightarrow> obj_wf ds \<Longrightarrow> converts ds r"
proof (induction n arbitrary: t ds r)
  case (Suc n)
  note leaf = sound_leaf [of t] grows_refl [OF Suc.prems(2)]
  show ?case
  proof (cases t)
    case (Vec u)
    with Suc show ?thesis by (auto intro: converts_array)
  next
    case (Optional u)
    then obtain j ds' where u: "to_json_schema cc reg n u ds = Ok (j, ds')"
      and r: "r = (jobj [(''anyOf'', JArr [j, jobj [(''type'', JStr ''null'')]])], ds')"
      using Suc.prems by auto
    have "refs_in D (jobj [(''type'', JStr ''null'')])" for D
      using sound_jobj [of "[(''type'', JStr ''null'')]" D] by (simp add: sound_schema_def)
    with Suc.IH [OF u Suc.prems(2)] r show ?thesis
      by (auto simp: converts_def sound_schema_def [of _ j] intro!: sound_jobj)
  next
    case (Struct name fs)
    let ?d = "struct_def_name cc name"
    show ?thesis
    proof (cases "obj_get ds ?d")
      case None
      with Struct Suc.prems obtain j ds' where
        f: "fields_with cc (to_json_schema cc reg n) fs (obj_insert ?d JNull ds) = Ok (j, ds')"
        and r: "r = (ref_to ?d, obj_insert ?d j ds')"
        by (auto simp: Let_def)
      have "converts (obj_insert ?d JNull ds) (j, ds')"
        using fields_with_sound [OF Suc.IH f] Suc.prems(2) by simp
      then show ?thesis
        unfolding r by (rule converts_struct [OF Suc.prems(2) None])
    next
      case (Some v)
      with Struct Suc.prems show ?thesis
        by (auto simp: converts_def Let_def grows_refl intro!: sound_ref_to)
    qed
  next
    case (StructRef name)
    with Suc show ?thesis by (auto split: option.splits)
  next
    case (StructTable name)
    with Suc show ?thesis by (auto split: option.splits intro: converts_array)
  next
    case (Enum name vs)
    with Suc.prems converts_enum show ?thesis by (auto simp: Let_def)
  next
    case (EnumRef name b)
    with Suc.prems converts_enum show ?thesis by (auto simp: Let_def split: option.splits ty.splits)
  qed (use Suc.prems leaf in \<open>auto simp: converts_def jobj_def\<close>)
qed simp

section \<open>Enough fuel\<close>

text \<open>Names in the registry belong to their definitions; \<open>add\<close> keeps this.\<close>

definition registry_wf :: "type_registry \<Rightarrow> bool" where
  "registry_wf reg \<longleftrightarrow>
     (\<forall>n t. get_struct reg n = Some t \<longrightarrow> (\<exists>fs. t = Struct n fs)) \<and>
     (\<forall>n t. get_enum reg n = Some t \<longrightarrow> (\<exists>vs. t = Enum n vs))"

lemma registry_wf_enum: "registry_wf reg \<Longrightarrow> get_enum reg n = Some t \<Longrightarrow> \<exists>vs. t = Enum n vs"
  by (simp add: registry_wf_def)

lemma registry_wf_new: "registry_wf registry_new"
  by (simp add: registry_wf_def registry_new_def get_struct_def get_enum_def)

lemma registry_wf_insert:
  "registry_wf reg \<Longrightarrow> registry_wf (reg\<lparr>structs := obj_insert n (Struct n fs) (structs reg)\<rparr>)"
  "registry_wf reg \<Longrightarrow> registry_wf (reg\<lparr>enums := obj_insert n (Enum n vs) (enums reg)\<rparr>)"
  by (simp_all add: registry_wf_def get_struct_def get_enum_def)

lemma registry_wf_add_type:
  "registry_wf reg \<Longrightarrow> registry_wf (add_type t reg)"
  "registry_wf reg \<Longrightarrow> registry_wf (add_fields fs reg)"
  by (induction t reg and fs reg rule: add_type_add_fields.induct)
    (simp_all add: registry_wf_insert)

lemma registry_wf_add_endpoint: "registry_wf reg \<Longrightarrow> registry_wf (add_endpoint e reg)"
proof -
  have "registry_wf reg \<Longrightarrow> registry_wf (add_all ts reg)" for ts reg
    by (induction ts arbitrary: reg) (auto simp: add_all_def registry_wf_add_type)
  then show "registry_wf reg \<Longrightarrow> ?thesis"
    by (simp add: add_endpoint_def registry_wf_add_type Let_def split: option.splits)
qed

definition struct_bound :: "type_registry \<Rightarrow> nat" where
  "struct_bound reg = sum_list (map (size \<circ> snd) (structs reg))"

definition pending :: "casing \<Rightarrow> type_registry \<Rightarrow> defs \<Rightarrow> nat" where
  "pending cc reg ds =
     card {n \<in> fst ` set (structs reg). obj_get ds (struct_def_name cc n) = None}"

definition schema_fuel :: "type_registry \<Rightarrow> ty \<Rightarrow> nat" where
  "schema_fuel reg t = 2 + (size t + length (structs reg) * (struct_bound reg + 2))"

lemma size_struct_bound: "get_struct reg n = Some t \<Longrightarrow> size t \<le> struct_bound reg"
  unfolding struct_bound_def get_struct_def obj_get_def
  by (rule member_le_sum_list) (force dest: map_of_SomeD, simp)

lemma size_field: "f \<in> set fs \<Longrightarrow> size (fl_ty f) < size (Struct n fs)"
proof (induction fs)
  case (Cons g fs)
  then show ?case by (cases g) auto
qed simp

lemma size_unwrap: "size (unwrap_optional t) \<le> size t"
  by (cases t) auto

lemma pending_mono: "dom (obj_get ds) \<subseteq> dom (obj_get ds') \<Longrightarrow> pending cc reg ds' \<le> pending cc reg ds"
  unfolding pending_def by (intro card_mono) (auto simp: dom_def)

lemma pending_le: "pending cc reg ds \<le> length (structs reg)"
  unfolding pending_def
  by (rule order_trans [OF card_mono [of "fst ` set (structs reg)"]]) (auto intro: order_trans [OF card_image_le] card_length)

lemma pending_enter:
  assumes "get_struct reg n = Some t" and "obj_get ds (struct_def_name cc n) = None"
    and "insert (struct_def_name cc n) (dom (obj_get ds)) \<subseteq> dom (obj_get ds')"
  shows "pending cc reg ds' < pending cc reg ds"
proof -
  have "n \<in> fst ` set (structs reg)"
    using assms(1) by (auto simp: get_struct_def obj_get_def dest: map_of_SomeD intro: rev_image_eqI)
  moreover have "obj_get ds' (struct_def_name cc n) \<noteq> None"
    using assms(3) by auto
  ultimately have mem: "n \<in> {m \<in> fst ` set (structs reg). obj_get ds (struct_def_name cc m) = None}"
    (is "n \<in> ?B") and new: "n \<notin> {m \<in> fst ` set (structs reg). obj_get ds' (struct_def_name cc m) = None}"
    (is "n \<notin> ?A")
    using assms(2) by simp_all
  have sub: "?A \<subseteq> ?B"
    using assms(3) by (auto simp: dom_def)
  have "?A \<noteq> ?B"
  proof
    assume "?A = ?B"
    with mem new show False by (simp only: not_True_eq_False)
  qed
  with sub show ?thesis
    unfolding pending_def by (intro psubset_card_mono psubsetI) auto
qed

lemma fields_with_fuel:
  assumes conv: "\<And>t ds r. conv t ds = Ok r \<Longrightarrow> obj_wf ds \<Longrightarrow> converts ds r"
    and ok: "\<And>f ds. f \<in> set fs \<Longrightarrow> obj_wf ds \<Longrightarrow> dom (obj_get ds0) \<subseteq> dom (obj_get ds) \<Longrightarrow>
       conv (unwrap_optional (fl_ty f)) ds \<noteq> Err OutOfFuel"
    and "obj_wf ds" and "dom (obj_get ds0) \<subseteq> dom (obj_get ds)"
  shows "fields_with cc conv fs ds \<noteq> Err OutOfFuel"
proof -
  have "fields_loop cc conv fs ps rq ds \<noteq> Err OutOfFuel" for ps rq
    using ok assms(3,4)
  proof (induction fs arbitrary: ps rq ds)
    case (Cons f fs)
    show ?case
    proof (cases "conv (unwrap_optional (fl_ty f)) ds")
      case (Ok r)
      with conv [OF this Cons.prems(2)] grows_dom have "obj_wf (snd r)"
        "dom (obj_get ds0) \<subseteq> dom (obj_get (snd r))"
        using Cons.prems(3) by (auto simp: converts_def grows_def)
      with Ok Cons.IH Cons.prems(1) show ?thesis by (cases r) (simp add: Let_def)
    next
      case (Err e)
      with Cons.prems(1) [of f ds] Cons.prems(2,3) show ?thesis by (simp add: Let_def)
    qed
  qed simp
  then show ?thesis
    by (cases "fields_loop cc conv fs [] [] ds") (auto simp: fields_with_def)
qed

lemma struct_fuel:
  assumes IH: "\<And>t ds. obj_wf ds \<Longrightarrow> Suc (size t + pending cc reg ds * (struct_bound reg + 2)) < n \<Longrightarrow>
      to_json_schema cc reg n t ds \<noteq> Err OutOfFuel"
    and wf: "obj_wf ds"
    and need: "\<And>ds'. insert (struct_def_name cc name) (dom (obj_get ds)) \<subseteq> dom (obj_get ds') \<Longrightarrow>
      obj_get ds (struct_def_name cc name) = None \<Longrightarrow>
      size (Struct name fs) + pending cc reg ds' * (struct_bound reg + 2) < n"
  shows "to_json_schema cc reg (Suc n) (Struct name fs) ds \<noteq> Err OutOfFuel"
proof (cases "obj_get ds (struct_def_name cc name)")
  case None
  let ?ds = "obj_insert (struct_def_name cc name) JNull ds"
  have dom: "insert (struct_def_name cc name) (dom (obj_get ds)) \<subseteq> dom (obj_get ?ds)"
    by (auto simp: dom_def)
  have "fields_with cc (to_json_schema cc reg n) fs ?ds \<noteq> Err OutOfFuel"
  proof (rule fields_with_fuel [where ?ds0.0 = ?ds])
    fix f and ds' :: defs
    assume f: "f \<in> set fs" and wf': "obj_wf ds'" and sub: "dom (obj_get ?ds) \<subseteq> dom (obj_get ds')"
    have "size (Struct name fs) + pending cc reg ds' * (struct_bound reg + 2) < n"
      using need [OF _ None] dom sub by blast
    with size_field [OF f, of name] size_unwrap [of "fl_ty f"]
    show "to_json_schema cc reg n (unwrap_optional (fl_ty f)) ds' \<noteq> Err OutOfFuel"
      by (intro IH [OF wf']) simp
  qed (use wf to_json_schema_sound in auto)
  with None show ?thesis
    by (cases "fields_with cc (to_json_schema cc reg n) fs ?ds") (auto simp: Let_def)
qed (simp add: Let_def)

lemma ref_fuel:
  assumes IH: "\<And>t ds. obj_wf ds \<Longrightarrow> Suc (size t + pending cc reg ds * (struct_bound reg + 2)) < n \<Longrightarrow>
      to_json_schema cc reg n t ds \<noteq> Err OutOfFuel"
    and wf: "obj_wf ds" "registry_wf reg" and reg: "get_struct reg name = Some t'"
    and n: "pending cc reg ds * (struct_bound reg + 2) \<le> n"
  shows "to_json_schema cc reg (Suc n) t' ds \<noteq> Err OutOfFuel"
proof -
  obtain fs where t': "t' = Struct name fs"
    using wf(2) reg by (auto simp: registry_wf_def)
  show ?thesis
    unfolding t'
  proof (rule struct_fuel [OF IH wf(1)])
    fix ds' :: defs
    assume "insert (struct_def_name cc name) (dom (obj_get ds)) \<subseteq> dom (obj_get ds')"
      and "obj_get ds (struct_def_name cc name) = None"
    from pending_enter [OF reg this(2,1)] have "Suc (pending cc reg ds') \<le> pending cc reg ds" by simp
    then have "Suc (pending cc reg ds') * (struct_bound reg + 2) \<le> n"
      using n by (meson mult_le_mono1 order_trans)
    then show "size (Struct name fs) + pending cc reg ds' * (struct_bound reg + 2) < n"
      using size_struct_bound [OF reg] t' by simp
  qed
qed

lemma to_json_schema_fuel:
  assumes "registry_wf reg"
  shows "obj_wf ds \<Longrightarrow> Suc (size t + pending cc reg ds * (struct_bound reg + 2)) < n \<Longrightarrow>
    to_json_schema cc reg n t ds \<noteq> Err OutOfFuel"
proof (induction n arbitrary: t ds rule: less_induct)
  case (less n)
  then obtain n' where n: "n = Suc n'" by (cases n) auto
  have ref: "to_json_schema cc reg n' t' ds \<noteq> Err OutOfFuel"
    if reg: "get_struct reg name = Some t'" for name t'
  proof -
    obtain m where m: "n' = Suc m"
      using less.prems(2) n by (cases n') auto
    show ?thesis
      unfolding m by (rule ref_fuel [OF less.IH less.prems(1) assms reg])
        (use m n less.prems(2) in auto)
  qed
  show ?case
  proof (cases t)
    case (Struct name fs)
    show ?thesis
      unfolding Struct n
    proof (rule struct_fuel [OF less.IH less.prems(1)])
      fix ds' :: defs
      assume "insert (struct_def_name cc name) (dom (obj_get ds)) \<subseteq> dom (obj_get ds')"
      then have "pending cc reg ds' \<le> pending cc reg ds" by (intro pending_mono) auto
      then have "pending cc reg ds' * (struct_bound reg + 2) \<le> pending cc reg ds * (struct_bound reg + 2)"
        by (rule mult_le_mono1)
      then show "size (Struct name fs) + pending cc reg ds' * (struct_bound reg + 2) < n'"
        using less.prems(2) Struct n by simp
    qed (use n in auto)
  next
    case (Vec u)
    with less n show ?thesis by (cases "to_json_schema cc reg n' u ds") auto
  next
    case (Optional u)
    with less n show ?thesis by (cases "to_json_schema cc reg n' u ds") auto
  next
    case (StructRef name)
    with n less.prems ref show ?thesis by (auto split: option.splits)
  next
    case (StructTable name)
    show ?thesis
    proof (cases "get_struct reg name")
      case (Some t')
      with StructTable less.prems ref n show ?thesis
        by (cases "to_json_schema cc reg n' t' ds") auto
    qed (use StructTable n in auto)
  qed (use n less.prems in \<open>auto simp: Let_def split: option.splits ty.splits\<close>)
qed

section \<open>References that resolve\<close>

fun resolves :: "type_registry \<Rightarrow> ty \<Rightarrow> bool"
  and resolves_fields :: "type_registry \<Rightarrow> field list \<Rightarrow> bool" where
  "resolves reg (Struct _ fs) = resolves_fields reg fs"
| "resolves reg (Vec t) = resolves reg t"
| "resolves reg (Optional t) = resolves reg t"
| "resolves reg (StructRef n) = (get_struct reg n \<noteq> None)"
| "resolves reg (StructTable n) = (get_struct reg n \<noteq> None)"
| "resolves reg (EnumRef n _) = (get_enum reg n \<noteq> None)"
| "resolves reg _ = True"
| "resolves_fields reg [] = True"
| "resolves_fields reg (Field _ _ t _ # fs) = (resolves reg t \<and> resolves_fields reg fs)"

definition registry_closed :: "type_registry \<Rightarrow> bool" where
  "registry_closed reg \<longleftrightarrow> (\<forall>(n, t) \<in> set (structs reg). resolves reg t)"

lemma registry_closed_get: "registry_closed reg \<Longrightarrow> get_struct reg n = Some t \<Longrightarrow> resolves reg t"
  by (auto simp: registry_closed_def get_struct_def obj_get_def dest: map_of_SomeD)

lemma resolves_fields_iff: "resolves_fields reg fs \<longleftrightarrow> (\<forall>f \<in> set fs. resolves reg (fl_ty f))"
proof (induction fs)
  case (Cons f fs)
  then show ?case by (cases f) auto
qed simp

lemma resolves_unwrap: "resolves reg t \<Longrightarrow> resolves reg (unwrap_optional t)"
  by (cases t) auto

lemma fields_with_resolves:
  assumes "\<And>f ds m. f \<in> set fs \<Longrightarrow> conv (unwrap_optional (fl_ty f)) ds \<noteq> Err (Bail m)"
  shows "fields_with cc conv fs ds \<noteq> Err (Bail m)"
proof -
  have "fields_loop cc conv fs ps rq ds \<noteq> Err (Bail m)" for ps rq
    using assms
  proof (induction fs arbitrary: ps rq ds)
    case (Cons f fs)
    then show ?case
      by (cases "conv (unwrap_optional (fl_ty f)) ds") (auto simp: Let_def split: prod.splits)
  qed simp
  then show ?thesis
    by (cases "fields_loop cc conv fs [] [] ds") (auto simp: fields_with_def)
qed

lemma to_json_schema_resolves:
  assumes "registry_wf reg" "registry_closed reg"
  shows "resolves reg t \<Longrightarrow> to_json_schema cc reg n t ds \<noteq> Err (Bail m)"
proof (induction n arbitrary: t ds m)
  case (Suc n)
  show ?case
  proof (cases t)
    case (Vec u)
    with Suc show ?thesis by (cases "to_json_schema cc reg n u ds") auto
  next
    case (Optional u)
    with Suc show ?thesis by (cases "to_json_schema cc reg n u ds") auto
  next
    case (Struct name fs)
    have "fields_with cc (to_json_schema cc reg n) fs ds' \<noteq> Err (Bail m)" for ds'
      using Suc Struct by (intro fields_with_resolves) (simp add: resolves_fields_iff resolves_unwrap)
    then show ?thesis
      using Struct
      by (cases "fields_with cc (to_json_schema cc reg n) fs (obj_insert (struct_def_name cc name) JNull ds)")
        (auto simp: Let_def)
  next
    case (StructRef name)
    with Suc registry_closed_get [OF assms(2)] show ?thesis by (auto split: option.splits)
  next
    case (StructTable name)
    with Suc.prems obtain t' where t': "get_struct reg name = Some t'" by auto
    with Suc.IH registry_closed_get [OF assms(2)] StructTable show ?thesis
      by (cases "to_json_schema cc reg n t' ds") auto
  next
    case (EnumRef name b)
    with Suc.prems obtain e where e: "get_enum reg name = Some e" by auto
    with registry_wf_enum [OF assms(1)] obtain vs where "e = Enum name vs" by blast
    with e EnumRef show ?thesis by (simp add: Let_def)
  qed (auto simp: Let_def)
qed simp

section \<open>Shape of an object schema\<close>

definition field_key :: "casing \<Rightarrow> field \<Rightarrow> string" where
  "field_key cc f = to_camel cc (fl_name f)"

lemma fields_loop_shape:
  "fields_loop cc conv fs ps rq ds = Ok (ps', rq', ds') \<Longrightarrow>
     fst ` set ps' = fst ` set ps \<union> field_key cc ` set fs \<and>
     rq' = rq @ map (JStr \<circ> field_key cc) (filter (\<lambda>f. \<not> is_optional (fl_ty f)) fs)"
proof (induction fs arbitrary: ps rq ds)
  case (Cons f fs)
  let ?key = "field_key cc f"
  let ?rq = "if is_optional (fl_ty f) then rq else rq @ [JStr ?key]"
  from Cons.prems obtain j ds1 where
    "fields_loop cc conv fs (obj_insert ?key (describe (fl_description f) j) ps) ?rq ds1 = Ok (ps', rq', ds')"
    unfolding field_key_def by (auto simp: Let_def split: result.splits prod.splits)
  from Cons.IH [OF this] show ?case by simp
qed simp

definition fields_fuel :: "type_registry \<Rightarrow> field list \<Rightarrow> nat" where
  "fields_fuel reg fs = schema_fuel reg (Struct [] fs)"

lemma fields_to_object_schema_fuel:
  assumes "registry_wf reg" and "fields_fuel reg fs \<le> n"
  shows "fields_to_object_schema cc reg n fs [] \<noteq> Err OutOfFuel"
  unfolding fields_to_object_schema_def
proof (rule fields_with_fuel [where ?ds0.0 = "[]"])
  fix f and ds :: defs
  assume "f \<in> set fs" and "obj_wf ds"
  then show "to_json_schema cc reg n (unwrap_optional (fl_ty f)) ds \<noteq> Err OutOfFuel"
    using assms(2) size_field [of f fs "[]"] size_unwrap [of "fl_ty f"]
      mult_le_mono1 [OF pending_le [of cc reg ds], of "struct_bound reg + 2"]
    by (intro to_json_schema_fuel [OF assms(1)]) (auto simp: fields_fuel_def schema_fuel_def)
qed (use to_json_schema_sound in auto)

lemma fields_to_object_schema_Ok:
  assumes "registry_wf reg" "registry_closed reg" "resolves_fields reg fs" "fields_fuel reg fs \<le> n"
  shows "\<exists>ps rq ds. fields_to_object_schema cc reg n fs [] = Ok (object_schema ps rq, ds) \<and>
    fst ` set ps = field_key cc ` set fs \<and>
    rq = map (JStr \<circ> field_key cc) (filter (\<lambda>f. \<not> is_optional (fl_ty f)) fs) \<and>
    (\<forall>p \<in> set ps. sound_schema (dom (obj_get ds)) (snd p)) \<and>
    (\<forall>d j. obj_get ds d = Some j \<longrightarrow> sound_schema (dom (obj_get ds)) j)"
proof -
  have "fields_to_object_schema cc reg n fs [] \<noteq> Err (Bail m)" for m
    unfolding fields_to_object_schema_def using assms
    by (intro fields_with_resolves to_json_schema_resolves)
      (simp_all add: resolves_fields_iff resolves_unwrap)
  with fields_to_object_schema_fuel [OF assms(1,4)] obtain r where
    r: "fields_to_object_schema cc reg n fs [] = Ok r"
    by (metis result.exhaust schema_error.exhaust)
  then obtain ps rq ds where l: "fields_loop cc (to_json_schema cc reg n) fs [] [] [] = Ok (ps, rq, ds)"
    and r': "r = (object_schema ps rq, ds)"
    by (auto simp: fields_to_object_schema_def fields_with_def)
  from fields_loop_sound [OF to_json_schema_sound l] have "grows [] ds"
    "\<forall>(k, v) \<in> set ps. sound_schema (dom (obj_get ds)) v" by auto
  with r r' fields_loop_shape [OF l] show ?thesis
    by (intro exI [of _ ps] exI [of _ rq] exI [of _ ds]) (auto simp: grows_def)
qed

section \<open>Properties\<close>

text \<open>
  C35. The MCP input schema of an endpoint is total and closed. Over a registry built with \<open>add\<close>,
  whose types and the endpoint's parameters reference only registered names, the conversion ends
  with a schema (however the types refer to each other, recursively or not): its properties are the
  camel-case names of the parameters, \<open>required\<close> lists those that are not optional in declaration
  order, and every \<open>$ref\<close> in the root and in each definition points to a definition that is
  present and complete: none is left as the placeholder that breaks recursion.
\<close>
theorem mcp_input_schema_closed:
  assumes "registry_wf reg" and "registry_closed reg"
    and "resolves_fields reg (ep_parameters e)" and "fields_fuel reg (ep_parameters e) \<le> n"
  shows "\<exists>ps ds. to_mcp_input_schema cc reg n e =
      Ok (attach_defs (object_schema ps
            (map (JStr \<circ> field_key cc) (filter (\<lambda>f. \<not> is_optional (fl_ty f)) (ep_parameters e)))) ds)
    \<and> fst ` set ps = field_key cc ` set (ep_parameters e)
    \<and> (\<forall>p \<in> set ps. sound_schema (dom (obj_get ds)) (snd p))
    \<and> (\<forall>d j. obj_get ds d = Some j \<longrightarrow> sound_schema (dom (obj_get ds)) j)"
  using fields_to_object_schema_Ok [OF assms(1-4), of cc]
  by (auto simp: to_mcp_input_schema_def)

text \<open>A type that refers to itself through an optional field and a list.\<close>

definition node_fields :: "field list" where
  "node_fields =
     [field_new ''value'' Int64, field_new ''next'' (Optional (StructRef ''Node'')),
      field_new ''children'' (Vec (StructRef ''Node''))]"

definition node_registry :: type_registry where
  "node_registry = add_type (Struct ''Node'' node_fields) registry_new"

definition node_endpoint :: endpoint_schema where
  "node_endpoint = endpoint_new ''AddNode'' 7 [field_new ''node'' (StructRef ''Node'')] []"

definition plain_casing :: casing where
  "plain_casing = \<lparr>to_camel = (\<lambda>s. s), to_pascal = (\<lambda>s. s), to_snake = (\<lambda>s. s)\<rparr>"

theorem mcp_input_schema_closed_witness:
  "\<exists>ps ds. to_mcp_input_schema plain_casing node_registry
        (fields_fuel node_registry (ep_parameters node_endpoint)) node_endpoint =
      Ok (attach_defs (object_schema ps [JStr ''node'']) ds)
    \<and> fst ` set ps = {''node''}"
proof -
  have 1: "registry_wf node_registry"
    unfolding node_registry_def by (intro registry_wf_add_type registry_wf_new)
  have 2: "registry_closed node_registry"
    by (simp add: registry_closed_def node_registry_def node_fields_def field_new_def
        registry_new_def get_struct_def obj_get_def)
  have 3: "resolves_fields node_registry (ep_parameters node_endpoint)"
    by (simp add: node_endpoint_def endpoint_new_def node_registry_def node_fields_def field_new_def
        registry_new_def get_struct_def obj_get_def)
  from mcp_input_schema_closed [OF 1 2 3 order_refl, of plain_casing] show ?thesis
    by (auto simp: node_endpoint_def endpoint_new_def field_new_def field_key_def plain_casing_def)
qed

end
