(* ===== verification/Api_Document.thy ===== *)
theory Api_Document
  imports Json_Schema
begin

text \<open>
  \<open>src/model/api_document.rs\<close>: the shared definitions of an OpenAPI or AsyncAPI document, the
  relocation of references and the \<open>meta\<close> passthrough. Fuel is that of \<open>to_json_schema\<close>.
\<close>

definition COMPONENTS_SCHEMAS_PREFIX :: string where
  "COMPONENTS_SCHEMAS_PREFIX = ''#/components/schemas/''"

section \<open>Relocating references\<close>

definition relocate_target :: "string \<Rightarrow> string \<Rightarrow> string" where
  "relocate_target prefix target =
     (case strip_prefix target DEFS_PREFIX of Some n \<Rightarrow> prefix @ n | None \<Rightarrow> target)"

function (sequential) relocate_refs :: "string \<Rightarrow> json \<Rightarrow> json"
  and relocate_obj :: "string \<Rightarrow> (string \<times> json) list \<Rightarrow> (string \<times> json) list"
  and relocate_arr :: "string \<Rightarrow> json list \<Rightarrow> json list" where
  "relocate_refs prefix (JObj m) = JObj (relocate_obj prefix m)"
| "relocate_refs prefix (JArr xs) = JArr (relocate_arr prefix xs)"
| "relocate_refs prefix j = j"
| "relocate_obj prefix [] = []"
| "relocate_obj prefix ((k, v) # m) =
     (k, case v of
           JStr target \<Rightarrow> if k = ''$ref'' then JStr (relocate_target prefix target) else v
         | _ \<Rightarrow> relocate_refs prefix v) # relocate_obj prefix m"
| "relocate_arr prefix [] = []"
| "relocate_arr prefix (x # xs) = relocate_refs prefix x # relocate_arr prefix xs"
  by pat_completeness auto
termination
  by (relation "measure (\<lambda>x. case x of
        Inl (p, j) \<Rightarrow> size j
      | Inr (Inl (p, m)) \<Rightarrow> size_list (size_prod (\<lambda>_. 0) size) m
      | Inr (Inr (p, xs)) \<Rightarrow> size_list size xs)") auto

section \<open>Meta annotations\<close>

definition RECOGNISED_META_KEYS :: "string list" where
  "RECOGNISED_META_KEYS =
     [''example'', ''examples'', ''deprecated'', ''tags'', ''minimum'', ''maximum'', ''minLength'',
      ''maxLength'', ''pattern'', ''enum'']"

definition meta_key_ok :: "string \<Rightarrow> bool" where
  "meta_key_ok k \<longleftrightarrow> starts_with k ''x-'' \<or> k \<in> set RECOGNISED_META_KEYS"

definition join :: "string \<Rightarrow> string list \<Rightarrow> string" where
  "join sep ss = (case ss of [] \<Rightarrow> [] | s # ss \<Rightarrow> foldl (\<lambda>a b. a @ sep @ b) s ss)"

primrec apply_meta_loop ::
  "string \<Rightarrow> (string \<times> json) list \<Rightarrow> json btree \<Rightarrow> (json btree, schema_error) result" where
  "apply_meta_loop ctxt [] m = Ok m"
| "apply_meta_loop ctxt (kv # meta) m =
     (if meta_key_ok (fst kv) then apply_meta_loop ctxt meta (obj_insert (fst kv) (snd kv) m)
      else Err (Bail (ctxt @ '': unrecognised meta key `'' @ fst kv @
        ''`. Prefix it with `x-` to emit it as a specification extension, or use one of the mapped keys: ''
        @ join '', '' RECOGNISED_META_KEYS)))"

definition apply_meta :: "json \<Rightarrow> meta_map \<Rightarrow> string \<Rightarrow> (json, schema_error) result" where
  "apply_meta target meta ctxt =
     (if meta_is_empty meta then Ok target
      else case target of
        JObj m \<Rightarrow> result_map JObj (apply_meta_loop ctxt meta m)
      | _ \<Rightarrow> Err (Bail (ctxt @ '': cannot apply meta to a non-object JSON value'')))"

text \<open>The properties of an object schema, and writing one of them back.\<close>

definition get_property :: "json \<Rightarrow> string \<Rightarrow> json option" where
  "get_property schema key = Option.bind (jget schema ''properties'') (\<lambda>p. jget p key)"

fun set_property :: "json \<Rightarrow> string \<Rightarrow> json \<Rightarrow> json" where
  "set_property (JObj m) key v =
     (case obj_get m ''properties'' of
        Some (JObj ps) \<Rightarrow> JObj (obj_insert ''properties'' (JObj (obj_insert key v ps)) m)
      | _ \<Rightarrow> JObj m)"
| "set_property j key v = j"

primrec apply_field_meta ::
  "casing \<Rightarrow> json \<Rightarrow> field list \<Rightarrow> string \<Rightarrow> (json, schema_error) result" where
  "apply_field_meta cc schema [] ctxt = Ok schema"
| "apply_field_meta cc schema (f # fs) ctxt =
     (if meta_is_empty (fl_meta f) then apply_field_meta cc schema fs ctxt
      else case get_property schema (field_key cc f) of
        None \<Rightarrow> apply_field_meta cc schema fs ctxt
      | Some property \<Rightarrow>
          if jget property ''$ref'' \<noteq> None
          then Err (Bail (ctxt @ '': field `'' @ fl_name f @
            ''` carries meta but its schema is a bare $ref; annotate the referenced definition instead '' @
            [CHR 0xE2, CHR 0x80, CHR 0x94] @
            '' sibling keys next to $ref are ignored by JSON Schema 2020-12 tooling''))
          else case apply_meta property (fl_meta f) (ctxt @ '': field `'' @ fl_name f @ ''`'') of
            Err e \<Rightarrow> Err e
          | Ok property' \<Rightarrow>
              apply_field_meta cc (set_property schema (field_key cc f) property') fs ctxt)"

section \<open>Components\<close>

record schema_components =
  schemas :: "json btree"

fun in_context :: "string \<Rightarrow> ('a, schema_error) result \<Rightarrow> ('a, schema_error) result" where
  "in_context ctxt (Err (Bail m)) = Err (Bail (ctxt @ m))"
| "in_context ctxt r = r"

primrec collect_errors ::
  "casing \<Rightarrow> type_registry \<Rightarrow> nat \<Rightarrow> string \<Rightarrow> endpoint_error_schema list \<Rightarrow> defs \<Rightarrow> (defs, schema_error) result" where
  "collect_errors cc reg n ep [] ds = Ok ds"
| "collect_errors cc reg n ep (e # es) ds =
     (case in_context (''endpoint '' @ ep @ '': error '' @ ee_name e @ '': '')
             (fields_to_object_schema cc reg n (ee_fields e) ds) of
        Err err \<Rightarrow> Err err
      | Ok (_, ds') \<Rightarrow> collect_errors cc reg n ep es ds')"

definition collect_endpoint ::
  "casing \<Rightarrow> type_registry \<Rightarrow> nat \<Rightarrow> endpoint_schema \<Rightarrow> defs \<Rightarrow> (defs, schema_error) result" where
  "collect_endpoint cc reg n e ds =
     result_bind (in_context (''endpoint '' @ ep_name e @ '': parameters: '')
         (fields_to_object_schema cc reg n (ep_parameters e) ds)) (\<lambda>(_, ds).
     result_bind (in_context (''endpoint '' @ ep_name e @ '': returns: '')
         (fields_to_object_schema cc reg n (ep_returns e) ds)) (\<lambda>(_, ds).
     result_bind
       (case ep_stream_response e of
          None \<Rightarrow> Ok ds
        | Some t \<Rightarrow> result_map snd (in_context (''endpoint '' @ ep_name e @ '': stream_response: '')
                    (to_json_schema cc reg n t ds))) (\<lambda>ds.
     collect_errors cc reg n (ep_name e) (ep_errors e) ds)))"

primrec collect_loop ::
  "casing \<Rightarrow> type_registry \<Rightarrow> nat \<Rightarrow> endpoint_schema list \<Rightarrow> defs \<Rightarrow> (defs, schema_error) result" where
  "collect_loop cc reg n [] ds = Ok ds"
| "collect_loop cc reg n (e # es) ds =
     result_bind (collect_endpoint cc reg n e ds) (collect_loop cc reg n es)"

definition relocate_values :: "string \<Rightarrow> defs \<Rightarrow> defs" where
  "relocate_values prefix ds = map (\<lambda>(k, v). (k, relocate_refs prefix v)) ds"

definition collect ::
  "casing \<Rightarrow> endpoint_schema list \<Rightarrow> type_registry \<Rightarrow> nat \<Rightarrow> (schema_components, schema_error) result" where
  "collect cc es reg n =
     result_map (\<lambda>ds. \<lparr>schemas = relocate_values COMPONENTS_SCHEMAS_PREFIX ds\<rparr>)
       (collect_loop cc reg n es [])"

definition components_object_schema ::
  "casing \<Rightarrow> field list \<Rightarrow> type_registry \<Rightarrow> nat \<Rightarrow> string \<Rightarrow> (json, schema_error) result" where
  "components_object_schema cc fs reg n ctxt =
     (case fields_to_object_schema cc reg n fs [] of
        Err e \<Rightarrow> Err e
      | Ok (schema, throwaway) \<Rightarrow>
          apply_field_meta cc (relocate_refs COMPONENTS_SCHEMAS_PREFIX schema) fs ctxt)"

definition request_schema ::
  "casing \<Rightarrow> endpoint_schema \<Rightarrow> type_registry \<Rightarrow> nat \<Rightarrow> (json, schema_error) result" where
  "request_schema cc e reg n =
     components_object_schema cc (ep_parameters e) reg n (''endpoint '' @ ep_name e @ '' parameters'')"

definition response_schema ::
  "casing \<Rightarrow> endpoint_schema \<Rightarrow> type_registry \<Rightarrow> nat \<Rightarrow> (json, schema_error) result" where
  "response_schema cc e reg n =
     components_object_schema cc (ep_returns e) reg n (''endpoint '' @ ep_name e @ '' returns'')"

definition object_schema_for_fields ::
  "casing \<Rightarrow> field list \<Rightarrow> type_registry \<Rightarrow> nat \<Rightarrow> (json, schema_error) result" where
  "object_schema_for_fields cc fs reg n =
     result_map (\<lambda>(schema, ds). relocate_refs COMPONENTS_SCHEMAS_PREFIX schema)
       (fields_to_object_schema cc reg n fs [])"

definition json_object :: "(string \<times> json option) list \<Rightarrow> json" where
  "json_object entries =
     JObj (fold (\<lambda>(k, v) m. case v of Some v \<Rightarrow> obj_insert k v m | None \<Rightarrow> m) entries [])"

section \<open>Lemmas\<close>

lemma obj_get_relocate:
  "obj_get (relocate_obj p m) k =
     map_option (\<lambda>v. case v of
        JStr target \<Rightarrow> if k = ''$ref'' then JStr (relocate_target p target) else v
      | _ \<Rightarrow> relocate_refs p v) (obj_get m k)"
  by (induction m) (auto simp: obj_get_def split: json.splits)

lemma relocate_refs_not_str: "relocate_refs p v = JStr s \<longleftrightarrow> v = JStr s"
  by (cases v) auto

lemma ref_string_relocate:
  "(case obj_get (relocate_obj p m) ''$ref'' of Some (JStr t) \<Rightarrow> [t] | _ \<Rightarrow> []) =
     map (relocate_target p) (case obj_get m ''$ref'' of Some (JStr t) \<Rightarrow> [t] | _ \<Rightarrow> [])"
  by (auto simp: obj_get_relocate relocate_refs_not_str split: option.splits json.splits)

lemma collect_relocate:
  "collect_refs (relocate_refs p j) = map (relocate_target p) (collect_refs j)"
  "collect_refs_obj (relocate_obj p m) = map (relocate_target p) (collect_refs_obj m)"
  "collect_refs_arr (relocate_arr p xs) = map (relocate_target p) (collect_refs_arr xs)"
proof (induction p j and p m and p xs rule: relocate_refs_relocate_obj_relocate_arr.induct)
  case (1 p m)
  then show ?case by (simp only: relocate_refs.simps collect_refs.simps map_append ref_string_relocate)
next
  case (5 p k v m)
  then show ?case by (cases v) auto
qed auto

lemma relocate_target_defs [simp]: "relocate_target p (DEFS_PREFIX @ d) = p @ d"
  by (simp add: relocate_target_def)

lemma relocate_target_idem:
  "relocate_target COMPONENTS_SCHEMAS_PREFIX (relocate_target COMPONENTS_SCHEMAS_PREFIX t) =
     relocate_target COMPONENTS_SCHEMAS_PREFIX t"
proof -
  have "\<not> starts_with (COMPONENTS_SCHEMAS_PREFIX @ n) DEFS_PREFIX" for n
    by (simp add: starts_with_def COMPONENTS_SCHEMAS_PREFIX_def DEFS_PREFIX_def)
  then show ?thesis
    by (auto simp: relocate_target_def strip_prefix_def)
qed

definition stable_prefix :: "string \<Rightarrow> bool" where
  "stable_prefix p \<longleftrightarrow> (\<forall>t. relocate_target p (relocate_target p t) = relocate_target p t)"

lemma stable_components: "stable_prefix COMPONENTS_SCHEMAS_PREFIX"
  by (simp add: stable_prefix_def relocate_target_idem)

lemma relocate_idem:
  "stable_prefix p \<Longrightarrow> relocate_refs p (relocate_refs p j) = relocate_refs p j"
  "stable_prefix p \<Longrightarrow> relocate_obj p (relocate_obj p m) = relocate_obj p m"
  "stable_prefix p \<Longrightarrow> relocate_arr p (relocate_arr p xs) = relocate_arr p xs"
proof (induction p j and p m and p xs rule: relocate_refs_relocate_obj_relocate_arr.induct)
  case (5 p k v m)
  then show ?case by (cases v) (auto simp: stable_prefix_def)
qed auto

text \<open>The schema of a type does not depend on the definitions collected so far.\<close>

lemma fields_loop_root:
  assumes "\<And>f ds ds' j j' e e'. f \<in> set fs \<Longrightarrow> conv (unwrap_optional (fl_ty f)) ds = Ok (j, e) \<Longrightarrow>
      conv' (unwrap_optional (fl_ty f)) ds' = Ok (j', e') \<Longrightarrow> j = j'"
  shows "fields_loop cc conv fs ps rq ds = Ok (a, b, e) \<Longrightarrow>
    fields_loop cc conv' fs ps rq ds' = Ok (a', b', e') \<Longrightarrow> a = a' \<and> b = b'"
  using assms
proof (induction fs arbitrary: ps rq ds ds')
  case (Cons f fs)
  from Cons.prems(1) obtain j1 e1 where 1: "conv (unwrap_optional (fl_ty f)) ds = Ok (j1, e1)"
    by (auto simp: Let_def split: result.splits)
  from Cons.prems(2) obtain j2 e2 where 2: "conv' (unwrap_optional (fl_ty f)) ds' = Ok (j2, e2)"
    by (auto simp: Let_def split: result.splits)
  have "j1 = j2" using Cons.prems(3) 1 2 by fastforce
  with 1 2 Cons.prems(1,2) show ?case
    by (auto simp: Let_def intro!: Cons.IH [THEN conjunct1] Cons.IH [THEN conjunct2]
        dest: Cons.prems(3) [rotated])
qed auto

lemma to_json_schema_root:
  "to_json_schema cc reg n t ds = Ok (j, e) \<Longrightarrow> to_json_schema cc reg m t ds' = Ok (j', e') \<Longrightarrow> j = j'"
proof (induction n arbitrary: m t ds ds' j j' e e')
  case (Suc n)
  then obtain m' where m: "m = Suc m'" by (cases m) auto
  show ?case
  proof (cases t)
    case (Vec u)
    with Suc m show ?thesis by fastforce
  next
    case (Optional u)
    with Suc m show ?thesis by fastforce
  next
    case (StructRef name)
    with Suc m show ?thesis by (auto split: option.splits)
  next
    case (StructTable name)
    with Suc m show ?thesis by (fastforce split: option.splits)
  qed (use Suc.prems m in \<open>auto simp: Let_def split: option.splits if_splits ty.splits\<close>)
qed simp

lemma fields_to_object_schema_root:
  "fields_to_object_schema cc reg n fs ds = Ok (j, e) \<Longrightarrow>
     fields_to_object_schema cc reg n fs ds' = Ok (j', e') \<Longrightarrow> j = j'"
  using fields_loop_root [of fs "to_json_schema cc reg n" "to_json_schema cc reg n", OF to_json_schema_root]
  by (fastforce simp: fields_to_object_schema_def fields_with_def)

lemma fields_to_object_schema_sound:
  "fields_to_object_schema cc reg n fs ds = Ok r \<Longrightarrow> obj_wf ds \<Longrightarrow> converts ds r"
  unfolding fields_to_object_schema_def by (rule fields_with_sound [OF to_json_schema_sound])

lemma in_context_Ok [simp]: "in_context c r = Ok x \<longleftrightarrow> r = Ok x"
  by (cases "(c, r)" rule: in_context.cases) auto

text \<open>The object schema over \<open>fs\<close>, built from scratch, refers only to names in \<open>D\<close>.\<close>

definition covered :: "casing \<Rightarrow> type_registry \<Rightarrow> nat \<Rightarrow> string set \<Rightarrow> field list \<Rightarrow> bool" where
  "covered cc reg n D fs \<longleftrightarrow>
     (\<forall>j e. fields_to_object_schema cc reg n fs [] = Ok (j, e) \<longrightarrow> sound_schema D j)"

lemma covered_mono: "covered cc reg n D fs \<Longrightarrow> D \<subseteq> D' \<Longrightarrow> covered cc reg n D' fs"
  by (auto simp: covered_def intro: sound_schema_mono)

lemma covered_by:
  assumes "fields_to_object_schema cc reg n fs ds = Ok (j, ds')" and "obj_wf ds"
  shows "grows ds ds' \<and> covered cc reg n (dom (obj_get ds')) fs"
  using fields_to_object_schema_sound [OF assms] fields_to_object_schema_root [OF assms(1)]
  by (auto simp: converts_def covered_def)

lemma grows_wf: "grows ds ds' \<Longrightarrow> obj_wf ds'"
  by (simp add: grows_def)

lemma collect_errors_grows: "collect_errors cc reg n ep es ds = Ok ds' \<Longrightarrow> obj_wf ds \<Longrightarrow> grows ds ds'"
proof (induction es arbitrary: ds)
  case (Cons e es)
  then obtain j ds1 where 1: "fields_to_object_schema cc reg n (ee_fields e) ds = Ok (j, ds1)"
    and 2: "collect_errors cc reg n ep es ds1 = Ok ds'"
    by (auto split: result.splits)
  from covered_by [OF 1 Cons.prems(2)] have g: "grows ds ds1" by simp
  from Cons.IH [OF 2 grows_wf [OF g]] show ?case
    by (rule grows_trans [OF g])
qed (simp add: grows_refl)

definition endpoint_covered :: "casing \<Rightarrow> type_registry \<Rightarrow> nat \<Rightarrow> string set \<Rightarrow> endpoint_schema \<Rightarrow> bool" where
  "endpoint_covered cc reg n D e \<longleftrightarrow>
     covered cc reg n D (ep_parameters e) \<and> covered cc reg n D (ep_returns e)"

lemma collect_endpoint_grows:
  assumes "collect_endpoint cc reg n e ds = Ok ds'" and wf: "obj_wf ds"
  shows "grows ds ds' \<and> endpoint_covered cc reg n (dom (obj_get ds')) e"
proof -
  from assms(1) obtain j1 ds1 j2 ds2 ds3 where
    1: "fields_to_object_schema cc reg n (ep_parameters e) ds = Ok (j1, ds1)" and
    2: "fields_to_object_schema cc reg n (ep_returns e) ds1 = Ok (j2, ds2)" and
    3: "case ep_stream_response e of None \<Rightarrow> ds3 = ds2
        | Some t \<Rightarrow> \<exists>j. to_json_schema cc reg n t ds2 = Ok (j, ds3)" and
    4: "collect_errors cc reg n (ep_name e) (ep_errors e) ds3 = Ok ds'"
    by (cases "ep_stream_response e") (auto simp: collect_endpoint_def)
  note c1 = covered_by [OF 1 wf]
  note c2 = covered_by [OF 2 grows_wf [OF c1 [THEN conjunct1]]]
  have g3: "grows ds2 ds3"
    using 3 grows_wf [OF c2 [THEN conjunct1]] to_json_schema_sound [of cc reg n _ ds2]
    by (auto simp: grows_refl converts_def split: option.splits)
  have g4: "grows ds3 ds'"
    using collect_errors_grows [OF 4 grows_wf [OF g3]] .
  have "grows ds2 ds'" "grows ds1 ds'"
    using g3 g4 c2 grows_trans by blast+
  with c1 c2 grows_trans show ?thesis
    unfolding endpoint_covered_def by (meson covered_mono grows_dom)
qed

lemma collect_loop_grows:
  "collect_loop cc reg n es ds = Ok ds' \<Longrightarrow> obj_wf ds \<Longrightarrow>
     grows ds ds' \<and> (\<forall>e \<in> set es. endpoint_covered cc reg n (dom (obj_get ds')) e)"
proof (induction es arbitrary: ds)
  case (Cons e es)
  then obtain ds1 where 1: "collect_endpoint cc reg n e ds = Ok ds1"
    and 2: "collect_loop cc reg n es ds1 = Ok ds'" by auto
  note c = collect_endpoint_grows [OF 1 Cons.prems(2)]
  note ih = Cons.IH [OF 2 grows_wf [OF c [THEN conjunct1]]]
  have "endpoint_covered cc reg n (dom (obj_get ds')) e"
    using c ih covered_mono grows_dom unfolding endpoint_covered_def by blast
  with c ih grows_trans show ?case by auto
qed (simp add: grows_refl)

lemma obj_get_relocate_values:
  "obj_get (relocate_values p ds) k = map_option (relocate_refs p) (obj_get ds k)"
  by (induction ds) (auto simp: relocate_values_def obj_get_def)

lemma refs_in_relocated:
  assumes "refs_in D j"
  shows "set (collect_refs (relocate_refs p j)) \<subseteq> (\<lambda>d. p @ d) ` D"
  using assms by (force simp: refs_in_def collect_relocate)

section \<open>Annotations\<close>

lemma apply_meta_loop_Ok:
  "apply_meta_loop ctxt meta m = Ok m' \<longleftrightarrow>
     (\<forall>kv \<in> set meta. meta_key_ok (fst kv)) \<and> m' = obj.extend meta m"
  by (induction meta arbitrary: m) (auto simp: obj.extend_def)

lemma meta_key_not_ref [simp]: "\<not> meta_key_ok ''$ref''" "\<not> meta_key_ok ''$defs''"
  by (simp_all add: meta_key_ok_def starts_with_def RECOGNISED_META_KEYS_def)

lemma set_extend: "set (obj.extend kvs m) \<subseteq> set m \<union> set kvs"
proof (induction kvs arbitrary: m)
  case (Cons kv kvs)
  then show ?case
    using set_obj_insert [of "fst kv" "snd kv" m] by (cases kv) fastforce
qed simp

definition plain_meta :: "meta_map \<Rightarrow> bool" where
  "plain_meta meta \<longleftrightarrow> (\<forall>(k, v) \<in> set meta. collect_refs v = [])"

lemma apply_meta_refs:
  assumes "apply_meta target meta ctxt = Ok target'" and "plain_meta meta"
  shows "set (collect_refs target') \<subseteq> set (collect_refs target) \<and> (is_jobj target \<longrightarrow> is_jobj target')"
proof (cases "meta_is_empty meta")
  case False
  with assms(1) obtain m where m: "target = JObj m" "target' = JObj (obj.extend meta m)"
    and ok: "\<forall>kv \<in> set meta. meta_key_ok (fst kv)"
    by (auto simp: apply_meta_def apply_meta_loop_Ok split: json.splits)
  have "map_of (rev meta) ''$ref'' = None"
    using ok meta_key_not_ref(1) by (force simp: map_of_eq_None_iff)
  then have "obj_get (obj.extend meta m) ''$ref'' = obj_get m ''$ref''"
    by (simp add: obj.get_extend)
  moreover have "set (collect_refs_obj (obj.extend meta m)) \<subseteq> set (collect_refs_obj m)"
    using set_extend [of meta m] assms(2) by (fastforce simp: set_collect_refs_obj plain_meta_def)
  ultimately show ?thesis
    unfolding m by auto
qed (use assms in \<open>auto simp: apply_meta_def\<close>)

lemma refs_child: "obj_get m k = Some v \<Longrightarrow> set (collect_refs v) \<subseteq> set (collect_refs (JObj m))"
  by (force simp: obj_get_def set_collect_refs_obj dest: map_of_SomeD)

lemma refs_obj_insert:
  assumes "is_jobj v"
  shows "set (collect_refs (JObj (obj_insert k v m))) \<subseteq> set (collect_refs (JObj m)) \<union> set (collect_refs v)"
  using assms set_obj_insert [of k v m]
  by (cases v) (fastforce simp: set_collect_refs_obj split: option.splits json.splits if_splits)+

lemma jget_refs: "jget s k = Some v \<Longrightarrow> set (collect_refs v) \<subseteq> set (collect_refs s)"
  by (cases s) (simp_all add: refs_child del: collect_refs.simps)

lemma set_property_refs:
  assumes "is_jobj v"
  shows "set (collect_refs (set_property s key v)) \<subseteq> set (collect_refs s) \<union> set (collect_refs v)"
proof (cases "(s, key, v)" rule: set_property.cases)
  case (1 m key' v')
  then have s: "s = JObj m" by simp
  show ?thesis
  proof (cases "\<exists>ps. obj_get m ''properties'' = Some (JObj ps)")
    case True
    then obtain ps where ps: "obj_get m ''properties'' = Some (JObj ps)" ..
    have "set_property s key v = JObj (obj_insert ''properties'' (JObj (obj_insert key v ps)) m)"
      using s ps by simp
    with refs_obj_insert [of "JObj (obj_insert key v ps)" "''properties''" m]
      refs_obj_insert [OF assms, of key ps] refs_child [OF ps] s
    show ?thesis by (auto simp del: collect_refs.simps)
  next
    case False
    then have "set_property s key v = s"
      using s by (auto split: option.splits json.splits)
    then show ?thesis by simp
  qed
qed auto

lemma apply_field_meta_refs:
  assumes "\<forall>f \<in> set fs. plain_meta (fl_meta f)"
  shows "apply_field_meta cc s fs ctxt = Ok s' \<Longrightarrow> set (collect_refs s') \<subseteq> set (collect_refs s)"
  using assms
proof (induction fs arbitrary: s)
  case (Cons f fs)
  show ?case
  proof (cases "meta_is_empty (fl_meta f) \<or> get_property s (field_key cc f) = None")
    case False
    then obtain p where p: "get_property s (field_key cc f) = Some p"
      and ne: "\<not> meta_is_empty (fl_meta f)" by auto
    with Cons.prems(1) obtain p' where
      p': "apply_meta p (fl_meta f) (ctxt @ '': field `'' @ fl_name f @ ''`'') = Ok p'"
      and rest: "apply_field_meta cc (set_property s (field_key cc f) p') fs ctxt = Ok s'"
      by (auto split: if_splits result.splits)
    have "is_jobj p"
      using p' ne by (auto simp: apply_meta_def split: json.splits)
    with apply_meta_refs [OF p'] Cons.prems(2) have
      "is_jobj p'" "set (collect_refs p') \<subseteq> set (collect_refs p)" by auto
    moreover have "set (collect_refs p) \<subseteq> set (collect_refs s)"
      using p by (auto simp: get_property_def bind_eq_Some_conv dest: jget_refs)
    ultimately show ?thesis
      using Cons.IH [OF rest] Cons.prems(2) set_property_refs [of p' s "field_key cc f"] by auto
  qed (use Cons in \<open>auto split: option.splits\<close>)
qed simp

section \<open>Properties\<close>

definition points_into :: "string \<Rightarrow> string set \<Rightarrow> json \<Rightarrow> bool" where
  "points_into prefix D j \<longleftrightarrow> set (collect_refs j) \<subseteq> (\<lambda>d. prefix @ d) ` D"

lemma components_object_schema_points:
  assumes "covered cc reg n D fs" and "\<forall>f \<in> set fs. plain_meta (fl_meta f)"
    and "components_object_schema cc fs reg n ctxt = Ok j"
  shows "points_into COMPONENTS_SCHEMAS_PREFIX D j"
proof -
  from assms(3) obtain s e where s: "fields_to_object_schema cc reg n fs [] = Ok (s, e)"
    and j: "apply_field_meta cc (relocate_refs COMPONENTS_SCHEMAS_PREFIX s) fs ctxt = Ok j"
    by (auto simp: components_object_schema_def split: result.splits)
  have "refs_in D s"
    using assms(1) s by (auto simp: covered_def sound_schema_def)
  from refs_in_relocated [OF this] apply_field_meta_refs [OF assms(2) j] show ?thesis
    unfolding points_into_def by blast
qed

text \<open>
  C36. A collected document has no dangling reference: every \<open>$ref\<close> in its component schemas, and
  every \<open>$ref\<close> in the request and response schema of each collected endpoint, is
  \<open>#/components/schemas/\<close> followed by the name of a component that is present. The request and
  response schemas are built with a definition map of their own that is thrown away, and still
  resolve against the shared components; annotations must not bring references of their own.
  Relocating a second time changes nothing.
\<close>
theorem api_document_closed:
  assumes "collect cc es reg n = Ok comps" and "e \<in> set es"
    and "\<forall>f \<in> set (ep_parameters e) \<union> set (ep_returns e). plain_meta (fl_meta f)"
  shows "(\<forall>d j. obj_get (schemas comps) d = Some j \<longrightarrow>
      points_into COMPONENTS_SCHEMAS_PREFIX (dom (obj_get (schemas comps))) j \<and>
      relocate_refs COMPONENTS_SCHEMAS_PREFIX j = j) \<and>
    (\<forall>j. request_schema cc e reg n = Ok j \<or> response_schema cc e reg n = Ok j \<longrightarrow>
      points_into COMPONENTS_SCHEMAS_PREFIX (dom (obj_get (schemas comps))) j)"
proof -
  from assms(1) obtain ds where l: "collect_loop cc reg n es [] = Ok ds"
    and c: "schemas comps = relocate_values COMPONENTS_SCHEMAS_PREFIX ds"
    by (auto simp: collect_def)
  have dom: "dom (obj_get (schemas comps)) = dom (obj_get ds)"
    unfolding c by (auto simp: obj_get_relocate_values dom_def)
  note g = collect_loop_grows [OF l obj_wf_Nil]
  have comps: "points_into COMPONENTS_SCHEMAS_PREFIX (dom (obj_get ds)) j \<and>
      relocate_refs COMPONENTS_SCHEMAS_PREFIX j = j"
    if dj: "obj_get (schemas comps) d = Some j" for d j
  proof -
    obtain v where v: "obj_get ds d = Some v" "j = relocate_refs COMPONENTS_SCHEMAS_PREFIX v"
      using dj unfolding c by (auto simp: obj_get_relocate_values)
    then have "refs_in (dom (obj_get ds)) v"
      using g by (auto simp: grows_def sound_schema_def)
    with v(2) refs_in_relocated relocate_idem(1) [OF stable_components] show ?thesis
      by (simp add: points_into_def)
  qed
  have "covered cc reg n (dom (obj_get ds)) (ep_parameters e)"
    "covered cc reg n (dom (obj_get ds)) (ep_returns e)"
    using g assms(2) by (auto simp: endpoint_covered_def)
  with assms(3) components_object_schema_points comps show ?thesis
    unfolding dom request_schema_def response_schema_def by blast
qed

lemma node_document: "\<exists>comps. collect plain_casing [node_endpoint] node_registry 8 = Ok comps \<and>
    dom (obj_get (schemas comps)) = {''Node''}"
proof -
  have "\<exists>s. collect_loop plain_casing node_registry 8 [node_endpoint] [] = Ok [(''Node'', s)]"
    by (rule exI, code_simp)
  then show ?thesis
    by (auto simp: collect_def relocate_values_def obj_get_def split: if_splits)
qed

theorem api_document_closed_witness:
  "\<exists>comps. collect plain_casing [node_endpoint] node_registry 8 = Ok comps \<and>
    (\<forall>d j. obj_get (schemas comps) d = Some j \<longrightarrow>
       points_into COMPONENTS_SCHEMAS_PREFIX {''Node''} j)"
proof -
  have plain: "\<forall>f \<in> set (ep_parameters node_endpoint) \<union> set (ep_returns node_endpoint). plain_meta (fl_meta f)"
    by (simp add: node_endpoint_def endpoint_new_def field_new_def plain_meta_def)
  from node_document obtain comps where
    c: "collect plain_casing [node_endpoint] node_registry 8 = Ok comps"
    and d: "dom (obj_get (schemas comps)) = {''Node''}" by blast
  from api_document_closed [OF c _ plain] d c show ?thesis
    by auto
qed

text \<open>
  \<open>apply_meta\<close> on an object succeeds exactly when every key of the annotations is an \<open>x-\<close>
  extension or one of the mapped keywords; the result then answers every annotated key with the
  annotation and every other key as before. A typo is an error, never a silently dropped key.
\<close>
theorem apply_meta_spec:
  "(\<exists>t. apply_meta (JObj m) meta ctxt = Ok t) = (\<forall>kv \<in> set meta. meta_key_ok (fst kv)) \<and>
   (\<forall>t. apply_meta (JObj m) meta ctxt = Ok t \<longrightarrow>
      (\<forall>k. jget t k = (case map_of (rev meta) k of Some v \<Rightarrow> Some v | None \<Rightarrow> obj_get m k)))"
  by (cases "meta = []")
    (auto simp: apply_meta_def meta_is_empty_def apply_meta_loop_Ok obj.get_extend)

theorem apply_meta_spec_witness:
  "Option.bind (result_ok (apply_meta (JObj [(''type'', JStr ''integer'')])
      [(''minimum'', JInt 1), (''x-unit'', JStr ''ms'')] [])) (\<lambda>t. jget t ''minimum'') = Some (JInt 1)"
proof -
  let ?meta = "[(''minimum'', JInt 1), (''x-unit'', JStr ''ms'')]"
  obtain t where t: "apply_meta (JObj [(''type'', JStr ''integer'')]) ?meta [] = Ok t"
    using apply_meta_spec [of "[(''type'', JStr ''integer'')]" ?meta "[]"]
    by (auto simp: meta_key_ok_def starts_with_def RECOGNISED_META_KEYS_def)
  with apply_meta_spec [of "[(''type'', JStr ''integer'')]" ?meta "[]"] show ?thesis
    by simp
qed

end
