(* ===== verification/Signal.thy ===== *)
theory Signal
  imports Prelude
begin

text \<open>
  \<open>src/libs/signal.rs\<close>: the shutdown flag. \<open>cancel\<close> is two actions, the store and the broadcast, and
  \<open>cancelled\<close> is a loop of three, registration, the read of the flag and the wait; other tasks run
  between them. \<open>Notify\<close> is the runtime's: \<open>notify_waiters\<close> wakes the waiters that are registered
  at that moment and leaves nothing behind for later ones, and \<open>enable\<close> either registers the waiter
  or reports a wake it already has. Then the process signals that raise the flag.
\<close>

section \<open>The flag\<close>

datatype waiter =
    Start
  | Enabled bool
  | Waiting
  | Woken
  | Returned

datatype canceller = Before | Stored | Notified

record shutdown =
  cancelled :: bool
  registered :: "nat set"
  waiters :: "nat \<Rightarrow> waiter"
  cancel_calls :: "nat \<Rightarrow> canceller"

definition shutdown_new :: shutdown where
  "shutdown_new =
     \<lparr>cancelled = False, registered = {}, waiters = (\<lambda>_. Start), cancel_calls = (\<lambda>_. Before)\<rparr>"

definition is_cancelled :: "shutdown \<Rightarrow> bool" where
  "is_cancelled s = cancelled s"

text \<open>The two actions of \<open>cancel\<close>.\<close>

definition cancel_store :: "nat \<Rightarrow> shutdown \<Rightarrow> shutdown" where
  "cancel_store c s = s\<lparr>cancelled := True, cancel_calls := (cancel_calls s)(c := Stored)\<rparr>"

definition cancel_notify :: "nat \<Rightarrow> shutdown \<Rightarrow> shutdown" where
  "cancel_notify c s =
     s\<lparr>registered := {},
       waiters := (\<lambda>w. if w \<in> registered s \<and> waiters s w = Waiting then Woken else waiters s w),
       cancel_calls := (cancel_calls s)(c := Notified)\<rparr>"

text \<open>
  One pass of the loop in \<open>cancelled\<close>. \<open>Enabled True\<close> is the branch where \<open>enable\<close> reported a wake;
  a broadcast that arrives while the waiter is registered but not yet waiting is reported by the
  wait itself, which then returns at once.
\<close>

inductive sig_step :: "shutdown \<Rightarrow> shutdown \<Rightarrow> bool" where
  store: "cancel_calls s c = Before \<Longrightarrow> sig_step s (cancel_store c s)"
| notify: "cancel_calls s c = Stored \<Longrightarrow> sig_step s (cancel_notify c s)"
| enable: "waiters s w = Start \<Longrightarrow>
    sig_step s (s\<lparr>registered := insert w (registered s), waiters := (waiters s)(w := Enabled False)\<rparr>)"
| enable_woken: "waiters s w = Start \<Longrightarrow>
    sig_step s (s\<lparr>waiters := (waiters s)(w := Enabled True)\<rparr>)"
| check_return: "waiters s w = Enabled b \<Longrightarrow> is_cancelled s \<Longrightarrow>
    sig_step s (s\<lparr>registered := registered s - {w}, waiters := (waiters s)(w := Returned)\<rparr>)"
| check_continue: "waiters s w = Enabled True \<Longrightarrow> \<not> is_cancelled s \<Longrightarrow>
    sig_step s (s\<lparr>registered := registered s - {w}, waiters := (waiters s)(w := Start)\<rparr>)"
| check_wait: "waiters s w = Enabled False \<Longrightarrow> \<not> is_cancelled s \<Longrightarrow> w \<in> registered s \<Longrightarrow>
    sig_step s (s\<lparr>waiters := (waiters s)(w := Waiting)\<rparr>)"
| check_wait_woken: "waiters s w = Enabled False \<Longrightarrow> \<not> is_cancelled s \<Longrightarrow> w \<notin> registered s \<Longrightarrow>
    sig_step s (s\<lparr>waiters := (waiters s)(w := Woken)\<rparr>)"
| woken: "waiters s w = Woken \<Longrightarrow> sig_step s (s\<lparr>waiters := (waiters s)(w := Start)\<rparr>)"

inductive sig_reach :: "shutdown \<Rightarrow> bool" where
  init: "sig_reach shutdown_new"
| step: "sig_reach s \<Longrightarrow> sig_step s s' \<Longrightarrow> sig_reach s'"

text \<open>
  A waiter that sleeps is registered, and while a sleeper exists either the flag is unset or some
  \<open>cancel\<close> has stored the flag and its broadcast is still to come.
\<close>

definition sig_inv :: "shutdown \<Rightarrow> bool" where
  "sig_inv s \<longleftrightarrow>
     (\<forall>w. waiters s w = Waiting \<longrightarrow>
        w \<in> registered s \<and> (cancelled s \<longrightarrow> (\<exists>c. cancel_calls s c = Stored))) \<and>
     (\<forall>w. waiters s w = Returned \<longrightarrow> cancelled s) \<and>
     (\<forall>c. cancel_calls s c \<noteq> Before \<longrightarrow> cancelled s)"

lemma sig_inv_begun: "sig_inv s \<Longrightarrow> cancel_calls s c \<noteq> Before \<Longrightarrow> cancelled s"
  by (auto simp: sig_inv_def)

lemma sig_step_inv: "sig_step s s' \<Longrightarrow> sig_inv s \<Longrightarrow> sig_inv s'"
proof (induction rule: sig_step.induct)
  case (store s c)
  have "\<exists>d. cancel_calls (cancel_store c s) d = Stored"
    by (rule exI [of _ c]) (simp add: cancel_store_def)
  moreover have "w \<in> registered (cancel_store c s)" if "waiters (cancel_store c s) w = Waiting" for w
    using store that by (simp add: sig_inv_def cancel_store_def)
  moreover have "cancelled (cancel_store c s)"
    by (simp add: cancel_store_def)
  ultimately show ?case
    unfolding sig_inv_def by simp
next
  case (notify s c)
  then have "waiters (cancel_notify c s) w \<noteq> Waiting" for w
    by (auto simp: sig_inv_def cancel_notify_def)
  moreover have "cancelled (cancel_notify c s)"
    using notify sig_inv_begun [of s c] by (simp add: cancel_notify_def)
  ultimately show ?case
    unfolding sig_inv_def by blast
qed (auto simp: sig_inv_def is_cancelled_def)

lemma sig_reach_inv: "sig_reach s \<Longrightarrow> sig_inv s"
  by (induction rule: sig_reach.induct)
    (auto simp: sig_step_inv, simp add: sig_inv_def shutdown_new_def)

text \<open>How many own actions a waiter needs once the flag is set and no broadcast is pending.\<close>

fun steps_left :: "waiter \<Rightarrow> nat" where
  "steps_left Returned = 0"
| "steps_left (Enabled _) = 1"
| "steps_left Start = 2"
| "steps_left Woken = 3"
| "steps_left Waiting = 4"

definition own_step :: "nat \<Rightarrow> shutdown \<Rightarrow> shutdown \<Rightarrow> bool" where
  "own_step w s s' \<longleftrightarrow> sig_step s s' \<and> waiters s' w \<noteq> waiters s w"

lemma progress_when_cancelled:
  assumes "cancelled s" and "waiters s w \<noteq> Returned" and "waiters s w \<noteq> Waiting"
  shows "\<exists>s'. own_step w s s' \<and> steps_left (waiters s' w) < steps_left (waiters s w) \<and> cancelled s'"
proof (cases "waiters s w")
  case Start
  with assms sig_step.enable [of s w] show ?thesis
    by (intro exI [of _ "s\<lparr>registered := insert w (registered s), waiters := (waiters s)(w := Enabled False)\<rparr>"])
      (simp add: own_step_def)
next
  case (Enabled b)
  with assms sig_step.check_return [of s w b] show ?thesis
    by (intro exI [of _ "s\<lparr>registered := registered s - {w}, waiters := (waiters s)(w := Returned)\<rparr>"])
      (simp add: own_step_def is_cancelled_def)
next
  case Woken
  with assms sig_step.woken [of s w] show ?thesis
    by (intro exI [of _ "s\<lparr>waiters := (waiters s)(w := Start)\<rparr>"]) (simp add: own_step_def)
qed (use assms in auto)

lemma never_back_to_sleep:
  assumes "sig_step s s'" and "cancelled s" and "waiters s w \<noteq> Waiting"
  shows "cancelled s' \<and> waiters s' w \<noteq> Waiting \<and> steps_left (waiters s' w) \<le> steps_left (waiters s w)"
  using assms
  by (induction rule: sig_step.induct)
    (auto simp: cancel_store_def cancel_notify_def is_cancelled_def)

text \<open>
  C38. No cancellation is lost, whatever way the waiters and the calls of \<open>cancel\<close> interleave. A task
  that waits for the flag returns only after a \<open>cancel\<close>; once some \<open>cancel\<close> has begun and every begun
  \<open>cancel\<close> has finished its broadcast, no task is asleep any more; and from then on no step puts it back
  to sleep or takes it further from returning, while each task that has not returned has a step of
  its own that brings it closer.
\<close>
theorem shutdown_no_lost_cancel:
  assumes "sig_reach s"
  shows "(waiters s w = Returned \<longrightarrow> is_cancelled s) \<and>
    (cancel_calls s c = Notified \<and> (\<forall>d. cancel_calls s d \<noteq> Stored) \<and> waiters s w \<noteq> Returned \<longrightarrow>
       waiters s w \<noteq> Waiting \<and>
       (\<exists>s'. own_step w s s' \<and> steps_left (waiters s' w) < steps_left (waiters s w)) \<and>
       (\<forall>s'. sig_step s s' \<longrightarrow>
          waiters s' w \<noteq> Waiting \<and> steps_left (waiters s' w) \<le> steps_left (waiters s w)))"
proof -
  note inv = sig_reach_inv [OF assms, unfolded sig_inv_def]
  have "waiters s w \<noteq> Waiting" "cancelled s"
    if "cancel_calls s c = Notified" "\<forall>d. cancel_calls s d \<noteq> Stored"
    using inv that by (metis canceller.distinct(3))+
  with inv progress_when_cancelled [of s w] never_back_to_sleep [of s _ w] show ?thesis
    by (auto simp: is_cancelled_def)
qed

definition woken_shutdown :: shutdown where
  "woken_shutdown =
     \<lparr>cancelled = True, registered = {}, waiters = (\<lambda>_. Start)(0 := Woken),
      cancel_calls = (\<lambda>_. Before)(0 := Notified)\<rparr>"

lemma woken_shutdown_reachable: "sig_reach woken_shutdown"
proof -
  have "sig_reach (shutdown_new\<lparr>registered := {0}, waiters := (\<lambda>_. Start)(0 := Enabled False)\<rparr>)"
    using sig_reach.step [OF sig_reach.init sig_step.enable [of shutdown_new 0]]
    by (simp add: shutdown_new_def)
  from sig_reach.step [OF this sig_step.check_wait [of _ 0]] have
    "sig_reach (shutdown_new\<lparr>registered := {0}, waiters := (\<lambda>_. Start)(0 := Waiting)\<rparr>)"
    by (simp add: shutdown_new_def is_cancelled_def)
  from sig_reach.step [OF this sig_step.store [of _ 0]] have
    "sig_reach (cancel_store 0 (shutdown_new\<lparr>registered := {0}, waiters := (\<lambda>_. Start)(0 := Waiting)\<rparr>))"
    by (simp add: shutdown_new_def)
  from sig_reach.step [OF this sig_step.notify [of _ 0]] show ?thesis
    by (simp add: shutdown_new_def cancel_store_def cancel_notify_def woken_shutdown_def fun_upd_def
        if_distrib cong: if_cong)
qed

theorem shutdown_no_lost_cancel_witness:
  "waiters woken_shutdown 0 = Woken \<and>
   (\<exists>s'. own_step 0 woken_shutdown s' \<and> steps_left (waiters s' 0) < 3)"
  using shutdown_no_lost_cancel [OF woken_shutdown_reachable, of 0 0]
  by (auto simp: woken_shutdown_def)

section \<open>Signals\<close>

text \<open>
  The waiters on SIGTERM and SIGINT are the runtime's: \<open>register\<close> and \<open>release\<close> act on its registry, and a
  waiter that is dropped is released. Whether a wait has ended (\<open>Some\<close>, with a signal or an error) is
  given when it is polled.
\<close>

datatype signal_kind = SIGTERM | SIGINT

definition init_signals ::
  "(signal_kind \<Rightarrow> 'r \<Rightarrow> ('r, 'e) result) \<Rightarrow> (signal_kind \<Rightarrow> 'r \<Rightarrow> 'r) \<Rightarrow> 'r \<Rightarrow> 'r \<times> (unit, 'e) result" where
  "init_signals register release r =
     (case register SIGTERM r of
        Err e \<Rightarrow> (r, Err e)
      | Ok r1 \<Rightarrow>
          (case register SIGINT r1 of
             Err e \<Rightarrow> (release SIGTERM r1, Err e)
           | Ok r2 \<Rightarrow> (r2, Ok ())))"

text \<open>\<open>select\<close> takes its left arm, SIGTERM, if that is ready.\<close>

fun select_signal :: "'a option \<Rightarrow> 'a option \<Rightarrow> signal_kind option" where
  "select_signal (Some _) _ = Some SIGTERM"
| "select_signal None (Some _) = Some SIGINT"
| "select_signal None None = None"

definition get_terminate_flag :: "shutdown \<Rightarrow> bool" where "get_terminate_flag s = is_cancelled s"

text \<open>The flag is raised by the caller numbered \<open>c\<close>, both actions in a row; the log is what was written.\<close>

definition set_terminate_flag :: "nat \<Rightarrow> shutdown \<Rightarrow> shutdown" where
  "set_terminate_flag c s = cancel_notify c (cancel_store c s)"

definition inform_terminate :: "nat \<Rightarrow> signal_kind \<Rightarrow> shutdown \<Rightarrow> shutdown \<times> signal_kind list" where
  "inform_terminate c alias s = (if \<not> get_terminate_flag s then (set_terminate_flag c s, [alias]) else (s, []))"

definition wait_for_signals ::
  "nat \<Rightarrow> 'a option \<Rightarrow> 'a option \<Rightarrow> shutdown \<Rightarrow> shutdown \<times> signal_kind list \<times> bool" where
  "wait_for_signals c sigterm sigint s =
     (case select_signal sigterm sigint of
        Some k \<Rightarrow> (case inform_terminate c k s of (s', log) \<Rightarrow> (s', log, True))
      | None \<Rightarrow> (s, [], False))"

definition signal_received_silent ::
  "(signal_kind \<Rightarrow> 'r \<Rightarrow> ('r, 'e) result) \<Rightarrow> (signal_kind \<Rightarrow> 'r \<Rightarrow> 'r) \<Rightarrow> 'r \<Rightarrow> 'a option \<Rightarrow> 'a option
    \<Rightarrow> 'r \<times> (unit, 'e) result poll" where
  "signal_received_silent register release r sigterm sigint =
     (case init_signals register release r of
        (r', Err e) \<Rightarrow> (r', Ready (Err e))
      | (r', Ok _) \<Rightarrow>
          (case select_signal sigterm sigint of
             Some _ \<Rightarrow> (release SIGTERM (release SIGINT r'), Ready (Ok ()))
           | None \<Rightarrow> (r', Pending)))"

text \<open>Waiting ends with the flag raised, which stays raised, and the first signal alone is logged.\<close>

lemma wait_for_signals_sets_flag:
  "wait_for_signals c sigterm sigint s = (s', log, True) \<Longrightarrow>
     get_terminate_flag s' \<and> (log = [] \<longleftrightarrow> get_terminate_flag s) \<and>
     (sigterm \<noteq> None \<longrightarrow> set log \<subseteq> {SIGTERM})"
  by (cases "(sigterm, sigint)" rule: select_signal.cases)
    (auto simp: wait_for_signals_def inform_terminate_def get_terminate_flag_def set_terminate_flag_def
      is_cancelled_def cancel_store_def cancel_notify_def split: if_splits)

lemma set_terminate_flag_steps:
  "cancel_calls s c = Before \<Longrightarrow> sig_step\<^sup>*\<^sup>* s (set_terminate_flag c s)"
proof -
  assume "cancel_calls s c = Before"
  then have "sig_step s (cancel_store c s)" by (rule store)
  moreover have "sig_step (cancel_store c s) (set_terminate_flag c s)"
    unfolding set_terminate_flag_def by (rule notify) (simp add: cancel_store_def)
  ultimately show ?thesis
    by (meson converse_rtranclp_into_rtranclp r_into_rtranclp)
qed

text \<open>A registry where each signal has one waiter: failing to get both leaves none behind.\<close>

lemma init_signals_all_or_nothing:
  assumes "register = (\<lambda>k r. if k \<in> r then Err e else Ok (insert k r))" and "release = (\<lambda>k r. r - {k})"
    and "init_signals register release r = (r', res)"
  shows "(res = Ok () \<longrightarrow> r' = {SIGTERM, SIGINT} \<union> r \<and> r \<inter> {SIGTERM, SIGINT} = {}) \<and> (res \<noteq> Ok () \<longrightarrow> r' = r)"
  using assms by (auto simp: init_signals_def split: if_splits)

end
