(* ===== verification/Peer.thy ===== *)
theory Peer
  imports Prelude
begin

text \<open>
  \<open>src/libs/peer.rs\<close>: who is on the other end of a connection, and \<open>Extensions\<close>, the type-keyed
  map of a connection or request. A stored box remembers the dynamic type of its value, so that
  \<open>downcast\<close> can fail; \<open>ext_inv\<close> is what makes it succeed.
\<close>

section \<open>Peer identity\<close>

datatype ip_addr = V4 u32 | V6 "128 word"

record socket_addr =
  sa_ip :: ip_addr
  sa_port :: u16

datatype attestation = NoAttestation | Verified string string

definition is_verified :: "attestation \<Rightarrow> bool" where
  "is_verified a \<longleftrightarrow> (case a of Verified _ _ \<Rightarrow> True | NoAttestation \<Rightarrow> False)"

record local_peer =
  lp_pid :: "u32 option"
  lp_uid :: "u32 option"
  lp_attestation :: attestation

datatype peer_identity = Network socket_addr | Local local_peer | Unknown

definition LOCALHOST :: ip_addr where "LOCALHOST = V4 0x7F000001"

fun peer_ip_addr :: "peer_identity \<Rightarrow> ip_addr" where
  "peer_ip_addr (Network a) = sa_ip a"
| "peer_ip_addr (Local _) = LOCALHOST"
| "peer_ip_addr Unknown = LOCALHOST"

fun peer_socket_addr :: "peer_identity \<Rightarrow> socket_addr" where
  "peer_socket_addr (Network a) = a"
| "peer_socket_addr (Local _) = \<lparr>sa_ip = LOCALHOST, sa_port = 0\<rparr>"
| "peer_socket_addr Unknown = \<lparr>sa_ip = LOCALHOST, sa_port = 0\<rparr>"

fun peer_attestation :: "peer_identity \<Rightarrow> attestation option" where
  "peer_attestation (Local p) = Some (lp_attestation p)"
| "peer_attestation _ = None"

text \<open>\<open>display\<close>; the text of a socket address is the standard library's and comes as \<open>addr_text\<close>.\<close>

fun peer_display :: "(socket_addr \<Rightarrow> string) \<Rightarrow> peer_identity \<Rightarrow> string" where
  "peer_display addr_text (Network a) = addr_text a"
| "peer_display addr_text (Local p) =
     (let pid = (case lp_pid p of None \<Rightarrow> ''?'' | Some pid \<Rightarrow> show_nat (unat pid)) in
      case lp_attestation p of
        Verified mechanism _ \<Rightarrow> ''local(pid='' @ pid @ '','' @ mechanism @ '')''
      | NoAttestation \<Rightarrow> ''local(pid='' @ pid @ '',unattested)'')"
| "peer_display addr_text Unknown = ''unknown''"

definition peer_from_addr :: "socket_addr \<Rightarrow> peer_identity" where
  "peer_from_addr a = Network a"

lemma ip_of_socket: "sa_ip (peer_socket_addr p) = peer_ip_addr p"
  by (cases p) simp_all

lemma only_local_attested:
  "peer_attestation p = Some a \<Longrightarrow> (\<exists>l. p = Local l \<and> lp_attestation l = a) \<and> peer_ip_addr p = LOCALHOST"
  by (cases p) simp_all

section \<open>Extensions\<close>

type_synonym type_id = nat

datatype 'v boxed = Boxed (box_type: type_id) (box_value: 'v)

definition downcast :: "type_id \<Rightarrow> 'v boxed \<Rightarrow> 'v option" where
  "downcast t b = (if box_type b = t then Some (box_value b) else None)"

type_synonym 'v extensions = "(type_id \<times> 'v boxed) list"

definition ext_new :: "'v extensions" where "ext_new = []"

text \<open>\<open>HashMap::insert\<close>, \<open>get\<close> and \<open>remove\<close> on the type id; the map's order is never observed.\<close>

definition ext_insert :: "type_id \<Rightarrow> 'v \<Rightarrow> 'v extensions \<Rightarrow> 'v extensions \<times> 'v option" where
  "ext_insert t v m =
     ((t, Boxed t v) # filter (\<lambda>p. fst p \<noteq> t) m, Option.bind (map_of m t) (downcast t))"

definition ext_get :: "type_id \<Rightarrow> 'v extensions \<Rightarrow> 'v option" where
  "ext_get t m = Option.bind (map_of m t) (downcast t)"

definition ext_modify :: "type_id \<Rightarrow> ('v \<Rightarrow> 'v) \<Rightarrow> 'v extensions \<Rightarrow> 'v extensions" where
  "ext_modify t f m =
     map (\<lambda>(k, b). if k = t \<and> downcast t b \<noteq> None then (k, Boxed t (f (box_value b))) else (k, b)) m"

definition ext_remove :: "type_id \<Rightarrow> 'v extensions \<Rightarrow> 'v extensions \<times> 'v option" where
  "ext_remove t m = (filter (\<lambda>p. fst p \<noteq> t) m, Option.bind (map_of m t) (downcast t))"

definition ext_contains :: "type_id \<Rightarrow> 'v extensions \<Rightarrow> bool" where
  "ext_contains t m \<longleftrightarrow> t \<in> fst ` set m"

definition ext_len :: "'v extensions \<Rightarrow> nat" where "ext_len m = length m"

definition ext_is_empty :: "'v extensions \<Rightarrow> bool" where "ext_is_empty m \<longleftrightarrow> m = []"

definition ext_inv :: "'v extensions \<Rightarrow> bool" where
  "ext_inv m \<longleftrightarrow> distinct (map fst m) \<and> (\<forall>(t, b) \<in> set m. box_type b = t)"

lemmas ext_defs = ext_new_def ext_insert_def ext_get_def ext_modify_def ext_remove_def
  ext_contains_def ext_len_def ext_inv_def downcast_def

lemma ext_inv_new: "ext_inv ext_new"
  by (simp add: ext_defs)

lemma ext_inv_insert: "ext_inv m \<Longrightarrow> ext_inv (fst (ext_insert t v m))"
  by (auto simp: ext_defs distinct_map_filter)

lemma ext_inv_remove: "ext_inv m \<Longrightarrow> ext_inv (fst (ext_remove t m))"
  by (auto simp: ext_defs distinct_map_filter)

lemma map_fst_modify: "map fst (ext_modify t f m) = map fst m"
  by (auto simp: ext_modify_def)

lemma ext_inv_modify: "ext_inv m \<Longrightarrow> ext_inv (ext_modify t f m)"
  unfolding ext_inv_def map_fst_modify by (auto simp: ext_modify_def split: if_splits)

lemma map_of_filter_key: "map_of (filter (\<lambda>p. fst p \<noteq> t) m) k = (if k = t then None else map_of m k)"
  by (induction m) auto

lemma ext_get_insert: "ext_get k (fst (ext_insert t v m)) = (if k = t then Some v else ext_get k m)"
  by (simp add: ext_defs map_of_filter_key)

lemma ext_get_remove: "ext_get k (fst (ext_remove t m)) = (if k = t then None else ext_get k m)"
  by (simp add: ext_defs map_of_filter_key)

lemma ext_contains_get:
  assumes "ext_inv m"
  shows "ext_contains t m \<longleftrightarrow> ext_get t m \<noteq> None"
proof -
  have "downcast t b \<noteq> None" if "map_of m t = Some b" for b
    using assms map_of_SomeD [OF that] by (auto simp: ext_inv_def downcast_def)
  moreover have "ext_contains t m \<longleftrightarrow> map_of m t \<noteq> None"
    by (simp add: ext_contains_def map_of_eq_None_iff)
  ultimately show ?thesis
    by (cases "map_of m t") (auto simp: ext_get_def)
qed

lemma ext_previous: "snd (ext_insert t v m) = ext_get t m" "snd (ext_remove t m) = ext_get t m"
  by (simp_all add: ext_insert_def ext_remove_def ext_get_def)

lemma ext_get_new: "ext_get t ext_new = None"
  by (simp add: ext_get_def ext_new_def)

text \<open>
  The contract the hooks and handlers rely on: a map keyed by type, in which a value is found
  again under its own type and no operation touches another type.
\<close>

locale type_map =
  fixes inv :: "'m \<Rightarrow> bool" and put :: "type_id \<Rightarrow> 'v \<Rightarrow> 'm \<Rightarrow> 'm" and del :: "type_id \<Rightarrow> 'm \<Rightarrow> 'm"
    and lookup :: "type_id \<Rightarrow> 'm \<Rightarrow> 'v option"
  assumes inv_put: "inv m \<Longrightarrow> inv (put t v m)"
    and inv_del: "inv m \<Longrightarrow> inv (del t m)"
    and lookup_put: "inv m \<Longrightarrow> lookup k (put t v m) = (if k = t then Some v else lookup k m)"
    and lookup_del: "inv m \<Longrightarrow> lookup k (del t m) = (if k = t then None else lookup k m)"
begin

text \<open>A sequence of writes: \<open>Some v\<close> stores, \<open>None\<close> removes.\<close>

fun writes :: "(type_id \<times> 'v option) list \<Rightarrow> 'm \<Rightarrow> 'm" where
  "writes [] m = m"
| "writes ((t, Some v) # ws) m = writes ws (put t v m)"
| "writes ((t, None) # ws) m = writes ws (del t m)"

lemma inv_writes: "inv m \<Longrightarrow> inv (writes ws m)"
  by (induction ws m rule: writes.induct) (auto simp: inv_put inv_del)

lemma lookup_writes:
  "inv m \<Longrightarrow> lookup k (writes ws m) = (case map_of (rev ws) k of Some r \<Rightarrow> r | None \<Rightarrow> lookup k m)"
  by (induction ws m rule: writes.induct)
    (auto simp: inv_put inv_del lookup_put lookup_del map_add_def split: option.splits)

end

interpretation ext: type_map ext_inv "\<lambda>t v m. fst (ext_insert t v m)" "\<lambda>t m. fst (ext_remove t m)" ext_get
  by unfold_locales (auto simp: ext_inv_insert ext_inv_remove ext_get_insert ext_get_remove)

text \<open>
  Extensions behave as a map from types to values: after any sequence of \<open>insert\<close> and \<open>remove\<close>
  calls on a fresh map, \<open>get\<close> returns the value of the last write of that type, the returned
  previous value is what \<open>get\<close> would have given, and \<open>contains\<close> agrees with \<open>get\<close>: no stored
  value fails to downcast.
\<close>
theorem extensions_last_write:
  "ext_get t (ext.writes ws ext_new) = (case map_of (rev ws) t of Some r \<Rightarrow> r | None \<Rightarrow> None) \<and>
   snd (ext_insert t v (ext.writes ws ext_new)) = ext_get t (ext.writes ws ext_new) \<and>
   snd (ext_remove t (ext.writes ws ext_new)) = ext_get t (ext.writes ws ext_new) \<and>
   ext_contains t (ext.writes ws ext_new) = (ext_get t (ext.writes ws ext_new) \<noteq> None)"
  by (simp add: ext_previous ext_get_new ext.lookup_writes [OF ext_inv_new]
      ext_contains_get [OF ext.inv_writes [OF ext_inv_new]] split: option.split)

end
