(* ===== verification/Outbound.thy ===== *)
theory Outbound
  imports Prelude
begin

text \<open>
  The per-connection outbound queue of \<open>src/libs/ws/outbound.rs\<close>. The record \<open>inner\<close> is the
  mutex-protected \<open>Inner\<close>; every operation runs under that one lock, so it is one atomic function
  from the old to the new \<open>inner\<close>. A waker is a task identifier, \<open>will_wake\<close> is equality, and an
  operation that calls \<open>wake\<close> returns the task it wakes. The interface locale \<open>bounded_fifo\<close>
  states what the toolbox and the session rely on; the system \<open>chan_step\<close> interleaves senders
  and the receiver and carries the no-lost-wakeup argument.
\<close>

section \<open>The queue\<close>

type_synonym waker = nat

record 'a inner =
  queue :: "'a list"
  capacity :: nat
  senders :: nat
  receiver_alive :: bool
  recv_waker :: "waker option"

datatype 'a try_send_error = Full 'a | Closed 'a

datatype try_recv_error = Empty | Disconnected

primrec into_inner :: "'a try_send_error \<Rightarrow> 'a" where
  "into_inner (Full v) = v"
| "into_inner (Closed v) = v"

definition channel :: "nat \<Rightarrow> 'a inner" where
  "channel cap = \<lparr>queue = [], capacity = cap, senders = 1, receiver_alive = True,
                  recv_waker = None\<rparr>"

definition sender_clone :: "'a inner \<Rightarrow> 'a inner" where
  "sender_clone c = c\<lparr>senders := senders c + 1\<rparr>"

text \<open>
  \<open>Drop for Sender\<close>: only the last one takes the parked waker. \<open>senders\<close> counts the live handles,
  so it is positive whenever a handle is dropped (lemma \<open>chan_inv_senders\<close> below).
\<close>

definition sender_drop :: "'a inner \<Rightarrow> 'a inner \<times> waker option" where
  "sender_drop c =
     (let c = c\<lparr>senders := senders c - 1\<rparr> in
      if senders c = 0 then (c\<lparr>recv_waker := None\<rparr>, recv_waker c) else (c, None))"

definition try_send :: "'a inner \<Rightarrow> 'a \<Rightarrow> 'a inner \<times> (unit, 'a try_send_error) result \<times> waker option" where
  "try_send c v =
     (if \<not> receiver_alive c then (c, Err (Closed v), None)
      else if length (queue c) \<ge> capacity c then (c, Err (Full v), None)
      else (c\<lparr>queue := queue c @ [v], recv_waker := None\<rparr>, Ok (), recv_waker c))"

definition receiver_drop :: "'a inner \<Rightarrow> 'a inner" where
  "receiver_drop c = c\<lparr>receiver_alive := False\<rparr>"

datatype 'a pop = PopValue 'a | PopEmpty | PopClosed

definition pop :: "'a inner \<Rightarrow> 'a inner \<times> 'a pop" where
  "pop c =
     (case queue c of
        v # vs \<Rightarrow> (c\<lparr>queue := vs\<rparr>, PopValue v)
      | [] \<Rightarrow> if senders c = 0 then (c, PopClosed) else (c, PopEmpty))"

definition try_recv :: "'a inner \<Rightarrow> 'a inner \<times> ('a, try_recv_error) result" where
  "try_recv c =
     (case pop c of
        (c', PopValue v) \<Rightarrow> (c', Ok v)
      | (c', PopEmpty) \<Rightarrow> (c', Err Empty)
      | (c', PopClosed) \<Rightarrow> (c', Err Disconnected))"

text \<open>\<open>Future for Recv\<close>: one poll by the task \<open>w\<close>.\<close>

definition recv_poll :: "'a inner \<Rightarrow> waker \<Rightarrow> 'a inner \<times> 'a option poll" where
  "recv_poll c w =
     (case pop c of
        (c', PopValue v) \<Rightarrow> (c', Ready (Some v))
      | (c', PopClosed) \<Rightarrow> (c', Ready None)
      | (c', PopEmpty) \<Rightarrow>
          (if recv_waker c' = Some w then c' else c'\<lparr>recv_waker := Some w\<rparr>, Pending))"

lemmas chan_op_defs [chan_defs] =
  channel_def sender_clone_def sender_drop_def try_send_def receiver_drop_def pop_def
  try_recv_def recv_poll_def Let_def

section \<open>The contract of a bounded queue\<close>

text \<open>
  What the clients of the queue rely on: a send is accepted exactly when the receiver lives and
  there is room, it then goes to the back, a rejected send changes nothing that can be observed,
  and a receive takes the front.
\<close>

locale bounded_fifo =
  fixes send :: "'q \<Rightarrow> 'a \<Rightarrow> 'q \<times> bool"
    and recv :: "'q \<Rightarrow> 'q \<times> 'a option"
    and items :: "'q \<Rightarrow> 'a list"
    and room :: "'q \<Rightarrow> nat"
    and live :: "'q \<Rightarrow> bool"
  assumes send_accepts: "snd (send q v) \<longleftrightarrow> live q \<and> length (items q) < room q"
    and send_items: "items (fst (send q v)) = (if snd (send q v) then items q @ [v] else items q)"
    and send_room: "room (fst (send q v)) = room q"
    and send_live: "live (fst (send q v)) = live q"
    and recv_value: "snd (recv q) = (case items q of [] \<Rightarrow> None | x # _ \<Rightarrow> Some x)"
    and recv_items: "items (fst (recv q)) = tl (items q)"
    and recv_room: "room (fst (recv q)) = room q"
    and recv_live: "live (fst (recv q)) = live q"
begin

lemma send_bound: "length (items q) \<le> room q \<Longrightarrow> length (items (fst (send q v))) \<le> room q"
  using send_accepts [of q v] by (auto simp: send_items)

lemma recv_bound: "length (items q) \<le> room q \<Longrightarrow> length (items (fst (recv q))) \<le> room q"
  by (simp add: recv_items le_diff_conv)

lemma send_then_recv_empty:
  "items q = [] \<Longrightarrow> live q \<Longrightarrow> 0 < room q \<Longrightarrow> snd (recv (fst (send q v))) = Some v"
  by (simp add: recv_value send_items send_accepts)

end

text \<open>
  A run of a queue by its clients: a list of sends and receives, with the accepted values and the
  received values recorded in order.
\<close>

datatype 'a fifo_op = OpSend 'a | OpRecv

fun fifo_run ::
  "('q \<Rightarrow> 'a \<Rightarrow> 'q \<times> bool) \<Rightarrow> ('q \<Rightarrow> 'q \<times> 'a option) \<Rightarrow> 'q \<Rightarrow> 'a fifo_op list
    \<Rightarrow> 'q \<times> 'a list \<times> 'a list" where
  "fifo_run snd_op rcv_op q [] = (q, [], [])"
| "fifo_run snd_op rcv_op q (OpSend v # ops) =
     (case snd_op q v of (q', ok) \<Rightarrow>
        case fifo_run snd_op rcv_op q' ops of (q'', ins, outs) \<Rightarrow>
          (q'', (if ok then v # ins else ins), outs))"
| "fifo_run snd_op rcv_op q (OpRecv # ops) =
     (case rcv_op q of (q', r) \<Rightarrow>
        case fifo_run snd_op rcv_op q' ops of (q'', ins, outs) \<Rightarrow>
          (q'', ins, (case r of None \<Rightarrow> outs | Some v \<Rightarrow> v # outs)))"

context bounded_fifo
begin

lemma fifo_run_conserves:
  "fifo_run send recv q ops = (q', ins, outs) \<Longrightarrow> items q @ ins = outs @ items q'"
proof (induction ops arbitrary: q ins outs)
  case Nil
  then show ?case by simp
next
  case (Cons op ops)
  show ?case
  proof (cases op)
    case (OpSend v)
    with Cons.prems Cons.IH [of "fst (send q v)"] show ?thesis
      by (auto simp: send_items split: prod.splits if_splits)
  next
    case OpRecv
    with Cons.prems Cons.IH [of "fst (recv q)"] recv_value [of q] show ?thesis
      by (cases "items q") (auto simp: recv_items split: prod.splits)
  qed
qed

lemma fifo_run_bound:
  "fifo_run send recv q ops = (q', ins, outs) \<Longrightarrow> length (items q) \<le> room q
    \<Longrightarrow> length (items q') \<le> room q \<and> room q' = room q"
proof (induction ops arbitrary: q ins outs)
  case Nil
  then show ?case by simp
next
  case (Cons op ops)
  show ?case
  proof (cases op)
    case (OpSend v)
    with Cons.prems Cons.IH [of "fst (send q v)"] send_bound [of q v] show ?thesis
      by (auto simp: send_room split: prod.splits)
  next
    case OpRecv
    with Cons.prems Cons.IH [of "fst (recv q)"] recv_bound [of q] show ?thesis
      by (auto simp: recv_room split: prod.splits)
  qed
qed

end

text \<open>The queue's own operations, in the shape of the contract.\<close>

definition chan_send :: "'a inner \<Rightarrow> 'a \<Rightarrow> 'a inner \<times> bool" where
  "chan_send c v = (case try_send c v of (c', r, _) \<Rightarrow> (c', is_ok r))"

definition chan_recv :: "'a inner \<Rightarrow> 'a inner \<times> 'a option" where
  "chan_recv c = (case try_recv c of (c', r) \<Rightarrow> (c', result_ok r))"

interpretation chan: bounded_fifo chan_send chan_recv queue capacity receiver_alive
  by unfold_locales
    (auto simp: chan_send_def chan_recv_def chan_defs split: list.splits)

section \<open>Senders and the receiver interleaved\<close>

text \<open>
  One connection's queue under every schedule. \<open>handles\<close> is the number of \<open>Sender\<close> values that
  exist, \<open>sent\<close> what \<open>try_send\<close> accepted and \<open>got\<close> what the receiver took, in order. \<open>parked\<close> is
  the receiver's task while it sleeps: it polled \<open>Pending\<close> and no operation has woken it since.
\<close>

record 'a chan_sys =
  ch :: "'a inner"
  sent :: "'a list"
  got :: "'a list"
  parked :: "waker option"
  handles :: nat

definition chan_init :: "nat \<Rightarrow> 'a chan_sys" where
  "chan_init cap = \<lparr>ch = channel cap, sent = [], got = [], parked = None, handles = 1\<rparr>"

definition wake :: "waker option \<Rightarrow> waker option \<Rightarrow> waker option" where
  "wake woken p = (if woken \<noteq> None \<and> woken = p then None else p)"

inductive chan_step :: "'a chan_sys \<Rightarrow> 'a chan_sys \<Rightarrow> bool" where
  send: "0 < handles s \<Longrightarrow> try_send (ch s) v = (c, r, woken) \<Longrightarrow>
    chan_step s (s\<lparr>ch := c, sent := (if is_ok r then sent s @ [v] else sent s),
                   parked := wake woken (parked s)\<rparr>)"
| clone: "0 < handles s \<Longrightarrow>
    chan_step s (s\<lparr>ch := sender_clone (ch s), handles := handles s + 1\<rparr>)"
| drop_tx: "0 < handles s \<Longrightarrow> sender_drop (ch s) = (c, woken) \<Longrightarrow>
    chan_step s (s\<lparr>ch := c, handles := handles s - 1, parked := wake woken (parked s)\<rparr>)"
| poll_ready: "receiver_alive (ch s) \<Longrightarrow> recv_poll (ch s) w = (c, Ready r) \<Longrightarrow>
    chan_step s (s\<lparr>ch := c, got := (case r of None \<Rightarrow> got s | Some v \<Rightarrow> got s @ [v]),
                   parked := None\<rparr>)"
| poll_pending: "receiver_alive (ch s) \<Longrightarrow> recv_poll (ch s) w = (c, Pending) \<Longrightarrow>
    chan_step s (s\<lparr>ch := c, parked := Some w\<rparr>)"
| take: "receiver_alive (ch s) \<Longrightarrow> try_recv (ch s) = (c, r) \<Longrightarrow>
    chan_step s (s\<lparr>ch := c, got := (case r of Ok v \<Rightarrow> got s @ [v] | Err _ \<Rightarrow> got s),
                   parked := None\<rparr>)"
| drop_rx: "receiver_alive (ch s) \<Longrightarrow>
    chan_step s (s\<lparr>ch := receiver_drop (ch s), parked := None\<rparr>)"

inductive chan_reach :: "nat \<Rightarrow> 'a chan_sys \<Rightarrow> bool" for cap :: nat where
  init: "chan_reach cap (chan_init cap)"
| step: "chan_reach cap s \<Longrightarrow> chan_step s t \<Longrightarrow> chan_reach cap t"

definition chan_inv :: "nat \<Rightarrow> 'a chan_sys \<Rightarrow> bool" where
  "chan_inv cap s \<longleftrightarrow>
     capacity (ch s) = cap \<and> length (queue (ch s)) \<le> cap \<and>
     senders (ch s) = handles s \<and>
     sent s = got s @ queue (ch s) \<and>
     (case parked s of None \<Rightarrow> True
      | Some w \<Rightarrow> recv_waker (ch s) = Some w \<and> queue (ch s) = [] \<and> 0 < handles s)"

lemma chan_inv_init: "chan_inv cap (chan_init cap)"
  by (simp add: chan_inv_def chan_init_def channel_def)

lemma chan_step_inv: "chan_step s t \<Longrightarrow> chan_inv cap s \<Longrightarrow> chan_inv cap t"
  by (induction rule: chan_step.induct)
    (auto simp: chan_inv_def chan_defs wake_def
       split: list.splits if_splits option.splits)

lemma chan_reach_inv: "chan_reach cap s \<Longrightarrow> chan_inv cap s"
  by (induction rule: chan_reach.induct) (auto intro: chan_inv_init chan_step_inv)

lemma chan_inv_senders: "chan_reach cap s \<Longrightarrow> senders (ch s) = handles s"
  using chan_reach_inv by (force simp: chan_inv_def)

section \<open>Properties\<close>

text \<open>
  C1. Delivery is first in, first out and exactly once, under every interleaving of senders with
  the receiver: what was accepted is what was received followed by what is still queued, and the
  queue never holds more than the capacity the channel was created with, however many senders
  were cloned.
\<close>
theorem outbound_exactly_once_in_order:
  assumes "chan_reach cap s"
  shows "sent s = got s @ queue (ch s) \<and> length (queue (ch s)) \<le> cap"
  using chan_reach_inv [OF assms] by (simp add: chan_inv_def)

text \<open>Two of the steps in the shape that computes, for building concrete runs.\<close>

lemma chan_reach_send:
  assumes "chan_reach cap s" and "0 < handles s"
    and "t = (case try_send (ch s) v of (c, r, woken) \<Rightarrow>
               s\<lparr>ch := c, sent := (if is_ok r then sent s @ [v] else sent s),
                 parked := wake woken (parked s)\<rparr>)"
  shows "chan_reach cap t"
proof -
  obtain c r woken where eq: "try_send (ch s) v = (c, r, woken)"
    by (cases "try_send (ch s) v") auto
  from chan_step.send [OF assms(2) eq] assms(1,3) show ?thesis
    by (simp add: eq chan_reach.step)
qed

lemma chan_reach_park:
  assumes "chan_reach cap s" and "receiver_alive (ch s)"
    and "snd (recv_poll (ch s) w) = Pending"
    and "t = s\<lparr>ch := fst (recv_poll (ch s) w), parked := Some w\<rparr>"
  shows "chan_reach cap t"
proof -
  have "recv_poll (ch s) w = (fst (recv_poll (ch s) w), Pending)"
    using assms(3) by (metis prod.collapse)
  from chan_step.poll_pending [OF assms(2) this] assms(1,4) show ?thesis
    by (auto intro: chan_reach.step)
qed

theorem outbound_exactly_once_in_order_witness:
  "let s = \<lparr>ch = \<lparr>queue = [7 :: nat], capacity = 1, senders = 1, receiver_alive = True,
                   recv_waker = None\<rparr>,
            sent = [7], got = [], parked = None, handles = 1\<rparr>
   in sent s = got s @ queue (ch s) \<and> length (queue (ch s)) \<le> 1"
proof -
  have "chan_reach 1 \<lparr>ch = \<lparr>queue = [7 :: nat], capacity = 1, senders = 1,
      receiver_alive = True, recv_waker = None\<rparr>, sent = [7], got = [], parked = None,
      handles = 1\<rparr>"
    by (rule chan_reach_send [OF chan_reach.init, where v = 7])
      (auto simp: chan_init_def chan_defs wake_def)
  from outbound_exactly_once_in_order [OF this] show ?thesis by (simp only: Let_def)
qed

text \<open>
  C22. No wakeup is lost. While the receiver sleeps (its last poll was \<open>Pending\<close> and nothing has
  woken it), polling again would still be \<open>Pending\<close>, the next accepted send wakes exactly the
  sleeping task, and so does the drop of the last sender: the receiver never sleeps on a message
  or on a closed queue.
\<close>
theorem outbound_no_lost_wakeup:
  assumes reach: "chan_reach cap s" and sleeping: "parked s = Some w"
  shows "recv_poll (ch s) w = (ch s, Pending)
    \<and> (\<forall>v c woken. try_send (ch s) v = (c, Ok (), woken) \<longrightarrow> woken = Some w)
    \<and> (handles s = 1 \<longrightarrow> snd (sender_drop (ch s)) = Some w)"
  using chan_reach_inv [OF reach] sleeping
  by (auto simp: chan_inv_def chan_defs split: if_splits)

theorem outbound_no_lost_wakeup_witness:
  "let c = (channel 1 :: nat inner)\<lparr>recv_waker := Some 5\<rparr>
   in recv_poll c 5 = (c, Pending) \<and> snd (sender_drop c) = Some 5"
proof -
  let ?s = "\<lparr>ch = (channel 1 :: nat inner)\<lparr>recv_waker := Some 5\<rparr>, sent = [], got = [],
             parked = Some 5, handles = 1\<rparr>"
  have "chan_reach 1 ?s"
    by (rule chan_reach_park [OF chan_reach.init, where w = 5])
      (auto simp: chan_init_def chan_defs)
  from outbound_no_lost_wakeup [OF this, of 5] show ?thesis by (simp add: Let_def)
qed

lemma try_send_gives_back:
  "fst (snd (try_send c v)) = Err e \<Longrightarrow> into_inner e = v \<and> fst (try_send c v) = c"
  by (auto simp: try_send_def split: if_splits)

lemma try_send_closed_wins:
  "fst (snd (try_send c v)) = Err (Closed x) \<longleftrightarrow> \<not> receiver_alive c \<and> x = v"
  by (auto simp: try_send_def)

end
