(* ===== verification/Basics.thy ===== *)
theory Basics
  imports Json Error_Code Peer Wire_Message Outbound
begin

text \<open>
  The data of \<open>src/libs/ws/basics.rs\<close>, \<open>src/libs/ws/conn.rs\<close> and the first part of
  \<open>src/libs/ws/toolbox.rs\<close>: connections, request contexts, errors, response frames, and the store the
  server shares between its tasks. \<open>Arc\<close>s are references into that store: two senders of one queue
  are the same queue. A raw JSON parameter is the value it denotes.
\<close>

type_synonym connection_id = u32

type_synonym ext = "nat extensions"

section \<open>Connections and contexts\<close>

record ws_connection =
  wc_connection_id :: connection_id
  wc_user_id :: u64
  wc_roles :: "u32 list"
  wc_peer :: peer_identity
  wc_extensions :: ext
  wc_log_id :: u64

definition get_user_id :: "ws_connection \<Rightarrow> u64" where "get_user_id c = wc_user_id c"

definition get_roles :: "ws_connection \<Rightarrow> u32 list" where "get_roles c = wc_roles c"

definition set_user_id :: "u64 \<Rightarrow> ws_connection \<Rightarrow> ws_connection" where
  "set_user_id u c = c\<lparr>wc_user_id := u\<rparr>"

definition set_roles :: "u32 list \<Rightarrow> ws_connection \<Rightarrow> ws_connection" where
  "set_roles rs c = c\<lparr>wc_roles := rs\<rparr>"

record request_context =
  rc_connection_id :: connection_id
  rc_user_id :: u64
  rc_seq :: u32
  rc_method :: u32
  rc_log_id :: u64
  rc_roles :: "u32 list"
  rc_ip_addr :: ip_addr
  rc_peer :: peer_identity
  rc_extensions :: ext

definition empty_context :: request_context where
  "empty_context =
     \<lparr>rc_connection_id = 0, rc_user_id = 0, rc_seq = 0, rc_method = 0, rc_log_id = 0, rc_roles = [],
      rc_ip_addr = V4 0, rc_peer = Unknown, rc_extensions = ext_new\<rparr>"

definition from_conn :: "ws_connection \<Rightarrow> request_context" where
  "from_conn c =
     \<lparr>rc_connection_id = wc_connection_id c, rc_user_id = get_user_id c, rc_seq = 0, rc_method = 0,
      rc_log_id = wc_log_id c, rc_roles = wc_roles c, rc_ip_addr = peer_ip_addr (wc_peer c),
      rc_peer = wc_peer c, rc_extensions = wc_extensions c\<rparr>"

section \<open>Errors\<close>

record custom_error =
  ce_code :: error_code
  ce_params :: json

definition custom_error_new :: "error_code \<Rightarrow> custom_error" where
  "custom_error_new c = \<lparr>ce_code = c, ce_params = JObj []\<rparr>"

text \<open>An insertion into \<open>params\<close>, which does nothing when it is not an object.\<close>

fun param_insert :: "string \<Rightarrow> json \<Rightarrow> json \<Rightarrow> json" where
  "param_insert k v (JObj m) = JObj (obj_insert k v m)"
| "param_insert k v j = j"

definition with_message :: "string \<Rightarrow> custom_error \<Rightarrow> custom_error" where
  "with_message msg e = e\<lparr>ce_params := param_insert ''message'' (JStr msg) (ce_params e)\<rparr>"

definition with_kind :: "string \<Rightarrow> custom_error \<Rightarrow> custom_error" where
  "with_kind k e = e\<lparr>ce_params := param_insert ''kind'' (JStr k) (ce_params e)\<rparr>"

definition merge_details :: "(string \<times> json) list \<Rightarrow> json btree \<Rightarrow> json btree" where
  "merge_details kvs m =
     fold (\<lambda>(k, v) m. if k \<noteq> ''kind'' \<and> k \<noteq> ''message'' then obj_insert k v m else m) kvs m"

text \<open>\<open>details\<close> is what \<open>serde_json::to_value\<close> made of the argument, \<open>None\<close> when it failed.\<close>

definition with_details :: "json option \<Rightarrow> custom_error \<Rightarrow> custom_error" where
  "with_details details e =
     (case ce_params e of
        JObj m \<Rightarrow>
          (case (case details of Some d \<Rightarrow> d | None \<Rightarrow> JNull) of
             JObj d \<Rightarrow> e\<lparr>ce_params := JObj (merge_details d m)\<rparr>
           | JNull \<Rightarrow> e
           | v \<Rightarrow> e\<lparr>ce_params := JObj (obj_insert ''details'' v m)\<rparr>)
      | _ \<Rightarrow> e)"

text \<open>\<open>u32::from_str_radix(_, 36)\<close>: an optional plus sign and at least one digit, checked.\<close>

definition digit36 :: "char \<Rightarrow> nat option" where
  "digit36 c =
     (let n = of_char c in
      if 48 \<le> n \<and> n \<le> 57 then Some (n - 48)
      else if 97 \<le> n \<and> n \<le> 122 then Some (n - 87)
      else if 65 \<le> n \<and> n \<le> 90 then Some (n - 55)
      else None)"

fun digits36 :: "nat \<Rightarrow> string \<Rightarrow> nat option" where
  "digits36 acc [] = Some acc"
| "digits36 acc (c # s) = Option.bind (digit36 c) (\<lambda>d. digits36 (36 * acc + d) s)"

definition from_str_radix36 :: "string \<Rightarrow> u32 option" where
  "from_str_radix36 s =
     (let ds = (case s of CHR ''+'' # t \<Rightarrow> if t = [] then s else t | _ \<Rightarrow> s) in
      if ds = [] then None
      else case digits36 0 ds of
        Some n \<Rightarrow> if n < 2 ^ 32 then Some (word_of_nat n) else None
      | None \<Rightarrow> None)"

definition from_sql_error :: "string \<Rightarrow> string \<Rightarrow> custom_error option" where
  "from_sql_error err msg =
     map_option (\<lambda>code. with_message msg (custom_error_new (ErrorCode code))) (from_str_radix36 err)"

text \<open>The reports a handler may fail with, by what \<open>downcast\<close> distinguishes.\<close>

datatype report = NoResponseReport | CustomReport custom_error | OtherReport string

section \<open>Response frames\<close>

record ws_request_value =
  rq_method :: u32
  rq_seq :: u32
  rq_params :: json

record ws_response_error =
  re_method :: u32
  re_code :: u32
  re_seq :: u32
  re_log_id :: string
  re_params :: json

record ws_success_response =
  sr_method :: u32
  sr_seq :: u32
  sr_params :: json

record ws_stream_response =
  st_original_seq :: u32
  st_method :: u32
  st_stream_seq :: u32
  st_stream_code :: u32
  st_data :: json

datatype log_level =
    Off_Level | Error_Level | Warn_Level | Info_Level | Debug_Level | Trace_Level | Detail_Level

record ws_log_response =
  lr_seq :: u32
  lr_log_id :: u64
  lr_level :: log_level
  lr_message :: string

datatype ws_response_value =
    Immediate ws_success_response
  | Stream ws_stream_response
  | ErrorResponse ws_response_error
  | LogResponse ws_log_response
  | Forwarded u32 u32
  | CloseResponse

definition error_response :: "request_context \<Rightarrow> error_code \<Rightarrow> json \<Rightarrow> ws_response_value" where
  "error_response ctx code params =
     ErrorResponse \<lparr>re_method = rc_method ctx, re_code = to_u32 code, re_seq = rc_seq ctx,
       re_log_id = show_nat (unat (rc_log_id ctx)), re_params = params\<rparr>"

definition kind_message :: "error_code \<Rightarrow> string \<Rightarrow> json" where
  "kind_message code msg = jobj [(''kind'', JStr (kind code)), (''message'', JStr msg)]"

definition internal_error_to_resp :: "request_context \<Rightarrow> error_code \<Rightarrow> report \<Rightarrow> ws_response_value" where
  "internal_error_to_resp ctx code err0 =
     error_response ctx code (jobj [(''kind'', JStr (kind code))])"

definition custom_error_to_resp :: "request_context \<Rightarrow> custom_error \<Rightarrow> ws_response_value" where
  "custom_error_to_resp ctx err = error_response ctx (ce_code err) (ce_params err)"

section \<open>The shared store\<close>

record stream_state =
  ss_conn :: nat
  ss_message_queue :: nat
  ss_end :: nat

record world =
  conns :: "nat \<Rightarrow> ws_connection"
  chans :: "nat \<Rightarrow> wire_message inner"
  ends :: "nat \<Rightarrow> bool"
  states :: "connection_id \<Rightarrow> stream_state option"
  woken :: "waker list"

text \<open>
  An entry that leaves the table is dropped, and with it its \<open>Sender\<close>: no \<open>Arc\<close> of an entry outlives the
  call that took it from the table.
\<close>

definition drop_state :: "stream_state option \<Rightarrow> world \<Rightarrow> world" where
  "drop_state old w =
     (case old of
        None \<Rightarrow> w
      | Some st \<Rightarrow>
          (case sender_drop (chans w (ss_message_queue st)) of
             (c, wk) \<Rightarrow> w\<lparr>chans := (chans w)(ss_message_queue st := c),
                          woken := woken w @ (case wk of Some t \<Rightarrow> [t] | None \<Rightarrow> [])\<rparr>))"

definition states_remove :: "connection_id \<Rightarrow> world \<Rightarrow> world" where
  "states_remove c w = drop_state (states w c) (w\<lparr>states := (states w)(c := None)\<rparr>)"

definition get_state :: "world \<Rightarrow> connection_id \<Rightarrow> stream_state option" where
  "get_state w c = states w c"

text \<open>\<open>fresh_end\<close> is the address of the new \<open>Shutdown\<close> the insertion allocates.\<close>

definition states_insert :: "connection_id \<Rightarrow> nat \<Rightarrow> nat \<Rightarrow> nat \<Rightarrow> world \<Rightarrow> world" where
  "states_insert c queue_ref conn_ref fresh_end w =
     drop_state (states w c)
       (w\<lparr>states := (states w)(c \<mapsto> \<lparr>ss_conn = conn_ref, ss_message_queue = queue_ref, ss_end = fresh_end\<rparr>),
          ends := (ends w)(fresh_end := False)\<rparr>)"

lemma drop_state_simps [simp]:
  "states (drop_state old w) = states w" "ends (drop_state old w) = ends w" "conns (drop_state old w) = conns w"
  "queue (chans (drop_state old w) q) = queue (chans w q)"
  "receiver_alive (chans (drop_state old w) q) = receiver_alive (chans w q)"
  by (auto simp: drop_state_def sender_drop_def Let_def split: option.split)

text \<open>The session of a dropped entry learns of it: its queue has no sender left, and a parked receive is woken.\<close>

lemma states_remove_closes:
  assumes "states w c = Some st" and "senders (chans w (ss_message_queue st)) = 1"
  shows "senders (chans (states_remove c w) (ss_message_queue st)) = 0 \<and>
    recv_waker (chans (states_remove c w) (ss_message_queue st)) = None \<and>
    woken (states_remove c w) =
      woken w @ (case recv_waker (chans w (ss_message_queue st)) of Some t \<Rightarrow> [t] | None \<Rightarrow> [])"
  using assms by (simp add: states_remove_def drop_state_def sender_drop_def Let_def)

text \<open>Every registered connection has a queue and an end flag of its own.\<close>

definition world_inv :: "world \<Rightarrow> bool" where
  "world_inv w \<longleftrightarrow>
     (\<forall>c d s t. states w c = Some s \<and> states w d = Some t \<and> c \<noteq> d \<longrightarrow>
        ss_message_queue s \<noteq> ss_message_queue t \<and> ss_end s \<noteq> ss_end t)"

lemma world_inv_remove: "world_inv w \<Longrightarrow> world_inv (states_remove c w)"
  by (auto simp: world_inv_def states_remove_def split: if_splits)

lemma world_inv_insert:
  assumes "world_inv w"
    and "\<And>d s. states w d = Some s \<Longrightarrow> d \<noteq> c \<Longrightarrow> ss_message_queue s \<noteq> q \<and> ss_end s \<noteq> e"
  shows "world_inv (states_insert c q k e w)"
  using assms unfolding world_inv_def states_insert_def by (fastforce split: if_splits)

section \<open>Lemmas on errors\<close>

lemma obj_get_merge_details:
  "obj_get (merge_details kvs m) k =
     (if k = ''kind'' \<or> k = ''message'' then obj_get m k
      else case map_of (rev kvs) k of Some v \<Rightarrow> Some v | None \<Rightarrow> obj_get m k)"
proof (induction kvs arbitrary: m)
  case (Cons kv kvs)
  then show ?case
    by (cases kv) (auto simp: merge_details_def map_add_def split: option.splits)
qed (simp add: merge_details_def)

lemma ce_code_builders [simp]:
  "ce_code (with_message msg e) = ce_code e" "ce_code (with_kind k e) = ce_code e"
  "ce_code (with_details d e) = ce_code e"
  by (auto simp: with_message_def with_kind_def with_details_def split: json.splits option.splits)

lemma jget_param_insert: "jget (param_insert k v j) k' = (if k' = k \<and> (\<exists>m. j = JObj m) then Some v else jget j k')"
  by (cases j) auto

lemma obj_wf_merge_details: "obj_wf m \<Longrightarrow> obj_wf (merge_details kvs m)"
  by (induction kvs arbitrary: m) (auto simp: merge_details_def)

text \<open>What \<open>with_details\<close> makes of an object of parameters.\<close>

definition detail_params :: "json option \<Rightarrow> json btree \<Rightarrow> json btree" where
  "detail_params d m =
     (case d of
        Some (JObj kvs) \<Rightarrow> merge_details kvs m
      | None \<Rightarrow> m
      | Some JNull \<Rightarrow> m
      | Some v \<Rightarrow> obj_insert ''details'' v m)"

lemma with_details_params:
  "ce_params e = JObj m \<Longrightarrow> ce_params (with_details d e) = JObj (detail_params d m)"
  by (auto simp: with_details_def detail_params_def split: option.splits json.splits)

lemma obj_wf_detail_params: "obj_wf m \<Longrightarrow> obj_wf (detail_params d m)"
  by (auto simp: detail_params_def obj_wf_merge_details split: option.splits json.splits)

lemma detail_params_reserved:
  "k = ''kind'' \<or> k = ''message'' \<Longrightarrow> obj_get (detail_params d m) k = obj_get m k"
  by (auto simp: detail_params_def obj_get_merge_details split: option.splits json.splits)

lemma detail_params_insert:
  assumes "k = ''kind'' \<or> k = ''message''" and "obj_wf m"
  shows "detail_params d (obj_insert k v m) = obj_insert k v (detail_params d m)"
proof (rule obj_ext)
  fix k'
  show "obj_get (detail_params d (obj_insert k v m)) k' = obj_get (obj_insert k v (detail_params d m)) k'"
    using assms(1)
    by (auto simp: detail_params_def obj_get_merge_details split: option.splits json.splits)
qed (use assms(2) in \<open>simp_all add: obj_wf_detail_params\<close>)

text \<open>
  The structured details a handler attaches to an error never displace its \<open>kind\<close> and
  \<open>message\<close>: whatever value the details serialise to, and whether they are attached before or after,
  both keys answer what \<open>with_kind\<close> and \<open>with_message\<close> set, the code is kept, and every other key of
  an object of details is there.
\<close>
theorem details_keep_kind_and_message:
  "let e = with_details d (with_kind k (with_message msg (custom_error_new code)));
       e' = with_kind k (with_message msg (with_details d (custom_error_new code)))
   in ce_params e = ce_params e' \<and> ce_code e = code \<and>
      jget (ce_params e) ''kind'' = Some (JStr k) \<and> jget (ce_params e) ''message'' = Some (JStr msg) \<and>
      (\<forall>m key. d = Some (JObj m) \<and> obj_wf m \<and> key \<noteq> ''kind'' \<and> key \<noteq> ''message'' \<longrightarrow>
         jget (ce_params e) key = obj_get m key)"
proof -
  let ?m = "obj_insert ''kind'' (JStr k) (obj_insert ''message'' (JStr msg) [])"
  have p: "ce_params (with_kind k (with_message msg (custom_error_new code))) = JObj ?m"
    by (simp add: with_kind_def with_message_def custom_error_new_def)
  have "ce_params (with_details d (custom_error_new code)) = JObj (detail_params d [])"
    by (rule with_details_params) (simp add: custom_error_new_def)
  then have q: "ce_params (with_kind k (with_message msg (with_details d (custom_error_new code)))) =
      JObj (obj_insert ''kind'' (JStr k) (obj_insert ''message'' (JStr msg) (detail_params d [])))"
    by (simp add: with_kind_def with_message_def)
  have "detail_params d ?m =
      obj_insert ''kind'' (JStr k) (obj_insert ''message'' (JStr msg) (detail_params d []))"
    by (simp add: detail_params_insert del: obj_insert.simps)
  moreover have "obj_get (detail_params (Some (JObj kvs)) ?m) key = obj_get kvs key"
    if "obj_wf kvs" "key \<noteq> ''kind''" "key \<noteq> ''message''" for kvs key
    using that obj_wf_distinct [OF that(1)]
    by (simp add: detail_params_def obj_get_merge_details obj_get_def [of kvs] map_of_rev
        del: obj_insert.simps split: option.splits)
  ultimately show ?thesis
    unfolding Let_def with_details_params [OF p] q
    by (auto simp: detail_params_reserved custom_error_new_def simp del: obj_insert.simps)
qed

theorem details_keep_kind_and_message_witness:
  "let e = with_details (Some (jobj [(''field'', JStr ''x''), (''kind'', JStr ''spoofed'')]))
             (with_kind ''BadRequest'' (with_message ''bad'' (custom_error_new BAD_REQUEST)))
   in jget (ce_params e) ''kind'' = Some (JStr ''BadRequest'') \<and>
      jget (ce_params e) ''field'' = Some (JStr ''x'')"
proof -
  let ?d = "[(''field'', JStr ''x''), (''kind'', JStr ''spoofed'')]"
  let ?e = "with_details (Some (jobj ?d))
      (with_kind ''BadRequest'' (with_message ''bad'' (custom_error_new BAD_REQUEST)))"
  note keep = details_keep_kind_and_message [of "Some (jobj ?d)" "''BadRequest''" "''bad''" BAD_REQUEST,
      unfolded Let_def]
  have "jget (ce_params ?e) ''kind'' = Some (JStr ''BadRequest'')"
    using keep by blast
  moreover have "jget (ce_params ?e) ''field'' = obj_get (obj_of ?d) ''field''"
    using keep [THEN conjunct2, THEN conjunct2, THEN conjunct2, THEN conjunct2] by (simp add: jobj_def)
  ultimately show ?thesis
    by (simp add: Let_def obj_get_of)
qed

end
