(* ===== verification/Toolbox.thy ===== *)
theory Toolbox
  imports Basics
begin

text \<open>
  \<open>src/libs/ws/toolbox.rs\<close>: how a frame reaches a connection's outbound queue, and how a handler's
  result becomes a frame. \<open>ser\<close> is \<open>serde_json::to_string\<close> on response frames, \<open>None\<close> when it fails.
  The two \<open>OnceLock\<close>s of \<open>Toolbox\<close> hold closures over the connection table; a closure is the pair of
  its captured flags, \<open>oneshot\<close> and \<open>drop_on_buffer_full\<close>. The last section is \<open>ToolboxKey\<close>, the
  thread-local slot a task's polls install.
\<close>

section \<open>Queueing\<close>

record toolbox =
  send_msg :: "(bool \<times> bool) option"
  send_raw_msg :: "(bool \<times> bool) option"

definition toolbox_new :: toolbox where
  "toolbox_new = \<lparr>send_msg = None, send_raw_msg = None\<rparr>"

definition set_ws_states :: "bool \<Rightarrow> bool \<Rightarrow> toolbox \<Rightarrow> toolbox" where
  "set_ws_states oneshot drop_on_buffer_full tb =
     tb\<lparr>send_msg := (case send_msg tb of None \<Rightarrow> Some (oneshot, drop_on_buffer_full) | x \<Rightarrow> x),
        send_raw_msg := (case send_raw_msg tb of None \<Rightarrow> Some (oneshot, drop_on_buffer_full) | x \<Rightarrow> x)\<rparr>"

definition put_chan :: "nat \<Rightarrow> wire_message inner \<Rightarrow> waker option \<Rightarrow> world \<Rightarrow> world" where
  "put_chan q c wk w =
     w\<lparr>chans := (chans w)(q := c), woken := woken w @ (case wk of Some t \<Rightarrow> [t] | None \<Rightarrow> [])\<rparr>"

definition send_on ::
  "nat \<Rightarrow> wire_message \<Rightarrow> world \<Rightarrow> world \<times> (unit, wire_message try_send_error) result" where
  "send_on q m w = (case try_send (chans w q) m of (c, r, wk) \<Rightarrow> (put_chan q c wk w, r))"

definition cancel_end :: "nat option \<Rightarrow> world \<Rightarrow> world" where
  "cancel_end e w = (case e of Some e \<Rightarrow> w\<lparr>ends := (ends w)(e := True)\<rparr> | None \<Rightarrow> w)"

definition close_for_policy :: "nat \<Rightarrow> nat option \<Rightarrow> world \<Rightarrow> world" where
  "close_for_policy q e w = cancel_end e (fst (send_on q (Close None) w))"

definition enqueue :: "nat \<Rightarrow> nat option \<Rightarrow> string \<Rightarrow> bool \<Rightarrow> bool \<Rightarrow> world \<Rightarrow> world" where
  "enqueue q e serialized oneshot drop_on_full w =
     (let (w, r) = send_on q (wire_from_string serialized) w;
          w = (case r of
                 Ok _ \<Rightarrow> w
               | Err (Full _) \<Rightarrow> if drop_on_full then close_for_policy q e w else w
               | Err (Closed _) \<Rightarrow> w) in
      if oneshot then close_for_policy q e w else w)"

definition send_ws_msg ::
  "(ws_response_value \<Rightarrow> string option) \<Rightarrow> nat \<Rightarrow> ws_response_value \<Rightarrow> bool \<Rightarrow> bool \<Rightarrow> world \<Rightarrow> world" where
  "send_ws_msg ser q resp oneshot drop_on_full w =
     (case ser resp of Some s \<Rightarrow> enqueue q None s oneshot drop_on_full w | None \<Rightarrow> w)"

definition send_serialized_ws_msg :: "nat \<Rightarrow> string \<Rightarrow> bool \<Rightarrow> bool \<Rightarrow> world \<Rightarrow> world" where
  "send_serialized_ws_msg q s oneshot drop_on_full w = enqueue q None s oneshot drop_on_full w"

definition send_fn ::
  "(ws_response_value \<Rightarrow> string option) \<Rightarrow> bool \<times> bool \<Rightarrow> connection_id \<Rightarrow> ws_response_value \<Rightarrow> world
    \<Rightarrow> world \<times> bool" where
  "send_fn ser flags conn_id msg w =
     (case states w conn_id of
        None \<Rightarrow> (w, False)
      | Some st \<Rightarrow>
          (case ser msg of
             None \<Rightarrow> (w, True)
           | Some s \<Rightarrow>
               (enqueue (ss_message_queue st) (Some (ss_end st)) s (fst flags) (snd flags) w, True)))"

definition send_raw_fn ::
  "bool \<times> bool \<Rightarrow> connection_id \<Rightarrow> string \<Rightarrow> world \<Rightarrow> world \<times> bool" where
  "send_raw_fn flags conn_id s w =
     (case states w conn_id of
        None \<Rightarrow> (w, False)
      | Some st \<Rightarrow>
          (enqueue (ss_message_queue st) (Some (ss_end st)) s (fst flags) (snd flags) w, True))"

definition send ::
  "(ws_response_value \<Rightarrow> string option) \<Rightarrow> toolbox \<Rightarrow> connection_id \<Rightarrow> ws_response_value \<Rightarrow> world
    \<Rightarrow> world \<times> bool" where
  "send ser tb conn_id resp w =
     (case send_msg tb of Some f \<Rightarrow> send_fn ser f conn_id resp w | None \<Rightarrow> (w, False))"

definition send_raw :: "toolbox \<Rightarrow> connection_id \<Rightarrow> string \<Rightarrow> world \<Rightarrow> world \<times> bool" where
  "send_raw tb conn_id s w =
     (case send_raw_msg tb of Some f \<Rightarrow> send_raw_fn f conn_id s w | None \<Rightarrow> (w, False))"

section \<open>Responses\<close>

text \<open>A response a handler returns is what \<open>to_raw_value\<close> makes of it, \<open>None\<close> when it fails.\<close>

definition serialize_failed :: "request_context \<Rightarrow> ws_response_value" where
  "serialize_failed ctx =
     error_response ctx INTERNAL_ERROR (kind_message INTERNAL_ERROR ''Failed to serialize response'')"

definition encode_ok :: "request_context \<Rightarrow> json option \<Rightarrow> ws_response_value" where
  "encode_ok ctx ok =
     (case ok of
        Some params \<Rightarrow> Immediate \<lparr>sr_method = rc_method ctx, sr_seq = rc_seq ctx, sr_params = params\<rparr>
      | None \<Rightarrow> serialize_failed ctx)"

definition send_response ::
  "(ws_response_value \<Rightarrow> string option) \<Rightarrow> toolbox \<Rightarrow> request_context \<Rightarrow> json option \<Rightarrow> world \<Rightarrow> world" where
  "send_response ser tb ctx resp w = fst (send ser tb (rc_connection_id ctx) (encode_ok ctx resp) w)"

definition send_internal_error ::
  "(ws_response_value \<Rightarrow> string option) \<Rightarrow> toolbox \<Rightarrow> request_context \<Rightarrow> error_code \<Rightarrow> report \<Rightarrow> world \<Rightarrow> world" where
  "send_internal_error ser tb ctx code err w =
     fst (send ser tb (rc_connection_id ctx) (internal_error_to_resp ctx code err) w)"

definition send_request_error ::
  "(ws_response_value \<Rightarrow> string option) \<Rightarrow> toolbox \<Rightarrow> request_context \<Rightarrow> error_code \<Rightarrow> string \<Rightarrow> world \<Rightarrow> world" where
  "send_request_error ser tb ctx code err w =
     fst (send ser tb (rc_connection_id ctx) (error_response ctx code (kind_message code err)) w)"

definition send_log ::
  "(ws_response_value \<Rightarrow> string option) \<Rightarrow> toolbox \<Rightarrow> request_context \<Rightarrow> log_level \<Rightarrow> string \<Rightarrow> world \<Rightarrow> world" where
  "send_log ser tb ctx level msg w =
     fst (send ser tb (rc_connection_id ctx)
       (LogResponse \<lparr>lr_seq = rc_seq ctx, lr_log_id = rc_log_id ctx, lr_level = level, lr_message = msg\<rparr>) w)"

definition encode_ws_response ::
  "request_context \<Rightarrow> (json option, report) result \<Rightarrow> ws_response_value option" where
  "encode_ws_response ctx resp =
     (case resp of
        Ok ok \<Rightarrow> Some (encode_ok ctx ok)
      | Err NoResponseReport \<Rightarrow> None
      | Err (CustomReport e) \<Rightarrow> Some (custom_error_to_resp ctx e)
      | Err err \<Rightarrow> Some (internal_error_to_resp ctx INTERNAL_ERROR err))"

datatype 'e handler_error = Public 'e | Internal report | NoResponse

definition encode_handler_response ::
  "('e \<Rightarrow> custom_error) \<Rightarrow> request_context \<Rightarrow> (json option, 'e handler_error) result
    \<Rightarrow> ws_response_value option" where
  "encode_handler_response into_custom ctx resp =
     (case resp of
        Ok ok \<Rightarrow> Some (encode_ok ctx ok)
      | Err (Public e) \<Rightarrow> Some (custom_error_to_resp ctx (into_custom e))
      | Err (Internal err) \<Rightarrow> Some (internal_error_to_resp ctx INTERNAL_ERROR err)
      | Err NoResponse \<Rightarrow> None)"

section \<open>The task's toolbox\<close>

text \<open>
  A poll of a future sees the slot and may change it; the guard \<open>Restore\<close> writes the previous value
  back when the poll returns, whether it was ready, pending or panicked.
\<close>

datatype 'a polled = Done 'a | NotYet | Panicked

type_synonym ('t, 'a) future = "'t option \<Rightarrow> 't option \<times> 'a polled"

definition scope_poll :: "'t \<Rightarrow> ('t, 'a) future \<Rightarrow> ('t, 'a) future" where
  "scope_poll value fut slot =
     (let previous = slot; (_, r) = fut (Some value) in (previous, r))"

definition try_with :: "('t \<Rightarrow> 'r) \<Rightarrow> 't option \<Rightarrow> 't option \<times> ('r, unit) result" where
  "try_with f slot = (slot, case slot of Some v \<Rightarrow> Ok (f v) | None \<Rightarrow> Err ())"

text \<open>\<open>with\<close> panics outside a scope.\<close>

definition with_slot :: "('t \<Rightarrow> 'r) \<Rightarrow> 't option \<Rightarrow> 't option \<times> 'r polled" where
  "with_slot f slot = (case try_with f slot of (s, Ok r) \<Rightarrow> (s, Done r) | (s, Err _) \<Rightarrow> (s, Panicked))"

section \<open>Queueing: lemmas\<close>

text \<open>Whether \<open>k\<close> messages fit in front of one more, and when a send ends the connection.\<close>

definition room :: "wire_message inner \<Rightarrow> nat \<Rightarrow> bool" where
  "room c k \<longleftrightarrow> receiver_alive c \<and> length (queue c) + k < capacity c"

definition policy_close :: "wire_message inner \<Rightarrow> bool \<Rightarrow> bool \<Rightarrow> bool" where
  "policy_close c oneshot drop_on_full \<longleftrightarrow>
     oneshot \<or> (drop_on_full \<and> receiver_alive c \<and> \<not> room c 0)"

lemma send_on_conv:
  "send_on q m w = (put_chan q (fst (try_send (chans w q) m)) (snd (snd (try_send (chans w q) m))) w,
     fst (snd (try_send (chans w q) m)))"
  by (simp add: send_on_def split: prod.splits)

lemma put_chan_simps [simp]:
  "chans (put_chan q c wk w) = (chans w)(q := c)" "ends (put_chan q c wk w) = ends w"
  "states (put_chan q c wk w) = states w" "conns (put_chan q c wk w) = conns w"
  by (simp_all add: put_chan_def)

lemma close_for_policy_simps [simp]:
  "chans (close_for_policy q e w) = (chans w)(q := fst (try_send (chans w q) (Close None)))"
  "ends (close_for_policy q e w) = (case e of Some d \<Rightarrow> (ends w)(d := True) | None \<Rightarrow> ends w)"
  "states (close_for_policy q e w) = states w" "conns (close_for_policy q e w) = conns w"
  by (simp_all add: close_for_policy_def cancel_end_def send_on_conv split: option.split)

lemma try_send_cases:
  "try_send c m =
     (if \<not> receiver_alive c then (c, Err (Closed m), None)
      else if \<not> room c 0 then (c, Err (Full m), None)
      else (c\<lparr>queue := queue c @ [m], recv_waker := None\<rparr>, Ok (), recv_waker c))"
  by (simp add: try_send_def room_def)

text \<open>The queue after \<open>enqueue\<close>: the message, then the \<open>Close\<close> of a one-shot send, as far as they fit.\<close>

definition enqueued :: "wire_message inner \<Rightarrow> wire_message \<Rightarrow> bool \<Rightarrow> wire_message inner" where
  "enqueued c m oneshot =
     (if room c 0
      then c\<lparr>queue := queue c @ [m] @ (if oneshot \<and> room c 1 then [Close None] else []), recv_waker := None\<rparr>
      else c)"

lemma room_queue: "room (c\<lparr>queue := queue c @ [m], recv_waker := None\<rparr>) 0 = room c 1"
  by (simp add: room_def)

lemma enqueue_effect:
  "chans (enqueue q e s oneshot dr w) = (chans w)(q := enqueued (chans w q) (wire_from_string s) oneshot)"
  "ends (enqueue q (Some d) s oneshot dr w) =
     (if policy_close (chans w q) oneshot dr then (ends w)(d := True) else ends w)"
  "ends (enqueue q None s oneshot dr w) = ends w"
  "states (enqueue q e s oneshot dr w) = states w"
  "conns (enqueue q e s oneshot dr w) = conns w"
  by (auto simp: enqueue_def send_on_conv try_send_cases enqueued_def policy_close_def room_queue Let_def
      room_def [of "chans w q" 0] split: option.splits)

lemma scope_poll_restores: "fst (scope_poll v fut slot) = slot"
  by (simp add: scope_poll_def split: prod.splits)

lemma scope_poll_hides: "snd (scope_poll v fut slot) = snd (scope_poll v fut slot')"
  by (simp add: scope_poll_def split: prod.splits)

lemma nested_scope_sees_inner:
  "snd (scope_poll outer (\<lambda>slot. with_slot f (fst (scope_poll inner fut slot))) None) = Done (f outer)"
  "snd (scope_poll outer (scope_poll inner (with_slot f)) None) = Done (f inner)"
  by (simp_all add: scope_poll_def with_slot_def try_with_def split: prod.splits)

section \<open>The outbox contract\<close>

text \<open>
  What the session, the subscriptions and the handlers rely on when they send: a frame goes to the
  back of the addressed connection's queue or is refused, nothing already queued is lost or
  reordered, and no other connection notices.
\<close>

definition mailbox :: "connection_id \<Rightarrow> world \<Rightarrow> wire_message list option" where
  "mailbox c w = map_option (\<lambda>st. queue (chans w (ss_message_queue st))) (states w c)"

locale outbox =
  fixes inv :: "'w \<Rightarrow> bool" and deliver :: "'c \<Rightarrow> 'm \<Rightarrow> 'w \<Rightarrow> 'w \<times> bool"
    and box :: "'c \<Rightarrow> 'w \<Rightarrow> wire_message list option"
  assumes inv_deliver: "inv w \<Longrightarrow> inv (fst (deliver c m w))"
    and deliver_unknown: "box c w = None \<Longrightarrow> deliver c m w = (w, False)"
    and deliver_known: "inv w \<Longrightarrow> box c w = Some q \<Longrightarrow>
      snd (deliver c m w) \<and> (\<exists>ms. box c (fst (deliver c m w)) = Some (q @ ms))"
    and deliver_other: "inv w \<Longrightarrow> d \<noteq> c \<Longrightarrow> box d (fst (deliver c m w)) = box d w"
begin

primrec deliver_all :: "('c \<times> 'm) list \<Rightarrow> 'w \<Rightarrow> 'w" where
  "deliver_all [] w = w"
| "deliver_all (cm # cms) w = deliver_all cms (fst (deliver (fst cm) (snd cm) w))"

lemma inv_deliver_all: "inv w \<Longrightarrow> inv (deliver_all cms w)"
  by (induction cms arbitrary: w) (auto simp: inv_deliver)

lemma deliver_box_dom: "inv w \<Longrightarrow> (box d (fst (deliver c m w)) = None) = (box d w = None)"
  using deliver_unknown [of c w m] deliver_known [of w c _ m] deliver_other [of w d c m]
  by (cases "d = c"; cases "box c w") auto

lemma deliver_all_extends:
  "inv w \<Longrightarrow> box d w = Some q \<Longrightarrow> \<exists>ms. box d (deliver_all cms w) = Some (q @ ms)"
proof (induction cms arbitrary: w q)
  case (Cons cm cms)
  let ?w = "fst (deliver (fst cm) (snd cm) w)"
  obtain ms where "box d ?w = Some (q @ ms)"
    using Cons.prems deliver_known [of w d q "snd cm"] deliver_other [of w d "fst cm" "snd cm"]
    by (cases "d = fst cm") auto
  from Cons.IH [OF inv_deliver [OF Cons.prems(1)] this] show ?case by auto
qed simp

lemma deliver_all_other:
  "inv w \<Longrightarrow> d \<notin> fst ` set cms \<Longrightarrow> box d (deliver_all cms w) = box d w"
  by (induction cms arbitrary: w) (auto simp: inv_deliver deliver_other)

end

lemma world_inv_enqueue: "world_inv (enqueue q e s oneshot dr w) = world_inv w"
  by (simp add: world_inv_def enqueue_effect)

lemma enqueued_queue: "\<exists>ms. queue (enqueued c m oneshot) = queue c @ ms"
  by (auto simp: enqueued_def)

lemma mailbox_enqueue:
  assumes "world_inv w" and "states w c = Some st"
  shows "mailbox d (enqueue (ss_message_queue st) e s oneshot dr w) =
    (if d = c then Some (queue (enqueued (chans w (ss_message_queue st)) (wire_from_string s) oneshot))
     else mailbox d w)"
proof (cases "d = c \<or> states w d = None")
  case False
  then obtain t where "states w d = Some t" "d \<noteq> c" by auto
  with assms have "ss_message_queue t \<noteq> ss_message_queue st"
    unfolding world_inv_def by metis
  with \<open>states w d = Some t\<close> \<open>d \<noteq> c\<close> show ?thesis
    by (simp add: mailbox_def enqueue_effect)
qed (use assms(2) in \<open>auto simp: mailbox_def enqueue_effect\<close>)

text \<open>The queue of a registered connection.\<close>

definition chan_view :: "connection_id \<Rightarrow> world \<Rightarrow> wire_message inner option" where
  "chan_view c w = map_option (\<lambda>st. chans w (ss_message_queue st)) (states w c)"

lemma chan_view_None: "chan_view c w = None \<longleftrightarrow> states w c = None"
  by (simp add: chan_view_def)

lemma chan_view_enqueue:
  assumes "world_inv w" and "states w c = Some st"
  shows "chan_view d (enqueue (ss_message_queue st) e s oneshot dr w) =
    (if d = c then Some (enqueued (chans w (ss_message_queue st)) (wire_from_string s) oneshot)
     else chan_view d w)"
proof (cases "d = c \<or> states w d = None")
  case False
  then obtain t where t: "states w d = Some t" "d \<noteq> c" by auto
  with assms have "ss_message_queue t \<noteq> ss_message_queue st"
    unfolding world_inv_def by metis
  with t show ?thesis
    by (simp add: chan_view_def enqueue_effect)
qed (use assms(2) in \<open>auto simp: chan_view_def enqueue_effect\<close>)

interpretation raw: outbox world_inv "send_raw_fn flags" mailbox for flags
proof (unfold_locales, goal_cases)
  case (3 w c q m)
  then obtain st where st: "states w c = Some st" by (auto simp: mailbox_def)
  with 3 mailbox_enqueue [OF 3(1) st] enqueued_queue show ?case
    by (auto simp: send_raw_fn_def mailbox_def)
next
  case (4 w d c m)
  then show ?case
    by (cases "states w c") (auto simp: send_raw_fn_def mailbox_enqueue)
qed (auto simp: send_raw_fn_def mailbox_def world_inv_enqueue split: option.splits)

lemma send_fn_raw:
  "send_fn ser flags c m w =
     (case ser m of Some s \<Rightarrow> send_raw_fn flags c s w | None \<Rightarrow> (w, mailbox c w \<noteq> None))"
  by (auto simp: send_fn_def send_raw_fn_def mailbox_def split: option.splits)

interpretation frames: outbox world_inv "send_fn ser flags" mailbox for ser flags
proof (unfold_locales, goal_cases)
  case (3 w c q m)
  with raw.deliver_known [OF 3(1) 3(2)] show ?case
    by (auto simp: send_fn_raw split: option.splits)
qed (auto simp: send_fn_raw raw.inv_deliver raw.deliver_unknown raw.deliver_other split: option.splits)

section \<open>Properties\<close>

text \<open>
  C23. A send to a registered connection, in full. The message goes to the back of the queue when
  there is room and the receiver lives, followed by \<open>Close\<close> if the server is one-shot and that fits
  too; otherwise the queue is unchanged, so it never exceeds its capacity. The connection's end flag
  is raised exactly when the server is one-shot or the queue is full and the server drops slow
  clients: also in the case in which the \<open>Close\<close> frame itself finds no room.
\<close>
theorem send_policy:
  assumes "states w c = Some st" and "send_raw_msg tb = Some (oneshot, drop_on_full)"
    and "send_raw tb c s w = (w', ok)"
  shows "ok \<and>
    queue (chans w' (ss_message_queue st)) =
      queue (chans w (ss_message_queue st)) @
        (if \<not> room (chans w (ss_message_queue st)) 0 then []
         else wire_from_string s # (if oneshot \<and> room (chans w (ss_message_queue st)) 1 then [Close None] else [])) \<and>
    (ends w' (ss_end st) \<longleftrightarrow>
       ends w (ss_end st) \<or> oneshot \<or>
       (drop_on_full \<and> receiver_alive (chans w (ss_message_queue st)) \<and>
        capacity (chans w (ss_message_queue st)) \<le> length (queue (chans w (ss_message_queue st))))) \<and>
    (length (queue (chans w (ss_message_queue st))) \<le> capacity (chans w (ss_message_queue st)) \<longrightarrow>
       length (queue (chans w' (ss_message_queue st))) \<le> capacity (chans w' (ss_message_queue st)))"
proof -
  let ?q = "ss_message_queue st"
  have w': "w' = enqueue ?q (Some (ss_end st)) s oneshot drop_on_full w" and ok
    using assms by (auto simp: send_raw_def send_raw_fn_def)
  have c: "chans w' ?q = enqueued (chans w ?q) (wire_from_string s) oneshot"
    by (simp add: w' enqueue_effect)
  have "ends w' (ss_end st) \<longleftrightarrow> ends w (ss_end st) \<or> policy_close (chans w ?q) oneshot drop_on_full"
    by (simp add: w' enqueue_effect)
  with \<open>ok\<close> c show ?thesis
    by (auto simp: enqueued_def policy_close_def room_def)
qed

definition one_slot :: world where
  "one_slot =
     \<lparr>conns = (\<lambda>_. \<lparr>wc_connection_id = 5, wc_user_id = 0, wc_roles = [], wc_peer = Unknown,
                    wc_extensions = ext_new, wc_log_id = 9\<rparr>),
      chans = (\<lambda>_. channel 1), ends = (\<lambda>_. False),
      states = [5 \<mapsto> \<lparr>ss_conn = 0, ss_message_queue = 0, ss_end = 0\<rparr>], woken = []\<rparr>"

theorem send_policy_witness:
  "let tb = set_ws_states True False toolbox_new; w' = fst (send_raw tb 5 ''hi'' one_slot)
   in queue (chans w' 0) = [wire_from_string ''hi''] \<and> ends w' 0"
  using send_policy [of one_slot 5 "\<lparr>ss_conn = 0, ss_message_queue = 0, ss_end = 0\<rparr>"
      "set_ws_states True False toolbox_new" True False "''hi''"
      "fst (send_raw (set_ws_states True False toolbox_new) 5 ''hi'' one_slot)"
      "snd (send_raw (set_ws_states True False toolbox_new) 5 ''hi'' one_slot)"]
  by (simp add: one_slot_def set_ws_states_def toolbox_new_def channel_def room_def Let_def)

text \<open>A send through either door of the toolbox, and the text it has for connection \<open>d\<close>.\<close>

datatype outgoing = FrameTo connection_id ws_response_value | RawTo connection_id string

fun send_one :: "(ws_response_value \<Rightarrow> string option) \<Rightarrow> toolbox \<Rightarrow> outgoing \<Rightarrow> world \<Rightarrow> world" where
  "send_one ser tb (FrameTo c resp) w = fst (send ser tb c resp w)"
| "send_one ser tb (RawTo c s) w = fst (send_raw tb c s w)"

fun text_for :: "(ws_response_value \<Rightarrow> string option) \<Rightarrow> connection_id \<Rightarrow> outgoing \<Rightarrow> string list" where
  "text_for ser d (FrameTo c resp) = (if c = d then (case ser resp of Some s \<Rightarrow> [s] | None \<Rightarrow> []) else [])"
| "text_for ser d (RawTo c s) = (if c = d then [s] else [])"

text \<open>What one text does to the queue and the end flag of the connection it is for.\<close>

fun arrive :: "bool \<Rightarrow> bool \<Rightarrow> string \<Rightarrow> wire_message inner \<times> bool \<Rightarrow> wire_message inner \<times> bool" where
  "arrive oneshot dr s (c, e) = (enqueued c (wire_from_string s) oneshot, e \<or> policy_close c oneshot dr)"

definition as_queued :: "bool \<Rightarrow> string list \<Rightarrow> wire_message list" where
  "as_queued oneshot ss = concat (map (\<lambda>s. wire_from_string s # (if oneshot then [Close None] else [])) ss)"

lemma enqueued_fields [simp]:
  "capacity (enqueued c m oneshot) = capacity c" "receiver_alive (enqueued c m oneshot) = receiver_alive c"
  by (simp_all add: enqueued_def)

lemma enqueued_take:
  "queue (enqueued c m oneshot) = queue c @
     (if receiver_alive c then take (capacity c - length (queue c)) (m # (if oneshot then [Close None] else [])) else [])"
proof -
  obtain n where n: "n = capacity c - length (queue c)" by blast
  show ?thesis
    by (cases n) (use n in \<open>auto simp: enqueued_def room_def take_Cons' Suc_diff_le\<close>)
qed

lemma fold_arrive_queue:
  "queue (fst (fold (arrive oneshot dr) ss (c, e))) = queue c @
     (if receiver_alive c then take (capacity c - length (queue c)) (as_queued oneshot ss) else [])"
proof (induction ss arbitrary: c e)
  case (Cons s ss)
  obtain m where m: "m = wire_from_string s # (if oneshot then [Close None] else [])" by blast
  have "as_queued oneshot (s # ss) = m @ as_queued oneshot ss" by (simp add: as_queued_def m)
  moreover have "capacity c - (length (queue c) + min (length m) (capacity c - length (queue c))) =
      capacity c - length (queue c) - length m"
    by (auto simp: min_def)
  ultimately show ?case
    using Cons.IH [of "enqueued c (wire_from_string s) oneshot"] enqueued_take [of c "wire_from_string s" oneshot, folded m]
    by simp
qed (simp add: as_queued_def)

lemma fold_arrive_end:
  "snd (fold (arrive oneshot dr) ss (c, e)) \<longleftrightarrow>
     e \<or> (oneshot \<and> ss \<noteq> []) \<or> (dr \<and> receiver_alive c \<and> capacity c - length (queue c) < length ss)"
proof (induction ss arbitrary: c e)
  case (Cons s ss)
  have "length (queue (enqueued c (wire_from_string s) False)) =
      length (queue c) + (if receiver_alive c \<and> length (queue c) < capacity c then 1 else 0)"
    by (simp add: enqueued_def room_def)
  with Cons.IH [of "enqueued c (wire_from_string s) oneshot"] show ?case
    by (cases oneshot) (auto simp: policy_close_def room_def)
qed simp

lemma send_one_effect:
  assumes "world_inv w" and "states w d = Some st" and "tb = set_ws_states oneshot dr toolbox_new"
    and "w' = send_one ser tb op w"
  shows "world_inv w' \<and> states w' = states w \<and>
    (chans w' (ss_message_queue st), ends w' (ss_end st)) =
      fold (arrive oneshot dr) (text_for ser d op) (chans w (ss_message_queue st), ends w (ss_end st))"
proof -
  have tb: "send_msg tb = Some (oneshot, dr)" "send_raw_msg tb = Some (oneshot, dr)"
    using assms(3) by (simp_all add: set_ws_states_def toolbox_new_def)
  have raw: "world_inv w1 \<and> states w1 = states w \<and>
      (chans w1 (ss_message_queue st), ends w1 (ss_end st)) =
        fold (arrive oneshot dr) (if c = d then [s] else []) (chans w (ss_message_queue st), ends w (ss_end st))"
    if "w1 = fst (send_raw_fn (oneshot, dr) c s w)" for c s w1
  proof (cases "states w c")
    case None
    with that assms(1,2) show ?thesis by (auto simp: send_raw_fn_def)
  next
    case (Some sc)
    then have w1: "w1 = enqueue (ss_message_queue sc) (Some (ss_end sc)) s oneshot dr w"
      using that by (simp add: send_raw_fn_def)
    have "c \<noteq> d \<Longrightarrow> ss_message_queue sc \<noteq> ss_message_queue st \<and> ss_end sc \<noteq> ss_end st"
      using assms(1,2) Some unfolding world_inv_def by metis
    with Some assms(1,2) show ?thesis
      by (auto simp: w1 world_inv_enqueue enqueue_effect)
  qed
  show ?thesis
  proof (cases op)
    case (FrameTo c resp)
    have "w' = (case ser resp of Some s \<Rightarrow> fst (send_raw_fn (oneshot, dr) c s w) | None \<Rightarrow> w)"
      using assms(4) FrameTo tb(1) by (simp add: send_def send_fn_raw split: option.split)
    with raw [of w' c] assms(1) FrameTo show ?thesis by (cases "ser resp") auto
  next
    case (RawTo c s)
    with raw [of w' c s] assms(4) tb(2) show ?thesis by (simp add: send_raw_def)
  qed
qed

lemma sends_effect:
  "world_inv w \<Longrightarrow> states w d = Some st \<Longrightarrow> w' = fold (send_one ser (set_ws_states oneshot dr toolbox_new)) ops w \<Longrightarrow>
     states w' = states w \<and>
     (chans w' (ss_message_queue st), ends w' (ss_end st)) =
       fold (arrive oneshot dr) (concat (map (text_for ser d) ops)) (chans w (ss_message_queue st), ends w (ss_end st))"
proof (induction ops arbitrary: w)
  case (Cons op ops)
  note e = send_one_effect [OF Cons.prems(1,2) refl refl, where ser = ser and oneshot = oneshot and dr = dr and op = op]
  with Cons.IH [of "send_one ser (set_ws_states oneshot dr toolbox_new) op w"] Cons.prems show ?case
    by simp
qed simp

text \<open>
  C24. A connection gets what is sent to it, and nothing else. After any sequence of sends, frames and
  ready-made texts to any connections, the queue of a registered connection has grown at its back by exactly
  the texts sent to it, in order, as many as there was room for (each with its \<open>Close\<close> behind it if the
  server is one-shot), or not at all if its receiver is gone; its end flag is raised if it was, if the
  server is one-shot and something was sent to it, or if the server drops slow clients and more was sent to
  it than there was room for. What is sent to others makes no difference, and the table stays.
\<close>
theorem sends_are_isolated:
  assumes "world_inv w" and "states w d = Some st"
  shows "let w' = fold (send_one ser (set_ws_states oneshot drop_on_full toolbox_new)) ops w;
             ss = concat (map (text_for ser d) ops); c = chans w (ss_message_queue st)
         in states w' = states w \<and>
            queue (chans w' (ss_message_queue st)) = queue c @
              (if receiver_alive c
               then take (capacity c - length (queue c))
                      (concat (map (\<lambda>s. wire_from_string s # (if oneshot then [Close None] else [])) ss))
               else []) \<and>
            (ends w' (ss_end st) \<longleftrightarrow>
               ends w (ss_end st) \<or> (oneshot \<and> ss \<noteq> []) \<or>
               (drop_on_full \<and> receiver_alive c \<and> capacity c - length (queue c) < length ss))"
proof -
  let ?ss = "concat (map (text_for ser d) ops)" and ?c = "chans w (ss_message_queue st)"
  let ?w = "fold (send_one ser (set_ws_states oneshot drop_on_full toolbox_new)) ops w"
  note e = sends_effect [OF assms refl, of ser oneshot drop_on_full ops]
  have "chans ?w (ss_message_queue st) = fst (fold (arrive oneshot drop_on_full) ?ss (?c, ends w (ss_end st)))"
    "ends ?w (ss_end st) = snd (fold (arrive oneshot drop_on_full) ?ss (?c, ends w (ss_end st)))"
    by (metis e fst_conv, metis e snd_conv)
  with e show ?thesis
    by (simp add: Let_def fold_arrive_queue fold_arrive_end as_queued_def)
qed

text \<open>Two connections with room for two messages each; the fifth is sent three, the sixth one.\<close>

definition two_conns :: world where
  "two_conns = one_slot\<lparr>chans := (\<lambda>_. channel 2),
     states := [5 \<mapsto> \<lparr>ss_conn = 0, ss_message_queue = 0, ss_end = 0\<rparr>, 6 \<mapsto> \<lparr>ss_conn = 1, ss_message_queue = 1, ss_end = 1\<rparr>]\<rparr>"

theorem sends_are_isolated_witness:
  "let w' = fold (send_one (\<lambda>_. Some ''f'') (set_ws_states False True toolbox_new))
              [FrameTo 5 CloseResponse, RawTo 6 ''a'', RawTo 5 ''b'', RawTo 7 ''x'', RawTo 5 ''c''] two_conns
   in queue (chans w' 0) = [wire_from_string ''f'', wire_from_string ''b''] \<and> ends w' 0 \<and>
      queue (chans w' 1) = [wire_from_string ''a''] \<and> \<not> ends w' 1"
proof -
  let ?ops = "[FrameTo 5 CloseResponse, RawTo 6 ''a'', RawTo 5 ''b'', RawTo 7 ''x'', RawTo 5 ''c'']"
  have inv: "world_inv two_conns" by (simp add: world_inv_def two_conns_def)
  have st: "states two_conns 5 = Some \<lparr>ss_conn = 0, ss_message_queue = 0, ss_end = 0\<rparr>"
    "states two_conns 6 = Some \<lparr>ss_conn = 1, ss_message_queue = 1, ss_end = 1\<rparr>"
    "chans two_conns q = channel 2" "\<not> ends two_conns e" for q e
    by (simp_all add: two_conns_def one_slot_def)
  from sends_are_isolated [OF inv st(1), of "\<lambda>_. Some ''f''" False True ?ops]
    sends_are_isolated [OF inv st(2), of "\<lambda>_. Some ''f''" False True ?ops] st(3,4) show ?thesis
    by (simp add: Let_def channel_def)
qed

fun response_method :: "ws_response_value \<Rightarrow> u32 option" where
  "response_method (Immediate r) = Some (sr_method r)"
| "response_method (ErrorResponse e) = Some (re_method e)"
| "response_method _ = None"

fun response_seq :: "ws_response_value \<Rightarrow> u32 option" where
  "response_seq (Immediate r) = Some (sr_seq r)"
| "response_seq (ErrorResponse e) = Some (re_seq e)"
| "response_seq _ = None"

text \<open>How the two error types of handlers correspond.\<close>

fun as_report :: "custom_error handler_error \<Rightarrow> report" where
  "as_report (Public e) = CustomReport e"
| "as_report (Internal (OtherReport m)) = OtherReport m"
| "as_report (Internal r) = OtherReport []"
| "as_report NoResponse = NoResponseReport"

text \<open>
  The encoding of a handler's result: there is no frame exactly when the handler asked for none;
  otherwise the frame answers the request's own method and sequence number, so that a client can
  match it. What an internal error says never reaches the client: the frame depends only on the
  context. The older \<open>encode_ws_response\<close> and \<open>encode_handler_response\<close> give the same frame for
  corresponding results.
\<close>
theorem handler_response_encoding:
  "(encode_handler_response into ctx resp = None \<longleftrightarrow> resp = Err NoResponse) \<and>
   (\<forall>r. encode_handler_response into ctx resp = Some r \<longrightarrow>
      response_method r = Some (rc_method ctx) \<and> response_seq r = Some (rc_seq ctx)) \<and>
   (\<forall>e e'. encode_handler_response into ctx (Err (Internal e)) =
           encode_handler_response into ctx (Err (Internal e'))) \<and>
   encode_handler_response (\<lambda>e. e) ctx resp' = encode_ws_response ctx (result_map_err as_report resp')"
proof -
  have "encode_handler_response (\<lambda>e. e) ctx resp' = encode_ws_response ctx (result_map_err as_report resp')"
  proof (cases resp')
    case (Err e)
    then show ?thesis
      by (cases e rule: as_report.cases)
        (auto simp: encode_handler_response_def encode_ws_response_def internal_error_to_resp_def)
  qed (simp add: encode_handler_response_def encode_ws_response_def)
  then show ?thesis
    by (auto simp: encode_handler_response_def encode_ok_def serialize_failed_def error_response_def
        custom_error_to_resp_def internal_error_to_resp_def
        split: result.splits handler_error.splits option.splits)
qed

theorem handler_response_encoding_witness:
  "let r = Immediate \<lparr>sr_method = 0, sr_seq = 0, sr_params = JNull\<rparr>
   in encode_handler_response (\<lambda>e. e) empty_context (Ok (Some JNull)) = Some r \<and>
      response_method r = Some 0 \<and> response_seq r = Some 0"
  using handler_response_encoding [of "\<lambda>e. e" empty_context "Ok (Some JNull)" "Ok (Some JNull)"]
  by (simp add: encode_handler_response_def encode_ok_def empty_context_def Let_def)

end
