(* ===== verification/Subs.thy ===== *)
theory Subs
  imports Toolbox
begin

text \<open>
  \<open>src/libs/ws/subs.rs\<close>: subscriptions and stream publishing. The order in which a hash map or hash
  set is iterated is not fixed: \<open>ord\<close> is any function that lists a finite set once each. Stream
  numbers are \<open>AtomicU32\<close>, whose \<open>fetch_add\<close> wraps. \<open>data\<close> is what \<open>to_raw_value\<close> made of the message.
\<close>

section \<open>The manager\<close>

record 's subscribe_context =
  sc_ctx :: request_context
  sc_stream_seq :: u32
  sc_settings :: 's

record ('s, 'k) subscription_manager =
  sm_stream_code :: u32
  sm_subscribes :: "connection_id \<Rightarrow> 's subscribe_context option"
  sm_mappings :: "'k \<Rightarrow> connection_id set option"

definition manager_new :: "u32 \<Rightarrow> ('s, 'k) subscription_manager" where
  "manager_new code = \<lparr>sm_stream_code = code, sm_subscribes = Map.empty, sm_mappings = Map.empty\<rparr>"

definition map_insert :: "connection_id \<Rightarrow> 'k \<Rightarrow> ('k \<Rightarrow> connection_id set option) \<Rightarrow> ('k \<Rightarrow> connection_id set option)" where
  "map_insert c k m = m(k \<mapsto> insert c (case m k of Some S \<Rightarrow> S | None \<Rightarrow> {}))"

definition subscribe_with ::
  "request_context \<Rightarrow> 'k list \<Rightarrow> 's \<Rightarrow> ('s subscribe_context \<Rightarrow> 's subscribe_context)
    \<Rightarrow> ('s, 'k) subscription_manager \<Rightarrow> ('s, 'k) subscription_manager" where
  "subscribe_with ctx keys new modify m =
     (let c = rc_connection_id ctx;
          entry = (case sm_subscribes m c of
                     Some s \<Rightarrow> modify s
                   | None \<Rightarrow> \<lparr>sc_ctx = ctx, sc_stream_seq = 0, sc_settings = new\<rparr>) in
      m\<lparr>sm_subscribes := (sm_subscribes m)(c \<mapsto> entry),
        sm_mappings := fold (map_insert c) keys (sm_mappings m)\<rparr>)"

definition subscribe ::
  "request_context \<Rightarrow> 's \<Rightarrow> ('s subscribe_context \<Rightarrow> 's subscribe_context)
    \<Rightarrow> ('s, 'k) subscription_manager \<Rightarrow> ('s, 'k) subscription_manager" where
  "subscribe ctx setting modify m = subscribe_with ctx [] setting modify m"

definition subscribe_with_keys ::
  "request_context \<Rightarrow> 'k list \<Rightarrow> 's \<Rightarrow> ('s subscribe_context \<Rightarrow> 's subscribe_context)
    \<Rightarrow> ('s, 'k) subscription_manager \<Rightarrow> ('s, 'k) subscription_manager" where
  "subscribe_with_keys ctx keys setting modify m = subscribe_with ctx keys setting modify m"

definition unsubscribe :: "connection_id \<Rightarrow> ('s, 'k) subscription_manager \<Rightarrow> ('s, 'k) subscription_manager" where
  "unsubscribe c m =
     m\<lparr>sm_subscribes := (sm_subscribes m)(c := None),
       sm_mappings := (\<lambda>k. map_option (\<lambda>S. S - {c}) (sm_mappings m k))\<rparr>"

definition remove_key :: "connection_id \<Rightarrow> 'k \<Rightarrow> ('k \<Rightarrow> connection_id set option) \<Rightarrow> ('k \<Rightarrow> connection_id set option)" where
  "remove_key c k m =
     (case m k of
        Some S \<Rightarrow> if S - {c} = {} then m(k := None) else m(k \<mapsto> S - {c})
      | None \<Rightarrow> m)"

text \<open>\<open>remove\<close> may update the subscription and says whether to drop it and which keys to leave.\<close>

definition unsubscribe_with ::
  "connection_id \<Rightarrow> ('s subscribe_context \<Rightarrow> 's subscribe_context \<times> bool \<times> 'k list)
    \<Rightarrow> ('s, 'k) subscription_manager \<Rightarrow> ('s, 'k) subscription_manager" where
  "unsubscribe_with c remove m =
     (case sm_subscribes m c of
        None \<Rightarrow> m
      | Some s \<Rightarrow>
          (case remove s of
             (s', removed, keys) \<Rightarrow>
               m\<lparr>sm_subscribes := (sm_subscribes m)(c := (if removed then None else Some s')),
                 sm_mappings := fold (remove_key c) keys (sm_mappings m)\<rparr>))"

section \<open>Publishing\<close>

definition stream_frame :: "u32 \<Rightarrow> 's subscribe_context \<Rightarrow> json \<Rightarrow> ws_response_value" where
  "stream_frame code s data =
     Stream \<lparr>st_original_seq = rc_seq (sc_ctx s), st_method = rc_method (sc_ctx s),
       st_stream_seq = sc_stream_seq s, st_stream_code = code, st_data = data\<rparr>"

definition bump :: "'s subscribe_context \<Rightarrow> 's subscribe_context" where
  "bump s = s\<lparr>sc_stream_seq := sc_stream_seq s + 1\<rparr>"

type_synonym 'w sender = "connection_id \<Rightarrow> ws_response_value \<Rightarrow> 'w \<Rightarrow> 'w \<times> bool"

definition publish_to ::
  "'w sender \<Rightarrow> connection_id \<Rightarrow> json option \<Rightarrow> ('s, 'k) subscription_manager \<times> 'w
    \<Rightarrow> ('s, 'k) subscription_manager \<times> 'w" where
  "publish_to sendf c data mw =
     (case mw of (m, w) \<Rightarrow>
       case sm_subscribes m c of
         None \<Rightarrow> (m, w)
       | Some s \<Rightarrow>
           (case data of
              None \<Rightarrow> (m, w)
            | Some d \<Rightarrow>
                (let m' = m\<lparr>sm_subscribes := (sm_subscribes m)(c \<mapsto> bump s)\<rparr> in
                 case sendf (rc_connection_id (sc_ctx s)) (stream_frame (sm_stream_code m) s d) w of
                   (w', alive) \<Rightarrow>
                     (if alive then m' else unsubscribe (rc_connection_id (sc_ctx s)) m', w'))))"

definition publish_to_key ::
  "(connection_id set \<Rightarrow> connection_id list) \<Rightarrow> 'w sender \<Rightarrow> 'k \<Rightarrow> json option
    \<Rightarrow> ('s, 'k) subscription_manager \<times> 'w \<Rightarrow> ('s, 'k) subscription_manager \<times> 'w" where
  "publish_to_key ord sendf key data mw =
     (case sm_mappings (fst mw) key of
        None \<Rightarrow> mw
      | Some S \<Rightarrow> fold (\<lambda>c. publish_to sendf c data) (ord S) mw)"

primrec publish_new ::
  "'w sender \<Rightarrow> json option \<Rightarrow> connection_id list
    \<Rightarrow> connection_id set \<times> ('s, 'k) subscription_manager \<times> 'w
    \<Rightarrow> connection_id set \<times> ('s, 'k) subscription_manager \<times> 'w" where
  "publish_new sendf data [] pmw = pmw"
| "publish_new sendf data (c # cs) pmw =
     publish_new sendf data cs
       (if c \<in> fst pmw then pmw else (insert c (fst pmw), publish_to sendf c data (snd pmw)))"

primrec publish_keys_loop ::
  "(connection_id set \<Rightarrow> connection_id list) \<Rightarrow> 'w sender \<Rightarrow> json option \<Rightarrow> 'k list
    \<Rightarrow> connection_id set \<times> ('s, 'k) subscription_manager \<times> 'w
    \<Rightarrow> connection_id set \<times> ('s, 'k) subscription_manager \<times> 'w" where
  "publish_keys_loop ord sendf data [] pmw = pmw"
| "publish_keys_loop ord sendf data (key # keys) pmw =
     publish_keys_loop ord sendf data keys
       (case sm_mappings (fst (snd pmw)) key of
          Some S \<Rightarrow> publish_new sendf data (ord S) pmw
        | None \<Rightarrow> pmw)"

definition publish_to_keys ::
  "(connection_id set \<Rightarrow> connection_id list) \<Rightarrow> 'w sender \<Rightarrow> 'k list \<Rightarrow> json option
    \<Rightarrow> ('s, 'k) subscription_manager \<times> 'w \<Rightarrow> ('s, 'k) subscription_manager \<times> 'w" where
  "publish_to_keys ord sendf keys data mw = snd (publish_keys_loop ord sendf data keys ({}, mw))"

text \<open>\<open>filter\<close> chooses the message of a subscriber; its value is already serialised.\<close>

definition publish_one ::
  "'w sender \<Rightarrow> ('s subscribe_context \<Rightarrow> json option option) \<Rightarrow> connection_id
    \<Rightarrow> connection_id list \<times> ('s, 'k) subscription_manager \<times> 'w
    \<Rightarrow> connection_id list \<times> ('s, 'k) subscription_manager \<times> 'w" where
  "publish_one sendf filt c dmw =
     (case dmw of (dead, m, w) \<Rightarrow>
       case sm_subscribes m c of
         None \<Rightarrow> (dead, m, w)
       | Some s \<Rightarrow>
           (case filt s of
              Some (Some d) \<Rightarrow>
                (let m' = m\<lparr>sm_subscribes := (sm_subscribes m)(c \<mapsto> bump s)\<rparr> in
                 case sendf (rc_connection_id (sc_ctx s)) (stream_frame (sm_stream_code m) s d) w of
                   (w', alive) \<Rightarrow> (if alive then dead else dead @ [rc_connection_id (sc_ctx s)], m', w'))
            | _ \<Rightarrow> (dead, m, w)))"

definition publish_with_filter ::
  "(connection_id set \<Rightarrow> connection_id list) \<Rightarrow> 'w sender \<Rightarrow> ('s subscribe_context \<Rightarrow> json option option)
    \<Rightarrow> ('s, 'k) subscription_manager \<times> 'w \<Rightarrow> ('s, 'k) subscription_manager \<times> 'w" where
  "publish_with_filter ord sendf filt mw =
     (case fold (publish_one sendf filt) (ord (dom (sm_subscribes (fst mw)))) ([], mw) of
        (dead, m, w) \<Rightarrow> (fold unsubscribe dead m, w))"

definition publish_to_all ::
  "(connection_id set \<Rightarrow> connection_id list) \<Rightarrow> 'w sender \<Rightarrow> json option
    \<Rightarrow> ('s, 'k) subscription_manager \<times> 'w \<Rightarrow> ('s, 'k) subscription_manager \<times> 'w" where
  "publish_to_all ord sendf data mw = publish_with_filter ord sendf (\<lambda>_. Some data) mw"

section \<open>Invariant\<close>

text \<open>
  A subscription is filed under its own connection, and finitely many connections are filed. The
  callbacks must not move a subscription to another connection.
\<close>

definition subs_inv :: "('s, 'k) subscription_manager \<Rightarrow> bool" where
  "subs_inv m \<longleftrightarrow>
     finite (dom (sm_subscribes m)) \<and>
     (\<forall>c s. sm_subscribes m c = Some s \<longrightarrow> rc_connection_id (sc_ctx s) = c) \<and>
     (\<forall>k S. sm_mappings m k = Some S \<longrightarrow> finite S)"

definition keeps_connection :: "('s subscribe_context \<Rightarrow> 's subscribe_context) \<Rightarrow> bool" where
  "keeps_connection f \<longleftrightarrow> (\<forall>s. rc_connection_id (sc_ctx (f s)) = rc_connection_id (sc_ctx s))"

lemma subs_inv_new: "subs_inv (manager_new code)"
  by (simp add: subs_inv_def manager_new_def)

lemma finite_map_insert:
  "\<forall>k S. m k = Some S \<longrightarrow> finite S \<Longrightarrow> fold (map_insert c) keys m k = Some S \<Longrightarrow> finite S"
proof (induction keys arbitrary: m)
  case (Cons key keys)
  then show ?case
    by (auto simp: map_insert_def split: option.splits if_splits)
qed auto

lemma subs_inv_subscribe_with:
  "subs_inv m \<Longrightarrow> keeps_connection modify \<Longrightarrow> subs_inv (subscribe_with ctx keys new modify m)"
  unfolding subs_inv_def subscribe_with_def keeps_connection_def
  by (auto simp: Let_def dest!: finite_map_insert [rotated] split: option.splits if_splits)

lemma subs_inv_unsubscribe: "subs_inv m \<Longrightarrow> subs_inv (unsubscribe c m)"
  by (auto simp: subs_inv_def unsubscribe_def dom_def split: if_splits intro: finite_subset [rotated])

lemma finite_remove_key:
  "\<forall>k S. m k = Some S \<longrightarrow> finite S \<Longrightarrow> fold (remove_key c) keys m k = Some S \<Longrightarrow> finite S"
proof (induction keys arbitrary: m)
  case (Cons key keys)
  then show ?case
    by (auto simp: remove_key_def split: option.splits if_splits)
qed auto

section \<open>What publishing relies on\<close>

text \<open>The frame \<open>filt\<close> selects for connection \<open>c\<close>.\<close>

definition selected ::
  "('s subscribe_context \<Rightarrow> json option option) \<Rightarrow> ('s, 'k) subscription_manager \<Rightarrow> connection_id
    \<Rightarrow> ws_response_value option" where
  "selected filt m c =
     Option.bind (sm_subscribes m c) (\<lambda>s. Option.bind (filt s)
       (map_option (stream_frame (sm_stream_code m) s)))"

definition bumped :: "ws_response_value option \<Rightarrow> 's subscribe_context option \<Rightarrow> 's subscribe_context option" where
  "bumped f s = (case f of Some _ \<Rightarrow> map_option bump s | None \<Rightarrow> s)"

text \<open>
  The interface of the sender: what a connection has queued (its view) changes only by its own
  sends, each of which acts on that view alone, and the result says whether the connection is known.
\<close>

locale publisher =
  fixes inv :: "'w \<Rightarrow> bool" and deliver :: "'w sender" and view :: "connection_id \<Rightarrow> 'w \<Rightarrow> 'v"
    and act :: "ws_response_value \<Rightarrow> 'v \<Rightarrow> 'v" and alive :: "'v \<Rightarrow> bool"
  assumes inv_deliver: "inv w \<Longrightarrow> inv (fst (deliver c f w))"
    and view_same: "inv w \<Longrightarrow> view c (fst (deliver c f w)) = act f (view c w)"
    and view_other: "inv w \<Longrightarrow> d \<noteq> c \<Longrightarrow> view d (fst (deliver c f w)) = view d w"
    and deliver_alive: "inv w \<Longrightarrow> snd (deliver c f w) = alive (view c w)"
begin

definition acted :: "ws_response_value option \<Rightarrow> 'v \<Rightarrow> 'v" where
  "acted f v = (case f of Some f \<Rightarrow> act f v | None \<Rightarrow> v)"

lemma publish_one_effect:
  assumes "inv w" and "\<And>s. sm_subscribes m c = Some s \<Longrightarrow> rc_connection_id (sc_ctx s) = c"
    and "publish_one deliver filt c (dead, m, w) = (dead', m', w')"
  shows "inv w' \<and> m' = m\<lparr>sm_subscribes := (sm_subscribes m)(c := bumped (selected filt m c) (sm_subscribes m c))\<rparr>
    \<and> (\<forall>d. view d w' = (if d = c then acted (selected filt m c) (view c w) else view d w))
    \<and> dead' = dead @ (if selected filt m c \<noteq> None \<and> \<not> alive (view c w) then [c] else [])"
proof (cases "selected filt m c")
  case None
  then have "(dead', m', w') = (dead, m, w)"
    using assms(3) by (auto simp: publish_one_def selected_def split: option.splits)
  moreover have "m\<lparr>sm_subscribes := (sm_subscribes m)(c := sm_subscribes m c)\<rparr> = m"
    by simp
  ultimately show ?thesis
    using None assms(1) by (simp add: acted_def bumped_def)
next
  case (Some f)
  then obtain s d where s: "sm_subscribes m c = Some s" and d: "filt s = Some (Some d)"
    and f: "f = stream_frame (sm_stream_code m) s d"
    by (auto simp: selected_def bind_eq_Some_conv)
  obtain w1 al where dl: "deliver c f w = (w1, al)" by (cases "deliver c f w")
  with s d f assms(2,3) have "m' = m\<lparr>sm_subscribes := (sm_subscribes m)(c \<mapsto> bump s)\<rparr>" "w' = w1"
    "dead' = (if al then dead else dead @ [c])"
    by (auto simp: publish_one_def Let_def)
  with dl Some s view_same [OF assms(1), of c f] view_other [OF assms(1), of _ c f]
    deliver_alive [OF assms(1), of c f] inv_deliver [OF assms(1), of c f]
  show ?thesis
    by (simp add: acted_def bumped_def)
qed

lemma fold_publish_one:
  assumes "distinct cs" and "inv w"
    and "\<And>c s. sm_subscribes m c = Some s \<Longrightarrow> rc_connection_id (sc_ctx s) = c"
    and "fold (publish_one deliver filt) cs (dead, m, w) = (dead', m', w')"
  shows "inv w' \<and> sm_mappings m' = sm_mappings m \<and> sm_stream_code m' = sm_stream_code m \<and>
    (\<forall>c. sm_subscribes m' c =
       (if c \<in> set cs then bumped (selected filt m c) (sm_subscribes m c) else sm_subscribes m c)) \<and>
    (\<forall>c. view c w' = (if c \<in> set cs then acted (selected filt m c) (view c w) else view c w)) \<and>
    dead' = dead @ filter (\<lambda>c. selected filt m c \<noteq> None \<and> \<not> alive (view c w)) cs"
  using assms
proof (induction cs arbitrary: dead m w)
  case (Cons c cs)
  obtain dead1 m1 w1 where p: "publish_one deliver filt c (dead, m, w) = (dead1, m1, w1)"
    by (cases "publish_one deliver filt c (dead, m, w)") auto
  note e = publish_one_effect [OF Cons.prems(2) _ p]
  have e1: "inv w1" "m1 = m\<lparr>sm_subscribes := (sm_subscribes m)(c := bumped (selected filt m c) (sm_subscribes m c))\<rparr>"
    "\<And>d. view d w1 = (if d = c then acted (selected filt m c) (view c w) else view d w)"
    "dead1 = dead @ (if selected filt m c \<noteq> None \<and> \<not> alive (view c w) then [c] else [])"
    using e Cons.prems(3) by auto
  have sel: "selected filt m1 d = selected filt m d" if "d \<noteq> c" for d
    using that e1(2) by (simp add: selected_def)
  have ids: "\<And>d s. sm_subscribes m1 d = Some s \<Longrightarrow> rc_connection_id (sc_ctx s) = d"
    using Cons.prems(3) e1(2) by (auto simp: bumped_def bump_def split: if_splits option.splits)
  have rest: "fold (publish_one deliver filt) cs (dead1, m1, w1) = (dead', m', w')"
    using Cons.prems(4) p by simp
  have "c \<notin> set cs" "distinct cs" using Cons.prems(1) by auto
  moreover have "filter (\<lambda>d. selected filt m1 d \<noteq> None \<and> \<not> alive (view d w1)) cs =
      filter (\<lambda>d. selected filt m d \<noteq> None \<and> \<not> alive (view d w)) cs"
    using \<open>c \<notin> set cs\<close> sel e1(3) by (intro filter_cong) auto
  ultimately show ?case
    using Cons.IH [OF _ e1(1) ids rest] sel e1(2-4) by auto
qed simp

end

lemma fold_unsubscribe:
  "fold unsubscribe cs m =
     m\<lparr>sm_subscribes := (\<lambda>c. if c \<in> set cs then None else sm_subscribes m c),
       sm_mappings := (\<lambda>k. map_option (\<lambda>S. S - set cs) (sm_mappings m k))\<rparr>"
  by (induction cs arbitrary: m)
    (auto simp: unsubscribe_def fun_eq_iff option.map_comp comp_def option.map_ident intro!: subscription_manager.equality
      map_option_cong)

definition iterates :: "(connection_id set \<Rightarrow> connection_id list) \<Rightarrow> bool" where
  "iterates ord \<longleftrightarrow> (\<forall>S. finite S \<longrightarrow> distinct (ord S) \<and> set (ord S) = S)"

context publisher
begin

lemma publish_with_filter_effect:
  assumes "inv w" and "subs_inv m" and "iterates ord"
    and "publish_with_filter ord deliver filt (m, w) = (m', w')"
  shows "inv w' \<and> sm_stream_code m' = sm_stream_code m
    \<and> (\<forall>c. view c w' = acted (selected filt m c) (view c w))
    \<and> (\<forall>c. sm_subscribes m' c =
         (if selected filt m c \<noteq> None \<and> \<not> alive (view c w) then None
          else bumped (selected filt m c) (sm_subscribes m c)))
    \<and> (\<forall>k. sm_mappings m' k =
         map_option (\<lambda>S. {c \<in> S. \<not> (selected filt m c \<noteq> None \<and> \<not> alive (view c w))}) (sm_mappings m k))"
proof -
  let ?cs = "ord (dom (sm_subscribes m))"
  have cs: "distinct ?cs" "set ?cs = dom (sm_subscribes m)"
    using assms(2,3) by (auto simp: iterates_def subs_inv_def)
  obtain dead m1 w1 where f: "fold (publish_one deliver filt) ?cs ([], m, w) = (dead, m1, w1)"
    by (cases "fold (publish_one deliver filt) ?cs ([], m, w)") auto
  have none: "selected filt m c = None" if "c \<notin> set ?cs" for c
    using that cs(2) by (auto simp: selected_def)
  have ids: "\<And>c s. sm_subscribes m c = Some s \<Longrightarrow> rc_connection_id (sc_ctx s) = c"
    using assms(2) by (simp add: subs_inv_def)
  note e = fold_publish_one [OF cs(1) assms(1) ids f]
  have dead: "set dead = {c. selected filt m c \<noteq> None \<and> \<not> alive (view c w)}"
  proof -
    have "dead = filter (\<lambda>c. selected filt m c \<noteq> None \<and> \<not> alive (view c w)) ?cs"
      using e by simp
    moreover have "selected filt m c \<noteq> None \<Longrightarrow> c \<in> set ?cs" for c
      by (rule ccontr) (simp add: none)
    ultimately show ?thesis by (simp only: set_filter) blast
  qed
  have m': "m' = fold unsubscribe dead m1" "w' = w1"
    using assms(4) f by (auto simp: publish_with_filter_def)
  have v: "view c w1 = acted (selected filt m c) (view c w)" for c
    using e none [of c] by (cases "c \<in> set ?cs") (simp_all add: acted_def)
  have s: "sm_subscribes m1 c = bumped (selected filt m c) (sm_subscribes m c)" for c
    using e none [of c] by (cases "c \<in> set ?cs") (simp_all add: bumped_def)
  have "S - set dead = {c \<in> S. \<not> (selected filt m c \<noteq> None \<and> \<not> alive (view c w))}" for S
    unfolding dead by blast
  with e v s dead show ?thesis
    unfolding m' fold_unsubscribe by simp
qed

end

text \<open>What a frame does to what a registered connection has queued.\<close>

definition queue_frame ::
  "(ws_response_value \<Rightarrow> string option) \<Rightarrow> bool \<Rightarrow> ws_response_value
    \<Rightarrow> wire_message inner option \<Rightarrow> wire_message inner option" where
  "queue_frame ser oneshot f v =
     map_option (\<lambda>c. case ser f of Some s \<Rightarrow> enqueued c (wire_from_string s) oneshot | None \<Rightarrow> c) v"

interpretation pub: publisher world_inv "send_fn ser flags" chan_view "queue_frame ser (fst flags)"
  "\<lambda>v. v \<noteq> None" for ser flags
proof (unfold_locales, goal_cases)
  case (1 w c f)
  then show ?case by (rule frames.inv_deliver)
next
  case (2 w c f)
  then show ?case
    by (cases "states w c")
      (auto simp: send_fn_def queue_frame_def chan_view_def enqueue_effect split: option.splits)
next
  case (3 w d c f)
  then show ?case
    by (cases "states w c") (auto simp: send_fn_def chan_view_enqueue split: option.splits)
next
  case (4 w c f)
  then show ?case
    by (auto simp: send_fn_def chan_view_def split: option.splits)
qed

lemma send_conv: "send_msg tb = Some flags \<Longrightarrow> send ser tb = send_fn ser flags"
  by (simp add: fun_eq_iff send_def)

lemma bumped_ids: "rc_connection_id (sc_ctx (bump s)) = rc_connection_id (sc_ctx s)"
  by (simp add: bump_def)

lemma subs_inv_publish:
  assumes "subs_inv m" and "iterates ord" and "world_inv w"
    and "publish_with_filter ord (send_fn ser flags) filt (m, w) = (m', w')"
  shows "subs_inv m'"
proof -
  note e = pub.publish_with_filter_effect [OF assms(3,1,2,4)]
  have "dom (sm_subscribes m') \<subseteq> dom (sm_subscribes m)"
    using e by (auto simp: dom_def bumped_def split: option.splits if_splits)
  with assms(1) e show ?thesis
    unfolding subs_inv_def
    by (auto simp: bumped_def bumped_ids split: option.splits if_splits intro: finite_subset)
qed

section \<open>Properties\<close>

text \<open>
  C27. One publication, for any iteration order of the hash maps. Every subscriber the filter selects
  is handed exactly one frame, on its own queue and with its own stream number, and its number
  advances by one (modulo \<open>2^32\<close>); a subscriber that is not selected and every other connection see
  nothing. A selected subscriber whose connection is gone is removed, from the subscriptions and
  from every key, and no other subscriber is.
\<close>
theorem publish_once_per_subscriber:
  assumes "world_inv w" and "subs_inv m" and "iterates ord" and "send_msg tb = Some flags"
    and "publish_with_filter ord (send ser tb) filt (m, w) = (m', w')"
  shows "(\<forall>c. chan_view c w' =
       (case selected filt m c of Some f \<Rightarrow> queue_frame ser (fst flags) f (chan_view c w) | None \<Rightarrow> chan_view c w))
    \<and> (\<forall>c. sm_subscribes m' c =
       (if selected filt m c \<noteq> None \<and> states w c = None then None
        else bumped (selected filt m c) (sm_subscribes m c)))
    \<and> (\<forall>k. sm_mappings m' k =
       map_option (\<lambda>S. {c \<in> S. \<not> (selected filt m c \<noteq> None \<and> states w c = None)}) (sm_mappings m k))"
  using pub.publish_with_filter_effect [OF assms(1-3), of ser flags filt m' w'] assms(5)
  by (simp add: send_conv [OF assms(4)] pub.acted_def chan_view_None)

definition sample_manager :: "(unit, unit) subscription_manager" where
  "sample_manager = subscribe (empty_context\<lparr>rc_connection_id := 5\<rparr>) () (\<lambda>s. s) (manager_new 3)"

lemma iterates_sorted: "iterates sorted_list_of_set"
  by (simp add: iterates_def)

theorem publish_once_per_subscriber_witness:
  "let tb = set_ws_states False False toolbox_new;
       (m', w') = publish_with_filter sorted_list_of_set (send (\<lambda>_. Some ''f'') tb)
                    (\<lambda>_. Some (Some JNull)) (sample_manager, one_slot)
   in chan_view 5 w' = Some (enqueued (channel 1) (wire_from_string ''f'') False) \<and>
      map_option sc_stream_seq (sm_subscribes m' 5) = Some 1"
proof -
  let ?tb = "set_ws_states False False toolbox_new"
  let ?p = "publish_with_filter sorted_list_of_set (send (\<lambda>_. Some ''f'') ?tb)
      (\<lambda>_. Some (Some JNull)) (sample_manager, one_slot)"
  have 1: "world_inv one_slot" "subs_inv sample_manager" "send_msg ?tb = Some (False, False)"
    by (auto simp: world_inv_def one_slot_def sample_manager_def subscribe_def set_ws_states_def
        toolbox_new_def keeps_connection_def intro!: subs_inv_subscribe_with subs_inv_new split: if_splits)
  have 2: "selected (\<lambda>_. Some (Some JNull)) sample_manager 5 \<noteq> None" "states one_slot 5 \<noteq> None"
    "chan_view 5 one_slot = Some (channel 1)" "map_option sc_stream_seq (sm_subscribes sample_manager 5) = Some 0"
    by (simp_all add: selected_def sample_manager_def subscribe_def subscribe_with_def manager_new_def
        empty_context_def one_slot_def chan_view_def)
  obtain m' w' where p: "?p = (m', w')" by (cases ?p)
  from publish_once_per_subscriber [OF 1(1,2) iterates_sorted 1(3) p] 2 show ?thesis
    unfolding p Let_def
    by (auto simp: queue_frame_def bumped_def bump_def split: option.splits)
qed

section \<open>Series of publications\<close>

text \<open>A publication, by any of the manager's methods.\<close>

datatype ('s, 'k) publication =
    PublishTo connection_id "json option"
  | PublishToKey 'k "json option"
  | PublishToKeys "'k list" "json option"
  | PublishToAll "json option"
  | PublishFiltered "'s subscribe_context \<Rightarrow> json option option"

fun publish ::
  "(connection_id set \<Rightarrow> connection_id list) \<Rightarrow> 'w sender \<Rightarrow> ('s, 'k) publication
    \<Rightarrow> ('s, 'k) subscription_manager \<times> 'w \<Rightarrow> ('s, 'k) subscription_manager \<times> 'w" where
  "publish ord sendf (PublishTo c data) mw = publish_to sendf c data mw"
| "publish ord sendf (PublishToKey key data) mw = publish_to_key ord sendf key data mw"
| "publish ord sendf (PublishToKeys keys data) mw = publish_to_keys ord sendf keys data mw"
| "publish ord sendf (PublishToAll data) mw = publish_to_all ord sendf data mw"
| "publish ord sendf (PublishFiltered filt) mw = publish_with_filter ord sendf filt mw"

text \<open>What it should bring subscriber \<open>c\<close>, who has the keys \<open>K\<close>: one message or none.\<close>

definition keys_of :: "('s, 'k) subscription_manager \<Rightarrow> connection_id \<Rightarrow> 'k set" where
  "keys_of m c = {k. \<exists>S. sm_mappings m k = Some S \<and> c \<in> S}"

definition opt_list :: "'a option \<Rightarrow> 'a list" where
  "opt_list x = (case x of Some y \<Rightarrow> [y] | None \<Rightarrow> [])"

fun message_for :: "connection_id \<Rightarrow> 'k set \<Rightarrow> ('s, 'k) publication \<Rightarrow> 's subscribe_context \<Rightarrow> json list" where
  "message_for c K (PublishTo d data) s = (if d = c then opt_list data else [])"
| "message_for c K (PublishToKey key data) s = (if key \<in> K then opt_list data else [])"
| "message_for c K (PublishToKeys keys data) s = (if set keys \<inter> K \<noteq> {} then opt_list data else [])"
| "message_for c K (PublishToAll data) s = opt_list data"
| "message_for c K (PublishFiltered filt) s = opt_list (Option.bind (filt s) id)"

definition advance :: "nat \<Rightarrow> 's subscribe_context \<Rightarrow> 's subscribe_context" where
  "advance n s = s\<lparr>sc_stream_seq := sc_stream_seq s + word_of_nat n\<rparr>"

primrec messages_for ::
  "connection_id \<Rightarrow> 'k set \<Rightarrow> ('s, 'k) publication list \<Rightarrow> 's subscribe_context \<Rightarrow> json list" where
  "messages_for c K [] s = []"
| "messages_for c K (p # ps) s =
     message_for c K p s @ messages_for c K ps (advance (length (message_for c K p s)) s)"

primrec frames_of :: "u32 \<Rightarrow> 's subscribe_context \<Rightarrow> json list \<Rightarrow> ws_response_value list" where
  "frames_of code s [] = []"
| "frames_of code s (d # ds) = stream_frame code s d # frames_of code (bump s) ds"

lemma bump_advance: "bump s = advance 1 s"
  by (simp add: bump_def advance_def)

lemma advance_simps [simp]:
  "advance 0 s = s" "advance m (advance n s) = advance (n + m) s" "sc_ctx (advance n s) = sc_ctx s"
  by (simp_all add: advance_def algebra_simps)

lemma frames_of_append:
  "frames_of code s (xs @ ys) = frames_of code s xs @ frames_of code (advance (length xs) s) ys"
  by (induction xs arbitrary: s) (simp_all add: bump_advance)

lemma frames_of_nth:
  "i < length ds \<Longrightarrow> frames_of code s ds ! i = stream_frame code (advance i s) (ds ! i)"
proof (induction ds arbitrary: i s)
  case (Cons d ds)
  then show ?case by (cases i) (simp_all add: bump_advance)
qed simp

lemma length_frames_of [simp]: "length (frames_of code s ds) = length ds"
  by (induction ds arbitrary: s) auto

lemma frames_of_map:
  "frames_of code s ds = map (\<lambda>i. stream_frame code (advance i s) (ds ! i)) [0 ..< length ds]"
  by (rule nth_equalityI) (simp_all add: frames_of_nth)

text \<open>A sender whose frames do not end a connection.\<close>

locale live_publisher = publisher +
  assumes act_alive: "alive (act f v) = alive v"
begin

text \<open>A subscriber with a living connection, and a change that hands it the messages \<open>ds\<close>.\<close>

definition live :: "connection_id \<Rightarrow> 's subscribe_context \<Rightarrow> ('s, 'k) subscription_manager \<times> 'a \<Rightarrow> bool" where
  "live c s mw \<longleftrightarrow>
     inv (snd mw) \<and> subs_inv (fst mw) \<and> sm_subscribes (fst mw) c = Some s \<and> alive (view c (snd mw))"

definition hands ::
  "connection_id \<Rightarrow> 's subscribe_context \<Rightarrow> json list \<Rightarrow> ('s, 'k) subscription_manager \<times> 'a
    \<Rightarrow> ('s, 'k) subscription_manager \<times> 'a \<Rightarrow> bool" where
  "hands c s ds mw mw' \<longleftrightarrow>
     live c (advance (length ds) s) mw' \<and> sm_stream_code (fst mw') = sm_stream_code (fst mw) \<and>
     view c (snd mw') = fold act (frames_of (sm_stream_code (fst mw)) s ds) (view c (snd mw)) \<and>
     keys_of (fst mw') c = keys_of (fst mw) c"

lemma hands_refl: "live c s mw \<Longrightarrow> hands c s [] mw mw"
  by (simp add: hands_def)

lemma hands_trans:
  "hands c s xs mw mw1 \<Longrightarrow> hands c (advance (length xs) s) ys mw1 mw2 \<Longrightarrow> hands c s (xs @ ys) mw mw2"
  by (simp add: hands_def frames_of_append)

lemma hands_live: "hands c s ds mw mw' \<Longrightarrow> live c (advance (length ds) s) mw'"
  by (simp add: hands_def)

lemma hands_publish_to:
  assumes "live c s mw"
  shows "hands c s (if d = c then opt_list data else []) mw (publish_to deliver d data mw)"
proof -
  obtain m w where mw: "mw = (m, w)" by force
  from assms have inv: "inv w" and sub: "subs_inv m" and s: "sm_subscribes m c = Some s" and al: "alive (view c w)"
    by (simp_all add: live_def mw)
  show ?thesis
  proof (cases "sm_subscribes m d = None \<or> data = None")
    case True
    then have "publish_to deliver d data mw = mw"
      by (auto simp: publish_to_def mw split: option.splits)
    moreover have "(if d = c then opt_list data else []) = []"
      using True s by (auto simp: opt_list_def)
    ultimately show ?thesis using hands_refl [OF assms] by simp
  next
    case False
    then obtain t x where t: "sm_subscribes m d = Some t" and x: "data = Some x" by auto
    let ?m = "m\<lparr>sm_subscribes := (sm_subscribes m)(d \<mapsto> bump t)\<rparr>"
    let ?f = "stream_frame (sm_stream_code m) t x"
    have id: "rc_connection_id (sc_ctx t) = d" using sub t by (simp add: subs_inv_def)
    have "dom ((sm_subscribes m)(d \<mapsto> bump t)) = dom (sm_subscribes m)" using t by auto
    then have sub': "subs_inv ?m"
      using sub id by (auto simp: subs_inv_def bump_def)
    have p: "publish_to deliver d data mw =
        (if alive (view d w) then ?m else unsubscribe d ?m, fst (deliver d ?f w))"
      using t x id deliver_alive [OF inv, of d ?f] by (cases "deliver d ?f w") (auto simp: publish_to_def mw Let_def)
    show ?thesis
    proof (cases "d = c")
      case True
      with t s have "t = s" by simp
      with True al s sub' inv_deliver [OF inv, of d ?f] view_same [OF inv, of d ?f] show ?thesis
        unfolding p by (simp add: hands_def live_def opt_list_def x mw act_alive keys_of_def bump_advance)
    next
      case other: False
      have "keys_of (unsubscribe d ?m) c = keys_of m c"
        using other by (auto simp: keys_of_def unsubscribe_def)
      moreover have "keys_of ?m c = keys_of m c" by (simp add: keys_of_def)
      ultimately show ?thesis
        using other al s sub' subs_inv_unsubscribe [OF sub', of d] inv_deliver [OF inv, of d ?f] view_other [OF inv, of c d ?f]
        unfolding p by (simp add: hands_def live_def mw unsubscribe_def)
    qed
  qed
qed

lemma hands_each:
  "distinct cs \<Longrightarrow> live c s mw \<Longrightarrow>
     hands c s (if c \<in> set cs then opt_list data else []) mw (fold (\<lambda>c. publish_to deliver c data) cs mw)"
proof (induction cs arbitrary: s mw)
  case (Cons d cs)
  note h = hands_publish_to [OF Cons.prems(2), of d data]
  from hands_trans [OF h Cons.IH [OF _ hands_live [OF h]]] Cons.prems(1) show ?case
    by (auto split: if_splits)
qed (simp add: hands_refl)

lemma hands_new:
  "distinct cs \<Longrightarrow> live c s mw \<Longrightarrow>
     hands c s (if c \<in> set cs \<and> c \<notin> P then opt_list data else []) mw (snd (publish_new deliver data cs (P, mw))) \<and>
     fst (publish_new deliver data cs (P, mw)) = P \<union> set cs"
proof (induction cs arbitrary: s mw P)
  case (Cons d cs)
  show ?case
  proof (cases "d \<in> P")
    case True
    with Cons.IH [OF _ Cons.prems(2), of P] Cons.prems(1) show ?thesis by (auto split: if_splits)
  next
    case False
    note h = hands_publish_to [OF Cons.prems(2), of d data]
    have "distinct cs" using Cons.prems(1) by simp
    note ih = Cons.IH [OF this hands_live [OF h], of "insert d P"]
    from hands_trans [OF h conjunct1 [OF ih]] ih Cons.prems(1) False show ?thesis
      by (cases "d = c") (simp_all split: if_splits)
  qed
qed (simp add: hands_refl)

lemma hands_keys:
  assumes "iterates ord"
  shows "live c s mw \<Longrightarrow>
     hands c s (if set keys \<inter> keys_of (fst mw) c \<noteq> {} \<and> c \<notin> P then opt_list data else []) mw
       (snd (publish_keys_loop ord deliver data keys (P, mw)))"
proof (induction keys arbitrary: s mw P)
  case (Cons key keys)
  show ?case
  proof (cases "sm_mappings (fst mw) key")
    case None
    then have "key \<notin> keys_of (fst mw) c" by (simp add: keys_of_def)
    with None Cons.IH [OF Cons.prems, of P] show ?thesis by simp
  next
    case (Some S)
    then have "finite S" using Cons.prems by (simp add: live_def subs_inv_def)
    then have S: "distinct (ord S)" "set (ord S) = S" using assms by (simp_all add: iterates_def)
    have key: "key \<in> keys_of (fst mw) c \<longleftrightarrow> c \<in> S" using Some by (simp add: keys_of_def)
    obtain P1 mw1 where n: "publish_new deliver data (ord S) (P, mw) = (P1, mw1)"
      by (cases "publish_new deliver data (ord S) (P, mw)")
    from hands_new [OF S(1) Cons.prems, of P data] n S(2)
    have h: "hands c s (if c \<in> S \<and> c \<notin> P then opt_list data else []) mw mw1" and P1: "P1 = P \<union> S" by auto
    have K: "keys_of (fst mw1) c = keys_of (fst mw) c" using h by (simp add: hands_def)
    from hands_trans [OF h Cons.IH [OF hands_live [OF h], of P1]] show ?thesis
      by (cases "c \<in> S"; cases "c \<in> P") (simp_all add: Some n P1 K key Int_insert_left)
  qed
qed (simp add: hands_refl)

lemma hands_filter:
  assumes "iterates ord" and "live c s mw"
  shows "hands c s (opt_list (Option.bind (filt s) id)) mw (publish_with_filter ord deliver filt mw)"
proof -
  obtain m w where mw: "mw = (m, w)" by force
  from assms(2) have inv: "inv w" and sub: "subs_inv m" and s: "sm_subscribes m c = Some s" and al: "alive (view c w)"
    by (simp_all add: live_def mw)
  obtain m' w' where p: "publish_with_filter ord deliver filt (m, w) = (m', w')" by force
  note e = publish_with_filter_effect [OF inv sub assms(1) p]
  have "dom (sm_subscribes m') \<subseteq> dom (sm_subscribes m)"
    using e by (auto simp: dom_def bumped_def split: option.splits if_splits)
  with sub e have sub': "subs_inv m'"
    unfolding subs_inv_def by (auto simp: bumped_def bump_def split: option.splits if_splits intro: finite_subset)
  have sel: "selected filt m c = map_option (stream_frame (sm_stream_code m) s) (Option.bind (filt s) id)"
    using s by (cases "filt s") (simp_all add: selected_def)
  have "keys_of m' c = keys_of m c"
    using e al by (auto simp: keys_of_def)
  with e sel sub' s al show ?thesis
    by (cases "Option.bind (filt s) id")
      (simp_all add: hands_def live_def mw p opt_list_def acted_def bumped_def act_alive bump_advance)
qed

lemma hands_publish:
  assumes "iterates ord" and "live c s mw"
  shows "hands c s (message_for c (keys_of (fst mw) c) p s) mw (publish ord deliver p mw)"
proof (cases p)
  case (PublishToKey key data)
  show ?thesis
  proof (cases "sm_mappings (fst mw) key")
    case None
    then show ?thesis
      using PublishToKey hands_refl [OF assms(2)] by (simp add: publish_to_key_def keys_of_def)
  next
    case (Some S)
    then have "finite S" using assms(2) by (simp add: live_def subs_inv_def)
    with assms(1) have "distinct (ord S)" "set (ord S) = S" by (simp_all add: iterates_def)
    with hands_each [OF _ assms(2), of "ord S" data] Some PublishToKey show ?thesis
      by (simp add: publish_to_key_def keys_of_def)
  qed
next
  case (PublishToKeys keys data)
  with hands_keys [OF assms, of keys "{}" data] show ?thesis by (simp add: publish_to_keys_def)
next
  case (PublishToAll data)
  with hands_filter [OF assms, of "\<lambda>_. Some data"] show ?thesis by (simp add: publish_to_all_def)
qed (use hands_publish_to [OF assms(2)] hands_filter [OF assms] in simp_all)

lemma hands_series:
  assumes "iterates ord"
  shows "live c s mw \<Longrightarrow> K = keys_of (fst mw) c \<Longrightarrow>
    hands c s (messages_for c K ps s) mw (fold (publish ord deliver) ps mw)"
proof (induction ps arbitrary: s mw)
  case (Cons p ps)
  note h = hands_publish [OF assms Cons.prems(1), of p]
  have "K = keys_of (fst (publish ord deliver p mw)) c" using h Cons.prems(2) by (simp add: hands_def)
  with hands_trans [OF h Cons.IH [OF hands_live [OF h]]] Cons.prems(2) show ?case by simp
qed (simp add: hands_refl)

end

interpretation live: live_publisher world_inv "send_fn ser flags" chan_view "queue_frame ser (fst flags)"
  "\<lambda>v. v \<noteq> None" for ser flags
  by unfold_locales (simp add: queue_frame_def)

lemma fold_queue_frame:
  "\<forall>f \<in> set fs. ser f \<noteq> None \<Longrightarrow>
     fold (queue_frame ser oneshot) fs (Some q) = Some (fst (fold (arrive oneshot dr) (map (the \<circ> ser) fs) (q, e)))"
proof (induction fs arbitrary: q e)
  case (Cons f fs)
  then show ?case by (cases "ser f") (simp_all add: queue_frame_def)
qed simp

text \<open>
  C28. A stream is numbered without gaps. Over any series of publications, to one connection, to a key, to
  several keys, to all or through a filter, a subscriber whose connection stays registered is handed exactly the
  messages meant for it, each once, in order, the \<open>i\<close>-th with the number it had before the series plus
  \<open>i\<close> (modulo \<open>2^32\<close>), and its next number is that many further. Each frame then goes the way of every send: of
  the frames of the series the queue takes the first ones, as many as it has room for, so that what lies
  in it is numbered consecutively and a number that is missing is that of a frame a full queue refused.
\<close>
theorem stream_numbers_consecutive:
  assumes "world_inv w" and "subs_inv m" and "iterates ord" and "send_msg tb = Some flags"
    and "sm_subscribes m c = Some s" and "chan_view c w = Some q"
    and "fold (publish ord (send ser tb)) ps (m, w) = (m', w')"
  shows "let ds = messages_for c (keys_of m c) ps s;
             fs = map (\<lambda>i. Stream \<lparr>st_original_seq = rc_seq (sc_ctx s), st_method = rc_method (sc_ctx s),
                    st_stream_seq = sc_stream_seq s + word_of_nat i, st_stream_code = sm_stream_code m,
                    st_data = ds ! i\<rparr>) [0 ..< length ds]
         in chan_view c w' = fold (queue_frame ser (fst flags)) fs (Some q) \<and>
            sm_subscribes m' c = Some (s\<lparr>sc_stream_seq := sc_stream_seq s + word_of_nat (length ds)\<rparr>) \<and>
            (\<not> fst flags \<and> receiver_alive q \<and> (\<forall>f \<in> set fs. ser f \<noteq> None) \<longrightarrow>
               map_option queue (chan_view c w') =
                 Some (queue q @ take (capacity q - length (queue q)) (map (wire_from_string \<circ> the \<circ> ser) fs)))"
proof -
  let ?ds = "messages_for c (keys_of m c) ps s"
  have "live.live c s (m, w)" using assms(1,2,5,6) unfolding live.live_def by simp
  from live.hands_series [OF assms(3) this, of "keys_of m c" ser flags ps] assms(4,7)
  have h: "live.hands ser flags c s ?ds (m, w) (m', w')" by (simp add: send_conv)
  let ?fs = "frames_of (sm_stream_code m) s ?ds"
  have fs: "?fs = map (\<lambda>i. Stream \<lparr>st_original_seq = rc_seq (sc_ctx s), st_method = rc_method (sc_ctx s),
                    st_stream_seq = sc_stream_seq s + word_of_nat i, st_stream_code = sm_stream_code m,
                    st_data = ?ds ! i\<rparr>) [0 ..< length ?ds]"
    by (simp add: frames_of_map stream_frame_def advance_def)
  have v: "chan_view c w' = fold (queue_frame ser (fst flags)) ?fs (Some q)"
    "sm_subscribes m' c = Some (advance (length ?ds) s)"
    using h assms(6) unfolding live.hands_def live.live_def by simp_all
  have "map_option queue (chan_view c w') =
      Some (queue q @ take (capacity q - length (queue q)) (map (wire_from_string \<circ> the \<circ> ser) ?fs))"
    if "\<not> fst flags" "receiver_alive q" "\<forall>f \<in> set ?fs. ser f \<noteq> None"
    using that fold_queue_frame [OF that(3), of False q False False] v(1)
    by (simp add: fold_arrive_queue as_queued_def comp_def concat_map_singleton del: fold.simps)
  with v show ?thesis unfolding Let_def fs [symmetric] by (simp add: advance_def)
qed

theorem stream_numbers_consecutive_witness:
  "let tb = set_ws_states False False toolbox_new;
       ser = (\<lambda>r. case r of Stream f \<Rightarrow> Some (show_nat (unat (st_stream_seq f))) | _ \<Rightarrow> None);
       (m', w') = fold (publish sorted_list_of_set (send ser tb))
                    [PublishTo 5 (Some JNull), PublishToKey () (Some JNull), PublishToAll (Some (JInt 1))] (sample_manager, two_conns)
   in map_option queue (chan_view 5 w') = Some [wire_from_string (show_nat 0), wire_from_string (show_nat 1)] \<and>
      map_option sc_stream_seq (sm_subscribes m' 5) = Some 2"
proof -
  let ?tb = "set_ws_states False False toolbox_new"
  let ?ser = "\<lambda>r. case r of Stream f \<Rightarrow> Some (show_nat (unat (st_stream_seq f))) | _ \<Rightarrow> None"
  let ?ps = "[PublishTo 5 (Some JNull), PublishToKey () (Some JNull), PublishToAll (Some (JInt 1))]"
  let ?p = "fold (publish sorted_list_of_set (send ?ser ?tb)) ?ps (sample_manager, two_conns)"
  have 1: "world_inv two_conns" "subs_inv sample_manager" "send_msg ?tb = Some (False, False)"
    "chan_view 5 two_conns = Some (channel 2)"
    by (auto simp: world_inv_def two_conns_def sample_manager_def subscribe_def set_ws_states_def chan_view_def
        toolbox_new_def keeps_connection_def intro!: subs_inv_subscribe_with subs_inv_new split: if_splits)
  obtain s where s: "sm_subscribes sample_manager 5 = Some s" "sc_stream_seq s = 0"
    by (simp add: sample_manager_def subscribe_def subscribe_with_def manager_new_def)
  have ds: "messages_for 5 (keys_of sample_manager 5) ?ps s = [JNull, JInt 1]"
    by (simp add: opt_list_def keys_of_def sample_manager_def subscribe_def subscribe_with_def manager_new_def)
  obtain m' w' where p: "?p = (m', w')" by (cases ?p)
  note numbers = stream_numbers_consecutive [OF 1(1,2) iterates_sorted 1(3) s(1) 1(4) p, unfolded Let_def ds]
  have "map_option queue (chan_view 5 w') = Some [wire_from_string (show_nat 0), wire_from_string (show_nat 1)]"
    using numbers [THEN conjunct2, THEN conjunct2] by (simp add: s(2) channel_def upt_rec)
  moreover have "map_option sc_stream_seq (sm_subscribes m' 5) = Some 2"
    using numbers [THEN conjunct2, THEN conjunct1] by (simp add: s(2))
  ultimately show ?thesis
    unfolding p Let_def by simp
qed

end
