(* ===== verification/Push.thy ===== *)
theory Push
  imports Subs
begin

text \<open>
  \<open>src/libs/ws/push.rs\<close>: the older manager of subscriptions, by topic. Every topic has its own table
  of subscribers; \<open>code_of\<close> is the \<open>Into<u32>\<close> of the topic type, \<open>ord\<close> any order of iteration over
  a hash map, \<open>data\<close> what \<open>to_raw_value\<close> made of the message. Stream numbers wrap, as they do in a
  release build. Publishing to a topic refines publishing by the newer manager of \<open>Subs\<close>.
\<close>

section \<open>The code\<close>

record subscriber_context =
  pc_ctx :: request_context
  pc_stream_seq :: u32

type_synonym subscribers = "connection_id \<Rightarrow> subscriber_context option"

type_synonym 'k topics = "'k \<Rightarrow> subscribers option"

definition topics_new :: "'k topics" where "topics_new = Map.empty"

definition or_default :: "subscribers option \<Rightarrow> subscribers" where
  "or_default s = (case s of Some subs \<Rightarrow> subs | None \<Rightarrow> Map.empty)"

definition add_topic :: "'k \<Rightarrow> 'k topics \<Rightarrow> 'k topics" where
  "add_topic topic tp = tp(topic \<mapsto> or_default (tp topic))"

definition add_topics :: "'k list \<Rightarrow> 'k topics \<Rightarrow> 'k topics" where
  "add_topics topics tp = fold add_topic topics tp"

definition topic_subscribe :: "request_context \<Rightarrow> 'k \<Rightarrow> 'k topics \<Rightarrow> 'k topics" where
  "topic_subscribe ctx topic tp =
     tp(topic \<mapsto> (or_default (tp topic))(rc_connection_id ctx \<mapsto> \<lparr>pc_ctx = ctx, pc_stream_seq = 0\<rparr>))"

definition subscribe_multi :: "'k list \<Rightarrow> request_context \<Rightarrow> 'k topics \<Rightarrow> 'k topics" where
  "subscribe_multi topics ctx tp = fold (topic_subscribe ctx) topics tp"

definition topic_unsubscribe :: "connection_id \<Rightarrow> 'k \<Rightarrow> 'k topics \<Rightarrow> 'k topics" where
  "topic_unsubscribe c topic tp =
     (case tp topic of Some subs \<Rightarrow> tp(topic \<mapsto> subs(c := None)) | None \<Rightarrow> tp)"

definition unsubscribe_multi :: "'k list \<Rightarrow> connection_id \<Rightarrow> 'k topics \<Rightarrow> 'k topics" where
  "unsubscribe_multi topics c tp = fold (topic_unsubscribe c) topics tp"

definition topic_frame :: "u32 \<Rightarrow> subscriber_context \<Rightarrow> json \<Rightarrow> ws_response_value" where
  "topic_frame code sub data =
     Stream \<lparr>st_original_seq = rc_seq (pc_ctx sub), st_method = rc_method (pc_ctx sub),
       st_stream_seq = pc_stream_seq sub, st_stream_code = code, st_data = data\<rparr>"

definition topic_publish_one ::
  "'w sender \<Rightarrow> u32 \<Rightarrow> (request_context \<Rightarrow> bool) \<Rightarrow> json \<Rightarrow> connection_id
    \<Rightarrow> connection_id list \<times> subscribers \<times> 'w \<Rightarrow> connection_id list \<times> subscribers \<times> 'w" where
  "topic_publish_one sendf code filt data c dsw =
     (case dsw of (dead, subs, w) \<Rightarrow>
       case subs c of
         None \<Rightarrow> (dead, subs, w)
       | Some sub \<Rightarrow>
           if \<not> filt (pc_ctx sub) then (dead, subs, w)
           else
             (let subs' = subs(c \<mapsto> sub\<lparr>pc_stream_seq := pc_stream_seq sub + 1\<rparr>) in
              case sendf (rc_connection_id (pc_ctx sub)) (topic_frame code sub data) w of
                (w', alive) \<Rightarrow> (if alive then dead else dead @ [rc_connection_id (pc_ctx sub)], subs', w')))"

definition remove_dead :: "connection_id list \<Rightarrow> subscribers \<Rightarrow> subscribers" where
  "remove_dead dead subs = fold (\<lambda>c m. m(c := None)) dead subs"

definition topic_publish_with_filter ::
  "('k \<Rightarrow> u32) \<Rightarrow> (connection_id set \<Rightarrow> connection_id list) \<Rightarrow> 'w sender \<Rightarrow> 'k \<Rightarrow> json option
    \<Rightarrow> (request_context \<Rightarrow> bool) \<Rightarrow> 'k topics \<times> 'w \<Rightarrow> 'k topics \<times> 'w" where
  "topic_publish_with_filter code_of ord sendf topic data filt tw =
     (case tw of (tp, w) \<Rightarrow>
       case tp topic of
         None \<Rightarrow> (tp, w)
       | Some subs \<Rightarrow>
           (case data of
              None \<Rightarrow> (tp, w)
            | Some d \<Rightarrow>
                (case fold (topic_publish_one sendf (code_of topic) filt d) (ord (dom subs)) ([], subs, w) of
                   (dead, subs', w') \<Rightarrow> (tp(topic \<mapsto> remove_dead dead subs'), w'))))"

definition topic_publish_to_all ::
  "('k \<Rightarrow> u32) \<Rightarrow> (connection_id set \<Rightarrow> connection_id list) \<Rightarrow> 'w sender \<Rightarrow> 'k \<Rightarrow> json option
    \<Rightarrow> 'k topics \<times> 'w \<Rightarrow> 'k topics \<times> 'w" where
  "topic_publish_to_all code_of ord sendf topic data tw =
     topic_publish_with_filter code_of ord sendf topic data (\<lambda>_. True) tw"

section \<open>Invariant\<close>

definition topics_inv :: "'k topics \<Rightarrow> bool" where
  "topics_inv tp \<longleftrightarrow>
     (\<forall>topic subs. tp topic = Some subs \<longrightarrow>
        finite (dom subs) \<and> (\<forall>c s. subs c = Some s \<longrightarrow> rc_connection_id (pc_ctx s) = c))"

lemma topics_inv_add_topic: "topics_inv tp \<Longrightarrow> topics_inv (add_topic t tp)"
  by (auto simp: topics_inv_def add_topic_def or_default_def split: option.splits if_splits)

lemma topics_inv_subscribe: "topics_inv tp \<Longrightarrow> topics_inv (topic_subscribe ctx t tp)"
  unfolding topics_inv_def topic_subscribe_def or_default_def
  by (auto split: option.splits if_splits)

lemma topics_inv_unsubscribe: "topics_inv tp \<Longrightarrow> topics_inv (topic_unsubscribe c t tp)"
  unfolding topics_inv_def topic_unsubscribe_def
  by (auto split: option.splits if_splits)

lemma inv_fold: "P s \<Longrightarrow> (\<And>x s. P s \<Longrightarrow> P (f x s)) \<Longrightarrow> P (fold f xs s)"
  by (induction xs arbitrary: s) auto

lemma topics_inv_multi:
  "topics_inv tp \<Longrightarrow> topics_inv (add_topics ts tp)"
  "topics_inv tp \<Longrightarrow> topics_inv (subscribe_multi ts ctx tp)"
  "topics_inv tp \<Longrightarrow> topics_inv (unsubscribe_multi ts c tp)"
  unfolding add_topics_def subscribe_multi_def unsubscribe_multi_def
  by (erule inv_fold [where P = topics_inv], erule topics_inv_add_topic topics_inv_subscribe topics_inv_unsubscribe)+

text \<open>Unsubscribing from some topics leaves the others alone, and undoes subscribing to them.\<close>

lemma unsubscribe_multi_spec:
  "unsubscribe_multi ts c tp t =
     (if t \<in> set ts then map_option (\<lambda>subs. subs(c := None)) (tp t) else tp t)"
  by (induction ts arbitrary: tp)
    (auto simp: unsubscribe_multi_def topic_unsubscribe_def option.map_comp comp_def split: option.splits)

lemma subscribe_multi_spec:
  "subscribe_multi ts ctx tp t =
     (if t \<in> set ts
      then Some ((or_default (tp t))(rc_connection_id ctx \<mapsto> \<lparr>pc_ctx = ctx, pc_stream_seq = 0\<rparr>))
      else tp t)"
  by (induction ts arbitrary: tp) (auto simp: subscribe_multi_def topic_subscribe_def or_default_def)

section \<open>Publishing\<close>

text \<open>A topic seen as a manager of its own: its table, its code, and no keys.\<close>

definition abs_sub :: "subscriber_context \<Rightarrow> unit subscribe_context" where
  "abs_sub p = \<lparr>sc_ctx = pc_ctx p, sc_stream_seq = pc_stream_seq p, sc_settings = ()\<rparr>"

definition subs_manager :: "u32 \<Rightarrow> subscribers \<Rightarrow> (unit, unit) subscription_manager" where
  "subs_manager code subs =
     \<lparr>sm_stream_code = code, sm_subscribes = (\<lambda>c. map_option abs_sub (subs c)), sm_mappings = Map.empty\<rparr>"

definition topic_manager :: "('k \<Rightarrow> u32) \<Rightarrow> 'k \<Rightarrow> 'k topics \<Rightarrow> (unit, unit) subscription_manager" where
  "topic_manager code_of topic tp = subs_manager (code_of topic) (or_default (tp topic))"

definition topic_filter ::
  "(request_context \<Rightarrow> bool) \<Rightarrow> json option \<Rightarrow> unit subscribe_context \<Rightarrow> json option option" where
  "topic_filter filt data s = (if filt (sc_ctx s) then Some data else None)"

lemma subs_manager_upd:
  "subs_manager code (subs(c \<mapsto> p)) =
     (subs_manager code subs)\<lparr>sm_subscribes := (sm_subscribes (subs_manager code subs))(c \<mapsto> abs_sub p)\<rparr>"
  by (auto simp: subs_manager_def fun_eq_iff)

lemma sm_subs_manager [simp]:
  "sm_stream_code (subs_manager code subs) = code"
  "sm_subscribes (subs_manager code subs) c = map_option abs_sub (subs c)"
  by (simp_all add: subs_manager_def)

lemma abs_sub_simps [simp]:
  "sc_ctx (abs_sub p) = pc_ctx p"
  "stream_frame code (abs_sub p) d = topic_frame code p d"
  "abs_sub (p\<lparr>pc_stream_seq := pc_stream_seq p + 1\<rparr>) = bump (abs_sub p)"
  by (simp_all add: abs_sub_def stream_frame_def topic_frame_def bump_def)

lemma publish_one_abs:
  "publish_one sendf (topic_filter filt (Some d)) c (dead, subs_manager code subs, w) =
     (case topic_publish_one sendf code filt d c (dead, subs, w) of
        (dead', subs', w') \<Rightarrow> (dead', subs_manager code subs', w'))"
proof (cases "subs c")
  case (Some p)
  then show ?thesis
    by (cases "sendf (rc_connection_id (pc_ctx p)) (topic_frame code p d) w")
      (simp add: publish_one_def topic_publish_one_def topic_filter_def Let_def subs_manager_upd)
qed (simp add: publish_one_def topic_publish_one_def)

lemma fold_publish_one_abs:
  "fold (publish_one sendf (topic_filter filt (Some d))) cs (dead, subs_manager code subs, w) =
     (case fold (topic_publish_one sendf code filt d) cs (dead, subs, w) of
        (dead', subs', w') \<Rightarrow> (dead', subs_manager code subs', w'))"
proof (induction cs arbitrary: dead subs w)
  case (Cons c cs)
  then show ?case
    by (cases "topic_publish_one sendf code filt d c (dead, subs, w)") (simp add: publish_one_abs)
qed simp

lemma fold_publish_none:
  "fold (publish_one sendf (topic_filter filt None)) cs (dead, m, w) = (dead, m, w)"
  by (induction cs) (auto simp: publish_one_def topic_filter_def split: option.split)

lemma remove_dead_eq: "remove_dead dead subs = (\<lambda>c. if c \<in> set dead then None else subs c)"
  by (induction dead arbitrary: subs) (auto simp: remove_dead_def fun_eq_iff)

lemma fold_unsubscribe_abs:
  "fold unsubscribe dead (subs_manager code subs) = subs_manager code (remove_dead dead subs)"
  by (auto simp: fold_unsubscribe subs_manager_def remove_dead_eq fun_eq_iff)

lemma dom_subs_manager [simp]: "dom (sm_subscribes (subs_manager code subs)) = dom subs"
  by (auto simp: subs_manager_def dom_def)

lemma publish_on_topic_abs:
  assumes "tp topic = Some subs"
  shows "publish_with_filter ord sendf (topic_filter filt data) (topic_manager code_of topic tp, w) =
    (case topic_publish_with_filter code_of ord sendf topic data filt (tp, w) of
       (tp', w') \<Rightarrow> (topic_manager code_of topic tp', w'))"
proof (cases data)
  case None
  then show ?thesis
    using assms
    by (simp add: publish_with_filter_def topic_publish_with_filter_def topic_manager_def fold_publish_none)
next
  case (Some d)
  then show ?thesis
    using assms
    by (auto simp: publish_with_filter_def topic_publish_with_filter_def topic_manager_def or_default_def
        fold_publish_one_abs fold_unsubscribe_abs split: prod.split)
qed

text \<open>
  C29. Publishing to a topic is what the newer manager does with the topic's table: the same frames in the
  same order to the same connections, the same numbers, and the same subscribers dropped because their
  connection is gone. No other topic changes, and a topic nobody added sends nothing.
\<close>
theorem topic_publish_refines_manager:
  "(\<forall>t. t \<noteq> topic \<longrightarrow> fst (topic_publish_with_filter code_of ord sendf topic data filt (tp, w)) t = tp t) \<and>
   (case tp topic of
      None \<Rightarrow> topic_publish_with_filter code_of ord sendf topic data filt (tp, w) = (tp, w)
    | Some _ \<Rightarrow>
        publish_with_filter ord sendf (topic_filter filt data) (topic_manager code_of topic tp, w) =
          (case topic_publish_with_filter code_of ord sendf topic data filt (tp, w) of
             (tp', w') \<Rightarrow> (topic_manager code_of topic tp', w')))"
proof (cases "tp topic")
  case (Some subs)
  moreover have "fst (topic_publish_with_filter code_of ord sendf topic data filt (tp, w)) t = tp t" if "t \<noteq> topic" for t
    using that by (auto simp: topic_publish_with_filter_def split: option.split prod.split)
  ultimately show ?thesis
    by (simp add: publish_on_topic_abs)
qed (simp add: topic_publish_with_filter_def)

definition sample_topics :: "nat topics" where
  "sample_topics = subscribe_multi [1, 2] (empty_context\<lparr>rc_connection_id := 5\<rparr>) topics_new"

definition recorder :: "(connection_id \<times> ws_response_value) list sender" where
  "recorder c f w = (w @ [(c, f)], True)"

theorem topic_publish_refines_manager_witness:
  "fst (topic_publish_with_filter (\<lambda>_. 7) sorted_list_of_set recorder 1 (Some JNull) (\<lambda>_. True) (sample_topics, [])) 2 =
     sample_topics 2 \<and>
   map fst (snd (publish_with_filter sorted_list_of_set recorder (topic_filter (\<lambda>_. True) (Some JNull))
     (topic_manager (\<lambda>_. 7) 1 sample_topics, []))) = [5]"
  using topic_publish_refines_manager
    [of 1 "\<lambda>_. 7" sorted_list_of_set recorder "Some JNull" "\<lambda>_. True" sample_topics "[]"]
  by (auto simp: sample_topics_def subscribe_multi_def topic_subscribe_def topics_new_def or_default_def
      topic_publish_with_filter_def topic_publish_one_def recorder_def)

end
