(* ===== verification/Server_Limits.thy ===== *)
theory Server_Limits
  imports Prelude
begin

text \<open>
  The server's configuration and its admission limits, \<open>WsServerConfig\<close> and \<open>ServerLimitState\<close> of
  \<open>src/libs/ws/server.rs\<close>. Durations are nanoseconds. The limit callback belongs to the
  application: \<open>on_limit\<close> says whether there is one, and an operation returns the events it hands
  to it. The counters are \<open>AtomicUsize\<close> and keep their width. The second half runs any number of
  threads through the atomic actions of \<open>acquire\<close> and of \<open>Drop for LimitSlot\<close>.
\<close>

section \<open>Configuration\<close>

record ws_server_config =
  cfg_name :: string
  address :: string
  pub_certs :: "string list option"
  priv_key :: "string option"
  insecure :: bool
  debug :: bool
  message_buffer_size :: nat
  drop_conn_on_buffer_full :: bool
  header_only :: bool
  allow_cors_urls :: "string list option"
  server_name :: string
  mcp_only :: bool
  max_connections :: "usize option"
  max_message_bytes :: "usize option"
  max_inflight_requests :: "usize option"
  request_timeout :: "nat option"
  handshake_timeout :: "nat option"
  idle_timeout :: "nat option"
  warn_connections :: "usize option"
  warn_message_bytes :: "usize option"
  warn_inflight_requests :: "usize option"
  warn_request_time :: "nat option"
  on_limit :: bool

definition from_secs :: "nat \<Rightarrow> nat" where "from_secs n = n * 1000000000"
definition from_millis :: "nat \<Rightarrow> nat" where "from_millis n = n * 1000000"
definition as_millis :: "nat \<Rightarrow> nat" where "as_millis n = n div 1000000"

definition default_max_connections :: "usize option" where
  "default_max_connections = Some 1024"
definition default_max_message_bytes :: "usize option" where
  "default_max_message_bytes = Some 1048576"
definition default_max_inflight_requests :: "usize option" where
  "default_max_inflight_requests = Some 32"
definition default_request_timeout :: "nat option" where
  "default_request_timeout = Some (from_secs 30)"
definition default_handshake_timeout :: "nat option" where
  "default_handshake_timeout = Some (from_secs 10)"
definition default_idle_timeout :: "nat option" where
  "default_idle_timeout = Some (from_secs 120)"
definition default_message_buffer_size :: nat where
  "default_message_buffer_size = 256"
definition default_server_name :: string where
  "default_server_name = ''RustWebsocketServer/1.0''"

definition default_config :: ws_server_config where
  "default_config =
     \<lparr>cfg_name = [], address = [], pub_certs = None, priv_key = None, insecure = False,
      debug = False, message_buffer_size = default_message_buffer_size,
      drop_conn_on_buffer_full = False, header_only = False, allow_cors_urls = None,
      server_name = default_server_name, mcp_only = False,
      max_connections = default_max_connections, max_message_bytes = default_max_message_bytes,
      max_inflight_requests = default_max_inflight_requests,
      request_timeout = default_request_timeout, handshake_timeout = default_handshake_timeout,
      idle_timeout = default_idle_timeout, warn_connections = None, warn_message_bytes = None,
      warn_inflight_requests = None, warn_request_time = None, on_limit = False\<rparr>"

section \<open>Limit state\<close>

datatype limit_kind = Warn | Refuse

record limit_event =
  le_limit :: string
  le_current :: u64
  le_threshold :: u64
  le_kind :: limit_kind

record server_limit_state =
  connections :: usize
  inflight :: usize
  warned_connections :: usize
  warned_inflight :: usize
  warned_message_bytes :: usize
  warned_request_time :: usize

definition default_limit_state :: server_limit_state where
  "default_limit_state =
     \<lparr>connections = 0, inflight = 0, warned_connections = 0, warned_inflight = 0,
      warned_message_bytes = 0, warned_request_time = 0\<rparr>"

definition limit_event_of ::
  "ws_server_config \<Rightarrow> string \<Rightarrow> u64 \<Rightarrow> u64 \<Rightarrow> limit_kind \<Rightarrow> limit_event list" where
  "limit_event_of cfg limit current threshold k =
     (if on_limit cfg
      then [\<lparr>le_limit = limit, le_current = current, le_threshold = threshold, le_kind = k\<rparr>]
      else [])"

text \<open>
  The three atomic actions of \<open>acquire\<close>: the counter is incremented, the warning flag is swapped
  when the threshold is reached, and an attempt over the cap takes its increment back.
\<close>

definition warn_check ::
  "ws_server_config \<Rightarrow> string \<Rightarrow> usize option \<Rightarrow> usize \<Rightarrow> usize \<Rightarrow> usize \<times> limit_event list" where
  "warn_check cfg limit warning current warned =
     (case warning of
        Some threshold \<Rightarrow>
          if current \<ge> threshold
          then (1, if warned = 0 then limit_event_of cfg limit current threshold Warn else [])
          else (warned, [])
      | None \<Rightarrow> (warned, []))"

definition over_cap :: "usize option \<Rightarrow> usize \<Rightarrow> bool" where
  "over_cap cap current \<longleftrightarrow> (case cap of Some threshold \<Rightarrow> current > threshold | None \<Rightarrow> False)"

definition refuse_event ::
  "ws_server_config \<Rightarrow> string \<Rightarrow> usize option \<Rightarrow> usize \<Rightarrow> limit_event list" where
  "refuse_event cfg limit cap current =
     (case cap of
        Some threshold \<Rightarrow> limit_event_of cfg limit current threshold Refuse
      | None \<Rightarrow> [])"

definition acquire_counter ::
  "ws_server_config \<Rightarrow> string \<Rightarrow> usize option \<Rightarrow> usize option \<Rightarrow> usize \<Rightarrow> usize
    \<Rightarrow> usize \<times> usize \<times> bool \<times> limit_event list" where
  "acquire_counter cfg limit cap warning counter warned =
     (let current = counter + 1;
          (warned', evs) = warn_check cfg limit warning current warned in
      if over_cap cap current
      then (current - 1, warned', False, evs @ refuse_event cfg limit cap current)
      else (current, warned', True, evs))"

definition acquire ::
  "server_limit_state \<Rightarrow> ws_server_config \<Rightarrow> string \<Rightarrow> server_limit_state \<times> bool \<times> limit_event list" where
  "acquire st cfg limit =
     (if limit = ''connections'' then
        (case acquire_counter cfg limit (max_connections cfg) (warn_connections cfg)
                (connections st) (warned_connections st) of
           (c, w, ok, evs) \<Rightarrow> (st\<lparr>connections := c, warned_connections := w\<rparr>, ok, evs))
      else if limit = ''inflight_requests'' then
        (case acquire_counter cfg limit (max_inflight_requests cfg) (warn_inflight_requests cfg)
                (inflight st) (warned_inflight st) of
           (c, w, ok, evs) \<Rightarrow> (st\<lparr>inflight := c, warned_inflight := w\<rparr>, ok, evs))
      else (st, True, []))"

text \<open>A \<open>LimitSlot\<close> is the limit it was taken from; dropping it gives the place back.\<close>

type_synonym limit_slot = string

definition slot_drop :: "limit_slot \<Rightarrow> server_limit_state \<Rightarrow> server_limit_state" where
  "slot_drop slot st =
     (if slot = ''connections'' then st\<lparr>connections := connections st - 1\<rparr>
      else if slot = ''inflight_requests'' then st\<lparr>inflight := inflight st - 1\<rparr>
      else st)"

definition acquire_request ::
  "server_limit_state \<Rightarrow> ws_server_config \<Rightarrow> server_limit_state \<times> limit_slot option \<times> limit_event list" where
  "acquire_request st cfg =
     (case acquire st cfg ''inflight_requests'' of
        (st', ok, evs) \<Rightarrow> (st', if ok then Some ''inflight_requests'' else None, evs))"

definition observe_message ::
  "server_limit_state \<Rightarrow> ws_server_config \<Rightarrow> nat \<Rightarrow> server_limit_state \<times> limit_event list" where
  "observe_message st cfg bytes =
     (case warn_message_bytes cfg of
        Some threshold \<Rightarrow>
          if bytes \<ge> unat threshold
          then (st\<lparr>warned_message_bytes := 1\<rparr>,
                if warned_message_bytes st = 0
                then limit_event_of cfg ''message_bytes'' (word_of_nat bytes) threshold Warn else [])
          else (st, [])
      | None \<Rightarrow> (st, []))"

definition observe_request_time ::
  "server_limit_state \<Rightarrow> ws_server_config \<Rightarrow> nat \<Rightarrow> server_limit_state \<times> limit_event list" where
  "observe_request_time st cfg elapsed =
     (case warn_request_time cfg of
        Some threshold \<Rightarrow>
          if elapsed \<ge> threshold
          then (st\<lparr>warned_request_time := 1\<rparr>,
                if warned_request_time st = 0
                then limit_event_of cfg ''request_time'' (word_of_nat (as_millis elapsed))
                       (word_of_nat (as_millis threshold)) Warn else [])
          else (st, [])
      | None \<Rightarrow> (st, []))"

lemmas limit_defs =
  acquire_counter_def warn_check_def over_cap_def refuse_event_def limit_event_of_def Let_def

lemma acquire_request_conv:
  "acquire_request st cfg =
     (case acquire_counter cfg ''inflight_requests'' (max_inflight_requests cfg)
             (warn_inflight_requests cfg) (inflight st) (warned_inflight st) of
        (c, w, ok, evs) \<Rightarrow>
          (st\<lparr>inflight := c, warned_inflight := w\<rparr>,
           if ok then Some ''inflight_requests'' else None, evs))"
  by (simp add: acquire_request_def acquire_def split: prod.splits)

lemma acquire_counter_refused: "acquire_counter cfg l cap wn c w = (c', w', False, evs) \<Longrightarrow> c' = c"
  by (auto simp: acquire_counter_def Let_def split: prod.splits if_splits)

lemma acquire_counter_admitted:
  "acquire_counter cfg l cap wn c w = (c', w', True, evs) \<Longrightarrow> c' = c + 1 \<and> \<not> over_cap cap c'"
  by (auto simp: acquire_counter_def Let_def split: prod.splits if_splits)

section \<open>Concurrent admission\<close>

text \<open>
  \<open>n\<close> threads, numbered from zero, share one counter; each repeatedly runs \<open>acquire\<close> and, when it
  was admitted, later drops its slot. A thread's state holds the value its own increment gave it.
  \<open>order\<close> lists the threads that are counted at the moment, in the order of their increments; it
  and the event log only observe.
\<close>

datatype attempt = Idle | Counted usize | Checked usize | Holding usize

record limit_sys =
  counter :: usize
  warned :: usize
  attempts :: "nat \<Rightarrow> attempt"
  order :: "nat list"
  evlog :: "limit_event list"

definition limit_init :: limit_sys where
  "limit_init = \<lparr>counter = 0, warned = 0, attempts = (\<lambda>_. Idle), order = [], evlog = []\<rparr>"

inductive limit_step ::
  "ws_server_config \<Rightarrow> string \<Rightarrow> usize option \<Rightarrow> usize option \<Rightarrow> nat \<Rightarrow> limit_sys \<Rightarrow> limit_sys \<Rightarrow> bool"
  for cfg limit cap warning n where
  fetch_add: "t < n \<Longrightarrow> attempts s t = Idle \<Longrightarrow>
    limit_step cfg limit cap warning n s
      (s\<lparr>counter := counter s + 1, attempts := (attempts s)(t := Counted (counter s + 1)),
         order := order s @ [t]\<rparr>)"
| swap: "attempts s t = Counted current \<Longrightarrow>
    warn_check cfg limit warning current (warned s) = (w, evs) \<Longrightarrow>
    limit_step cfg limit cap warning n s
      (s\<lparr>warned := w, attempts := (attempts s)(t := Checked current), evlog := evlog s @ evs\<rparr>)"
| admit: "attempts s t = Checked current \<Longrightarrow> \<not> over_cap cap current \<Longrightarrow>
    limit_step cfg limit cap warning n s (s\<lparr>attempts := (attempts s)(t := Holding current)\<rparr>)"
| refuse: "attempts s t = Checked current \<Longrightarrow> over_cap cap current \<Longrightarrow>
    limit_step cfg limit cap warning n s
      (s\<lparr>counter := counter s - 1, attempts := (attempts s)(t := Idle),
         order := remove1 t (order s), evlog := evlog s @ refuse_event cfg limit cap current\<rparr>)"
| release: "attempts s t = Holding current \<Longrightarrow>
    limit_step cfg limit cap warning n s
      (s\<lparr>counter := counter s - 1, attempts := (attempts s)(t := Idle),
         order := remove1 t (order s)\<rparr>)"

inductive limit_reach ::
  "ws_server_config \<Rightarrow> string \<Rightarrow> usize option \<Rightarrow> usize option \<Rightarrow> nat \<Rightarrow> limit_sys \<Rightarrow> bool"
  for cfg limit cap warning n where
  init: "limit_reach cfg limit cap warning n limit_init"
| step: "limit_reach cfg limit cap warning n s \<Longrightarrow> limit_step cfg limit cap warning n s s' \<Longrightarrow>
    limit_reach cfg limit cap warning n s'"

inductive_cases limit_stepE: "limit_step cfg limit cap warning n s s'"

fun is_holding :: "attempt \<Rightarrow> bool" where
  "is_holding (Holding _) = True"
| "is_holding _ = False"

fun own_count :: "attempt \<Rightarrow> nat" where
  "own_count Idle = 0"
| "own_count (Counted c) = unat c"
| "own_count (Checked c) = unat c"
| "own_count (Holding c) = unat c"

definition warn_events :: "limit_event list \<Rightarrow> limit_event list" where
  "warn_events = filter (\<lambda>e. le_kind e = Warn)"

definition limit_counts :: "nat \<Rightarrow> limit_sys \<Rightarrow> bool" where
  "limit_counts n s \<longleftrightarrow>
     distinct (order s) \<and> set (order s) = {t. attempts s t \<noteq> Idle} \<and> set (order s) \<subseteq> {..<n} \<and>
     unat (counter s) = length (order s) \<and>
     (\<forall>xs t ys. order s = xs @ t # ys \<longrightarrow> length xs < own_count (attempts s t))"

definition limit_admits :: "usize option \<Rightarrow> limit_sys \<Rightarrow> bool" where
  "limit_admits cap s \<longleftrightarrow> (\<forall>t current. attempts s t = Holding current \<longrightarrow> \<not> over_cap cap current)"

definition limit_warns :: "limit_sys \<Rightarrow> bool" where
  "limit_warns s \<longleftrightarrow>
     length (warn_events (evlog s)) \<le> 1 \<and> (warned s = 0 \<longrightarrow> warn_events (evlog s) = [])"

lemma remove1_split:
  assumes "distinct xs" and "remove1 t xs = us @ u # vs"
  shows "\<exists>us' vs'. xs = us' @ u # vs' \<and> length us \<le> length us' \<and> u \<noteq> t"
proof (cases "t \<in> set xs")
  case False
  with assms show ?thesis
    by (metis in_set_conv_decomp order_refl remove1_idem)
next
  case True
  then obtain as bs where xs: "xs = as @ t # bs" "t \<notin> set as"
    by (meson split_list_first)
  with assms have r: "as @ bs = us @ u # vs" and nt: "t \<notin> set bs"
    by (auto simp: remove1_append)
  have "u \<noteq> t"
    using arg_cong [OF r, of set] xs nt by auto
  show ?thesis
  proof (cases "length us < length as")
    case True
    then obtain cs where "as = us @ u # cs"
      using r by (auto simp: append_eq_append_conv2 append_eq_Cons_conv)
    with xs \<open>u \<noteq> t\<close> show ?thesis
      by (intro exI [of _ us] exI [of _ "cs @ t # bs"]) simp
  next
    case False
    then obtain cs where "us = as @ cs" and "bs = cs @ u # vs"
      using r by (auto simp: append_eq_append_conv2)
    with xs \<open>u \<noteq> t\<close> show ?thesis
      by (intro exI [of _ "as @ t # cs"] exI [of _ vs]) simp
  qed
qed

lemma length_order: "limit_counts n s \<Longrightarrow> length (order s) \<le> n"
  unfolding limit_counts_def
  by (metis card_lessThan card_mono distinct_card finite_lessThan)

lemma limit_counts_leave:
  assumes inv: "limit_counts n s" and t: "attempts s t \<noteq> Idle"
    and s': "counter s' = counter s - 1" "attempts s' = (attempts s)(t := Idle)"
      "order s' = remove1 t (order s)"
  shows "limit_counts n s'"
proof -
  have mem: "t \<in> set (order s)" using inv t by (auto simp: limit_counts_def)
  then have "counter s \<noteq> 0"
    using inv by (auto simp: limit_counts_def)
  then have "unat (counter s - 1) = length (remove1 t (order s))"
    using inv mem by (simp add: limit_counts_def unat_minus_one length_remove1)
  moreover have "length xs < own_count (attempts s' u)" if "order s' = xs @ u # ys" for xs u ys
  proof -
    from remove1_split [of "order s" t xs u ys] inv that s' obtain xs' ys' where
      "order s = xs' @ u # ys'" "length xs \<le> length xs'" "u \<noteq> t"
      by (auto simp: limit_counts_def)
    with inv s' show ?thesis
      by (force simp: limit_counts_def)
  qed
  ultimately show ?thesis
    using inv s' by (auto simp: limit_counts_def set_remove1_eq)
qed

lemma limit_counts_enter:
  assumes inv: "limit_counts n s" and t: "t < n" "attempts s t = Idle" and n: "n < 2 ^ 64"
    and s': "counter s' = counter s + 1" "attempts s' = (attempts s)(t := Counted (counter s + 1))"
      "order s' = order s @ [t]"
  shows "limit_counts n s'"
proof -
  have "t \<notin> set (order s)" and dist: "distinct (order s @ [t])"
    using inv t by (auto simp: limit_counts_def)
  then have "length (order s @ [t]) \<le> n"
    using inv t card_mono [of "{..<n}" "set (order s @ [t])"] distinct_card [OF dist]
    by (auto simp: limit_counts_def)
  then have "unat (counter s) + 1 < 2 ^ 64"
    using inv n by (simp add: limit_counts_def)
  then have up: "unat (counter s + 1) = length (order s) + 1"
    using inv by (simp add: limit_counts_def unat_word_ariths)
  have "length xs < own_count (attempts s' u)" if "order s' = xs @ u # ys" for xs u ys
  proof (cases ys rule: rev_cases)
    case Nil
    with that s' up show ?thesis by simp
  next
    case (snoc zs z)
    with that s' have "order s = xs @ u # zs" by simp
    with inv s' \<open>t \<notin> set (order s)\<close> show ?thesis
      by (auto simp: limit_counts_def)
  qed
  with inv t s' up dist show ?thesis
    by (auto simp: limit_counts_def)
qed

lemma limit_counts_stay:
  assumes "limit_counts n s" and "own_count (attempts s t) = own_count a"
    and "attempts s t \<noteq> Idle" and "a \<noteq> Idle"
    and "counter s' = counter s" "attempts s' = (attempts s)(t := a)" "order s' = order s"
  shows "limit_counts n s'"
proof -
  have "own_count (attempts s' u) = own_count (attempts s u)" for u
    using assms by simp
  moreover have "{u. attempts s' u \<noteq> Idle} = {u. attempts s u \<noteq> Idle}"
    using assms by auto
  ultimately have "limit_counts n s' \<longleftrightarrow> limit_counts n s"
    using assms(5,7) unfolding limit_counts_def by (simp only:)
  with assms(1) show ?thesis by simp
qed

lemma limit_step_counts:
  "limit_step cfg limit cap warning n s s' \<Longrightarrow> n < 2 ^ 64 \<Longrightarrow> limit_counts n s \<Longrightarrow> limit_counts n s'"
proof (induction rule: limit_step.induct)
  case (fetch_add t s)
  then show ?case by (auto intro: limit_counts_enter)
next
  case (swap s t current w evs)
  then show ?case by (auto intro: limit_counts_stay [where t = t and a = "Checked current"])
next
  case (admit s t current)
  then show ?case by (auto intro: limit_counts_stay [where t = t and a = "Holding current"])
next
  case (refuse s t current)
  then show ?case by (auto intro: limit_counts_leave [where t = t])
next
  case (release s t current)
  then show ?case by (auto intro: limit_counts_leave [where t = t])
qed

lemma limit_step_admits:
  "limit_step cfg limit cap warning n s s' \<Longrightarrow> limit_admits cap s \<Longrightarrow> limit_admits cap s'"
  by (induction rule: limit_step.induct) (auto simp: limit_admits_def split: if_splits)

lemma limit_step_warns:
  "limit_step cfg limit cap warning n s s' \<Longrightarrow> limit_warns s \<Longrightarrow> limit_warns s'"
  by (induction rule: limit_step.induct)
    (auto simp: limit_warns_def warn_events_def warn_check_def refuse_event_def
       limit_event_of_def split: option.splits if_splits)

lemma limit_reach_inv:
  "limit_reach cfg limit cap warning n s \<Longrightarrow> n < 2 ^ 64 \<Longrightarrow>
     limit_counts n s \<and> limit_admits cap s \<and> limit_warns s"
proof (induction rule: limit_reach.induct)
  case init
  then show ?case
    by (simp add: limit_init_def limit_counts_def limit_admits_def limit_warns_def warn_events_def)
next
  case (step s s')
  then show ?case
    by (simp add: limit_step_counts [OF step.hyps(2)] limit_step_admits [OF step.hyps(2)]
        limit_step_warns [OF step.hyps(2)])
qed

lemma holders_bounded:
  assumes "limit_counts n s" and "limit_admits (Some cap) s"
  shows "length (filter (is_holding \<circ> attempts s) (order s)) \<le> unat cap"
proof (cases "\<exists>t \<in> set (order s). is_holding (attempts s t)")
  case False
  then have "filter (is_holding \<circ> attempts s) (order s) = []"
    by (simp add: filter_empty_conv)
  then show ?thesis by simp
next
  case True
  then obtain xs t ys where ord: "order s = xs @ t # ys" and h: "is_holding (attempts s t)"
    and no: "\<forall>u \<in> set ys. \<not> is_holding (attempts s u)"
    using split_list_last_prop [of "order s" "is_holding \<circ> attempts s"] by auto
  obtain current where c: "attempts s t = Holding current"
    using h by (cases "attempts s t") auto
  have "filter (is_holding \<circ> attempts s) ys = []"
    using no by (simp add: filter_empty_conv)
  then have "length (filter (is_holding \<circ> attempts s) (order s)) \<le> Suc (length xs)"
    using ord h by simp
  also have "\<dots> \<le> unat current"
    using assms(1) ord c by (fastforce simp: limit_counts_def)
  also have "\<dots> \<le> unat cap"
    using assms(2) c by (auto simp: limit_admits_def over_cap_def word_le_nat_alt not_less)
  finally show ?thesis .
qed

lemma holders_card:
  assumes "limit_counts n s"
  shows "card {t. is_holding (attempts s t)} = length (filter (is_holding \<circ> attempts s) (order s))"
proof -
  have eq: "{t. is_holding (attempts s t)} = set (filter (is_holding \<circ> attempts s) (order s))"
    using assms by (auto simp: limit_counts_def)
  have "distinct (filter (is_holding \<circ> attempts s) (order s))"
    using assms by (simp add: limit_counts_def)
  from distinct_card [OF this] show ?thesis
    unfolding eq .
qed

lemma limit_reach_alone:
  assumes "limit_reach cfg limit cap warning n s" and "t < n" and "attempts s t = Idle"
    and "acquire_counter cfg limit cap warning (counter s) (warned s) = (c, w, ok, evs)"
  shows "\<exists>s'. limit_reach cfg limit cap warning n s' \<and> counter s' = c \<and> warned s' = w \<and>
    evlog s' = evlog s @ evs \<and> is_holding (attempts s' t) = ok \<and> (\<forall>u. u \<noteq> t \<longrightarrow> attempts s' u = attempts s u)"
proof -
  let ?cur = "counter s + 1"
  obtain w1 evs1 where wc: "warn_check cfg limit warning ?cur (warned s) = (w1, evs1)"
    by (cases "warn_check cfg limit warning ?cur (warned s)")
  have "limit_reach cfg limit cap warning n
     (s\<lparr>counter := ?cur, attempts := (attempts s)(t := Counted ?cur), order := order s @ [t]\<rparr>)"
    (is "limit_reach _ _ _ _ _ ?s1")
    by (rule limit_reach.step [OF assms(1) limit_step.fetch_add [OF assms(2,3)]])
  then have "limit_reach cfg limit cap warning n
     (?s1\<lparr>warned := w1, attempts := (attempts ?s1)(t := Checked ?cur), evlog := evlog ?s1 @ evs1\<rparr>)"
    (is "limit_reach _ _ _ _ _ ?s2")
    by (rule limit_reach.step) (rule limit_step.swap, simp, simp add: wc)
  then show ?thesis
    using assms(4) wc limit_reach.step [of cfg limit cap warning n ?s2]
      limit_step.admit [of ?s2 t ?cur cap cfg limit warning n]
      limit_step.refuse [of ?s2 t ?cur cap cfg limit warning n]
    by (cases "over_cap cap ?cur") (fastforce simp: acquire_counter_def Let_def)+
qed

text \<open>
  C8: Whatever way \<open>n\<close> threads interleave the atomic actions of \<open>acquire\<close> and of \<open>Drop for LimitSlot\<close>,
  never more than \<open>cap\<close> of them hold a slot; the shared counter is exactly the number of threads
  that are inside an attempt or hold a slot, so a refused or finished connection leaks no place and
  the counter is zero whenever all of them are idle; and the warning is raised at most once.
\<close>
theorem limit_cap_under_interleaving:
  assumes "limit_reach cfg limit (Some cap) warning n s" and "n < 2 ^ 64"
  shows "card {t. is_holding (attempts s t)} \<le> unat cap \<and>
    unat (counter s) = card {t. attempts s t \<noteq> Idle} \<and>
    length (warn_events (evlog s)) \<le> 1"
proof -
  from limit_reach_inv [OF assms] have inv: "limit_counts n s" "limit_admits (Some cap) s"
    "limit_warns s" by auto
  have "distinct (order s)" and "unat (counter s) = length (order s)"
    using inv(1) by (simp_all add: limit_counts_def)
  then have "unat (counter s) = card (set (order s))"
    by (simp only: distinct_card)
  with inv holders_bounded [OF inv(1,2)] holders_card [OF inv(1)] show ?thesis
    by (simp add: limit_counts_def limit_warns_def)
qed

definition one_held :: limit_sys where
  "one_held = \<lparr>counter = 1, warned = 0, attempts = (\<lambda>_. Idle)(0 := Holding 1), order = [0], evlog = []\<rparr>"

lemma one_held_reachable: "limit_reach default_config ''connections'' (Some 1) None 2 one_held"
proof -
  have "limit_reach default_config ''connections'' (Some 1) None 2 (limit_init\<lparr>counter := counter limit_init + 1,
      attempts := (attempts limit_init)(0 := Counted (counter limit_init + 1)),
      order := order limit_init @ [0]\<rparr>)" (is "limit_reach _ _ _ _ _ ?s1")
    by (rule limit_reach.step [OF limit_reach.init limit_step.fetch_add])
      (simp_all add: limit_init_def)
  then have "limit_reach default_config ''connections'' (Some 1) None 2 (?s1\<lparr>warned := 0, attempts := (attempts ?s1)(0 := Checked 1),
      evlog := evlog ?s1 @ []\<rparr>)" (is "limit_reach _ _ _ _ _ ?s2")
    by (rule limit_reach.step) (rule limit_step.swap, simp_all add: limit_init_def warn_check_def)
  then have "limit_reach default_config ''connections'' (Some 1) None 2 (?s2\<lparr>attempts := (attempts ?s2)(0 := Holding 1)\<rparr>)"
    by (rule limit_reach.step) (rule limit_step.admit, simp_all add: limit_init_def over_cap_def)
  then show ?thesis
    by (simp add: one_held_def limit_init_def)
qed

theorem limit_cap_under_interleaving_witness:
  "card {t. is_holding (attempts one_held t)} \<le> unat (1 :: usize) \<and>
   unat (counter one_held) = card {t. attempts one_held t \<noteq> Idle} \<and>
   length (warn_events (evlog one_held)) \<le> 1"
  using limit_cap_under_interleaving [OF one_held_reachable] by simp

section \<open>The admission interface\<close>

text \<open>
  What the connection loop and the sessions rely on: \<open>acquire\<close> takes a place or leaves the pool as
  it is, dropping the slot gives the place back, and neither touches what the other limit counts.
\<close>

locale admission =
  fixes acq :: "'s \<Rightarrow> 's \<times> bool"
    and rel :: "'s \<Rightarrow> 's"
    and held :: "'s \<Rightarrow> nat"
    and cap :: nat
  assumes acq_room: "held s < cap \<Longrightarrow> snd (acq s) \<and> held (fst (acq s)) = Suc (held s)"
    and acq_full: "held s = cap \<Longrightarrow> \<not> snd (acq s) \<and> held (fst (acq s)) = held s"
    and rel_held: "0 < held s \<Longrightarrow> held (rel s) = held s - 1"
begin

text \<open>A client's run: \<open>True\<close> tries to take a place, \<open>False\<close> gives one of its places back.\<close>

fun pool_run :: "bool list \<Rightarrow> nat \<Rightarrow> 's \<Rightarrow> nat \<times> 's" where
  "pool_run [] k s = (k, s)"
| "pool_run (True # ops) k s =
     (let (s', ok) = acq s in pool_run ops (if ok then Suc k else k) s')"
| "pool_run (False # ops) k s =
     (if k = 0 then pool_run ops k s else pool_run ops (k - 1) (rel s))"

lemma pool_run_balanced:
  "pool_run ops k s = (k', s') \<Longrightarrow> k \<le> held s \<Longrightarrow> held s \<le> cap \<Longrightarrow>
     held s' \<le> cap \<and> held s' + k = held s + k'"
proof (induction ops k s rule: pool_run.induct)
  case (2 ops k s)
  obtain s1 ok where a: "acq s = (s1, ok)" by (cases "acq s")
  with 2 acq_room [of s] acq_full [of s] show ?case
    by (cases "held s = cap") auto
next
  case (3 ops k s)
  show ?case
  proof (cases "k = 0")
    case False
    then have "k - 1 \<le> held (rel s)" "held (rel s) = held s - 1" "held (rel s) \<le> cap"
      using 3 rel_held [of s] by auto
    with 3 False show ?thesis by fastforce
  qed (use 3 in auto)
qed simp

lemma pool_no_leak: "pool_run ops 0 s = (0, s') \<Longrightarrow> held s \<le> cap \<Longrightarrow> held s' = held s"
  using pool_run_balanced [of ops 0 s 0 s'] by simp

end

definition acquire_in :: "ws_server_config \<Rightarrow> string \<Rightarrow> server_limit_state \<Rightarrow> server_limit_state \<times> bool" where
  "acquire_in cfg limit st = (case acquire st cfg limit of (st', ok, evs) \<Rightarrow> (st', ok))"

definition held_of :: "string \<Rightarrow> server_limit_state \<Rightarrow> nat" where
  "held_of limit st =
     unat (if limit = ''connections'' then connections st else inflight st)"

lemma acquire_counter_room:
  assumes "unat c < unat m" and "unat m + 1 < 2 ^ 64"
  shows "\<exists>w' evs. acquire_counter cfg l (Some m) wn c w = (c + 1, w', True, evs) \<and>
    unat (c + 1) = Suc (unat c)"
proof -
  have "unat c + 1 < 2 ^ 64"
    using assms unsigned_less [of m, where ?'a = nat] by simp
  then have "unat (c + 1) = Suc (unat c)" by (simp add: unat_word_ariths)
  with assms have "\<not> m < c + 1" by (simp add: word_less_nat_alt)
  with \<open>unat (c + 1) = Suc (unat c)\<close> show ?thesis
    by (auto simp: acquire_counter_def over_cap_def Let_def split: prod.splits)
qed

lemma acquire_counter_full:
  assumes "unat c = unat m" and "unat m + 1 < 2 ^ 64"
  shows "\<exists>w' evs. acquire_counter cfg l (Some m) wn c w = (c, w', False, evs)"
proof -
  have "c = m" and "m < m + 1"
    using assms by (auto simp: word_less_nat_alt unat_word_ariths intro: unsigned_word_eqI)
  with assms show ?thesis
    by (auto simp: acquire_counter_def over_cap_def Let_def split: prod.splits)
qed

lemma admission_of:
  assumes "limit = ''connections'' \<and> max_connections cfg = Some m \<or>
     limit = ''inflight_requests'' \<and> max_inflight_requests cfg = Some m"
    and "unat m + 1 < 2 ^ 64"
  shows "admission (acquire_in cfg limit) (slot_drop limit) (held_of limit) (unat m)"
proof (unfold_locales, goal_cases)
  case (1 st)
  show ?case
  proof (cases "limit = ''connections''")
    case True
    with 1 assms acquire_counter_room [of "connections st" m cfg limit "warn_connections cfg"
        "warned_connections st"] show ?thesis
      by (auto simp: acquire_in_def held_of_def acquire_def)
  next
    case False
    with 1 assms acquire_counter_room [of "inflight st" m cfg limit "warn_inflight_requests cfg"
        "warned_inflight st"] show ?thesis
      by (auto simp: acquire_in_def held_of_def acquire_def)
  qed
next
  case (2 st)
  show ?case
  proof (cases "limit = ''connections''")
    case True
    with 2 assms acquire_counter_full [of "connections st" m cfg limit "warn_connections cfg"
        "warned_connections st"] show ?thesis
      by (auto simp: acquire_in_def held_of_def acquire_def)
  next
    case False
    with 2 assms acquire_counter_full [of "inflight st" m cfg limit "warn_inflight_requests cfg"
        "warned_inflight st"] show ?thesis
      by (auto simp: acquire_in_def held_of_def acquire_def)
  qed
next
  case (3 st)
  with assms show ?case
    by (auto simp: slot_drop_def held_of_def unat_minus_one unat_gt_0)
qed

interpretation conn_pool: admission
  "acquire_in default_config ''connections''" "slot_drop ''connections''" "held_of ''connections''"
  "unat (1024 :: usize)"
  by (rule admission_of) (simp_all add: default_config_def default_max_connections_def)

interpretation request_pool: admission
  "acquire_in default_config ''inflight_requests''" "slot_drop ''inflight_requests''"
  "held_of ''inflight_requests''" "unat (32 :: usize)"
  by (rule admission_of) (simp_all add: default_config_def default_max_inflight_requests_def)

end
