(* ===== verification/Mcp.thy ===== *)
theory Mcp
  imports Json_Schema Basics
begin

text \<open>
  \<open>src/libs/ws/mcp.rs\<close>: the JSON-RPC envelope and the MCP surface. \<open>render\<close> is \<open>Value::to_string\<close>;
  \<open>parse\<close> and \<open>decode\<close> are \<open>serde_json::from_str\<close> and the derived deserialisation of a request, with
  the text of its error. The hash map \<open>by_name\<close> is a map, and the endpoints come as a list in the
  order the hash map happens to yield them.
\<close>

section \<open>Envelope\<close>

definition MCP_PROTOCOL_VERSION :: string where "MCP_PROTOCOL_VERSION = ''2025-06-18''"

definition RPC_PARSE_ERROR :: int where "RPC_PARSE_ERROR = - 32700"
definition RPC_INVALID_REQUEST :: int where "RPC_INVALID_REQUEST = - 32600"
definition RPC_METHOD_NOT_FOUND :: int where "RPC_METHOD_NOT_FOUND = - 32601"
definition RPC_INVALID_PARAMS :: int where "RPC_INVALID_PARAMS = - 32602"
definition RPC_INTERNAL_ERROR :: int where "RPC_INTERNAL_ERROR = - 32603"

datatype jsonrpc_id = IdNum int | IdStr string

fun id_to_value :: "jsonrpc_id option \<Rightarrow> json" where
  "id_to_value (Some (IdNum n)) = JInt n"
| "id_to_value (Some (IdStr s)) = JStr s"
| "id_to_value None = JNull"

record jsonrpc_request =
  jr_jsonrpc :: string
  jr_id :: "jsonrpc_id option"
  jr_method :: string
  jr_params :: "json option"

definition is_notification :: "jsonrpc_request \<Rightarrow> bool" where
  "is_notification r \<longleftrightarrow> jr_id r = None"

record jsonrpc_error_obj =
  je_code :: int
  je_message :: string
  je_data :: "json option"

definition rpc_error_new :: "int \<Rightarrow> string \<Rightarrow> jsonrpc_error_obj" where
  "rpc_error_new c m = \<lparr>je_code = c, je_message = m, je_data = None\<rparr>"

definition rpc_with_data :: "json \<Rightarrow> jsonrpc_error_obj \<Rightarrow> jsonrpc_error_obj" where
  "rpc_with_data d e = e\<lparr>je_data := Some d\<rparr>"

text \<open>The derived serialisation skips \<open>data\<close> when there is none.\<close>

definition error_to_json :: "jsonrpc_error_obj \<Rightarrow> json" where
  "error_to_json e =
     jobj ([(''code'', JInt (je_code e)), (''message'', JStr (je_message e))] @
           (case je_data e of Some d \<Rightarrow> [(''data'', d)] | None \<Rightarrow> []))"

definition jsonrpc_result :: "jsonrpc_id option \<Rightarrow> json \<Rightarrow> json" where
  "jsonrpc_result i r = jobj [(''jsonrpc'', JStr ''2.0''), (''id'', id_to_value i), (''result'', r)]"

definition jsonrpc_error :: "jsonrpc_id option \<Rightarrow> jsonrpc_error_obj \<Rightarrow> json" where
  "jsonrpc_error i e =
     jobj [(''jsonrpc'', JStr ''2.0''), (''id'', id_to_value i), (''error'', error_to_json e)]"

definition try_parse_jsonrpc ::
  "(string \<Rightarrow> json option) \<Rightarrow> (json \<Rightarrow> (jsonrpc_request, string) result) \<Rightarrow> string
    \<Rightarrow> (jsonrpc_request, json) result option" where
  "try_parse_jsonrpc parse decode payload =
     (case parse payload of
        None \<Rightarrow> None
      | Some value \<Rightarrow>
          if Option.bind (jget value ''jsonrpc'') as_str \<noteq> Some ''2.0'' then None
          else case decode value of
            Ok req \<Rightarrow> Some (Ok req)
          | Err err \<Rightarrow>
              Some (Err (jsonrpc_error None
                (rpc_error_new RPC_INVALID_REQUEST (''Invalid Request: '' @ err)))))"

definition rpc_code_of :: "error_code \<Rightarrow> int \<times> string" where
  "rpc_code_of code =
     (if code = BAD_REQUEST then (RPC_INVALID_PARAMS, ''Invalid params'')
      else if code = NOT_IMPLEMENTED then (RPC_METHOD_NOT_FOUND, ''Method not found'')
      else if code = INTERNAL_ERROR then (RPC_INTERNAL_ERROR, ''Internal error'')
      else (uint (to_u32 code), kind code))"

definition error_code_to_jsonrpc :: "error_code \<Rightarrow> json \<Rightarrow> jsonrpc_error_obj" where
  "error_code_to_jsonrpc code data =
     (let (rpc_code, message) = rpc_code_of code;
          merged = obj_of [(''kind'', JStr (kind code)), (''appCode'', JInt (uint (to_u32 code)))];
          merged = (case data of JObj extra \<Rightarrow> fold (\<lambda>(k, v). obj_insert k v) extra merged | _ \<Rightarrow> merged) in
      (rpc_error_new rpc_code message)\<lparr>je_data := Some (JObj merged)\<rparr>)"

section \<open>Tool results\<close>

definition text_content :: "string \<Rightarrow> json" where
  "text_content t = JArr [jobj [(''type'', JStr ''text''), (''text'', JStr t)]]"

definition encode_tool_result :: "(json \<Rightarrow> string) \<Rightarrow> json \<Rightarrow> json" where
  "encode_tool_result render response =
     jobj [(''content'', text_content (render response)), (''structuredContent'', response),
           (''isError'', JBool False)]"

definition encode_tool_error :: "error_code \<Rightarrow> json \<Rightarrow> json" where
  "encode_tool_error code params =
     (let message = (case Option.bind (jget params ''message'') as_str of Some m \<Rightarrow> m | None \<Rightarrow> kind code) in
      jobj [(''content'', text_content message),
            (''structuredContent'',
               jobj [(''error'', jobj [(''kind'', JStr (kind code)), (''appCode'', JInt (uint (to_u32 code))),
                                       (''params'', params)])]),
            (''isError'', JBool True)])"

section \<open>Tools\<close>

record ws_endpoint =
  we_schema :: endpoint_schema
  we_handler :: nat
  we_allowed_roles :: "u32 set"

record mcp_server_info =
  mi_name :: string
  mi_version :: string

record mcp_tool =
  mt_name :: string
  mt_description :: string
  mt_input_schema :: json
  mt_output_schema :: "json option"
  mt_method_code :: u32
  mt_allowed_roles :: "u32 set"
  mt_streaming :: bool

definition to_list_entry :: "mcp_tool \<Rightarrow> json" where
  "to_list_entry t =
     jobj ([(''name'', JStr (mt_name t)), (''description'', JStr (mt_description t)),
            (''inputSchema'', mt_input_schema t)] @
           (case mt_output_schema t of Some s \<Rightarrow> [(''outputSchema'', s)] | None \<Rightarrow> []))"

datatype mcp_action =
    Respond json
  | ToolCall "jsonrpc_id option" u32 json
  | Ignore

record mcp_state =
  ms_tools :: "mcp_tool list"
  ms_by_name :: "string \<Rightarrow> nat option"
  ms_info :: mcp_server_info
  ms_protocol_version :: string

definition streaming_note :: string where
  "streaming_note = ''(Streaming endpoint: stream frames are not delivered over MCP.)''"

definition tool_description :: "endpoint_schema \<Rightarrow> string" where
  "tool_description schema =
     (let d = ep_description schema in
      if ep_stream_response schema \<noteq> None
      then (if d = [] then [] else d @ '' '') @ streaming_note
      else d)"

definition build_tool :: "casing \<Rightarrow> type_registry \<Rightarrow> nat \<Rightarrow> ws_endpoint \<Rightarrow> (mcp_tool, schema_error) result" where
  "build_tool cc reg n endpoint =
     (let schema = we_schema endpoint in
      result_bind (to_mcp_input_schema cc reg n schema) (\<lambda>input.
      result_bind (if ep_returns schema = [] then Ok None
                   else result_map Some (to_mcp_output_schema cc reg n schema)) (\<lambda>output.
      Ok \<lparr>mt_name = tool_name cc schema, mt_description = tool_description schema,
          mt_input_schema = input, mt_output_schema = output, mt_method_code = ep_code schema,
          mt_allowed_roles = we_allowed_roles endpoint,
          mt_streaming = ep_stream_response schema \<noteq> None\<rparr>)))"

primrec build_loop ::
  "casing \<Rightarrow> type_registry \<Rightarrow> nat \<Rightarrow> ws_endpoint list \<Rightarrow> mcp_tool list \<Rightarrow> (string \<Rightarrow> nat option)
    \<Rightarrow> (mcp_tool list \<times> (string \<Rightarrow> nat option), schema_error) result" where
  "build_loop cc reg n [] tools by_name = Ok (tools, by_name)"
| "build_loop cc reg n (e # es) tools by_name =
     (case build_tool cc reg n e of
        Err err \<Rightarrow> Err err
      | Ok tool \<Rightarrow>
          (case by_name (mt_name tool) of
             Some prev \<Rightarrow>
               Err (Bail (''duplicate MCP tool name '' @ mt_name tool @ '' (endpoint codes '' @
                 show_nat (unat (mt_method_code (tools ! prev))) @ '' and '' @
                 show_nat (unat (ep_code (we_schema e))) @ '')''))
           | None \<Rightarrow>
               build_loop cc reg n es (tools @ [tool]) (by_name(mt_name tool \<mapsto> length tools))))"

definition build ::
  "casing \<Rightarrow> ws_endpoint list \<Rightarrow> type_registry \<Rightarrow> nat \<Rightarrow> mcp_server_info \<Rightarrow> (mcp_state, schema_error) result" where
  "build cc endpoints reg n info =
     result_map (\<lambda>(tools, by_name). \<lparr>ms_tools = tools, ms_by_name = by_name, ms_info = info,
         ms_protocol_version = MCP_PROTOCOL_VERSION\<rparr>)
       (build_loop cc reg n (sort_key (\<lambda>e. ep_code (we_schema e)) endpoints) [] Map.empty)"

section \<open>Routing\<close>

definition roles_allowed :: "u32 list \<Rightarrow> u32 set \<Rightarrow> bool" where
  "roles_allowed actual allowed \<longleftrightarrow>
     (if allowed = {} \<or> actual = [] then False else list_ex (\<lambda>r. r \<in> allowed) actual)"

definition initialize_result :: "mcp_state \<Rightarrow> json" where
  "initialize_result st =
     jobj [(''protocolVersion'', JStr (ms_protocol_version st)),
           (''capabilities'', jobj [(''tools'', jobj [])]),
           (''serverInfo'', jobj [(''name'', JStr (mi_name (ms_info st))),
                                  (''version'', JStr (mi_version (ms_info st)))])]"

definition tools_list_result :: "mcp_state \<Rightarrow> u32 list \<Rightarrow> json" where
  "tools_list_result st roles =
     jobj [(''tools'',
       JArr (map to_list_entry (filter (\<lambda>t. roles_allowed roles (mt_allowed_roles t)) (ms_tools st))))]"

definition route_tool_call :: "mcp_state \<Rightarrow> jsonrpc_request \<Rightarrow> u32 list \<Rightarrow> mcp_action" where
  "route_tool_call st req roles =
     (let params = (case jr_params req of Some p \<Rightarrow> p | None \<Rightarrow> JNull) in
      case Option.bind (jget params ''name'') as_str of
        None \<Rightarrow>
          Respond (jsonrpc_error (jr_id req)
            (rpc_error_new RPC_INVALID_PARAMS ''tools/call requires a string `name` param''))
      | Some name \<Rightarrow>
          (case map_option (\<lambda>i. ms_tools st ! i) (ms_by_name st name) of
             Some tool \<Rightarrow>
               if roles_allowed roles (mt_allowed_roles tool)
               then ToolCall (jr_id req) (mt_method_code tool)
                      (case jget params ''arguments'' of Some a \<Rightarrow> a | None \<Rightarrow> jobj [])
               else Respond (jsonrpc_error (jr_id req)
                      (rpc_error_new RPC_INVALID_PARAMS (''Unknown tool: '' @ name)))
           | None \<Rightarrow>
               Respond (jsonrpc_error (jr_id req)
                 (rpc_error_new RPC_INVALID_PARAMS (''Unknown tool: '' @ name)))))"

definition route :: "mcp_state \<Rightarrow> jsonrpc_request \<Rightarrow> u32 list \<Rightarrow> mcp_action" where
  "route st req roles =
     (let m = jr_method req in
      if m = ''initialize'' then Respond (jsonrpc_result (jr_id req) (initialize_result st))
      else if m = ''ping'' then Respond (jsonrpc_result (jr_id req) (jobj []))
      else if starts_with m ''notifications/'' then Ignore
      else if m = ''tools/list'' then Respond (jsonrpc_result (jr_id req) (tools_list_result st roles))
      else if m = ''tools/call'' then route_tool_call st req roles
      else if is_notification req then Ignore
      else Respond (jsonrpc_error (jr_id req)
             (rpc_error_new RPC_METHOD_NOT_FOUND (''Method not found: '' @ m))))"

section \<open>Well-formed tool tables\<close>

text \<open>The index names exactly the tools there are; in particular no two tools share a name.\<close>

definition mcp_wf :: "mcp_state \<Rightarrow> bool" where
  "mcp_wf st \<longleftrightarrow>
     (\<forall>name i. ms_by_name st name = Some i \<longleftrightarrow> i < length (ms_tools st) \<and> mt_name (ms_tools st ! i) = name)"

definition index_ok :: "mcp_tool list \<Rightarrow> (string \<Rightarrow> nat option) \<Rightarrow> bool" where
  "index_ok tools by_name \<longleftrightarrow>
     (\<forall>name i. by_name name = Some i \<longleftrightarrow> i < length tools \<and> mt_name (tools ! i) = name)"

lemma index_ok_snoc:
  assumes "index_ok tools by_name" and "by_name (mt_name t) = None"
  shows "index_ok (tools @ [t]) (by_name(mt_name t \<mapsto> length tools))"
proof -
  have "mt_name (tools ! i) \<noteq> mt_name t" if "i < length tools" for i
    using assms that unfolding index_ok_def by (metis option.distinct(1))
  with assms show ?thesis
    by (auto simp: index_ok_def nth_append less_Suc_eq)
qed

lemma build_loop_ok:
  "build_loop cc reg n es tools by_name = Ok (tools', by_name') \<Longrightarrow> index_ok tools by_name \<Longrightarrow>
     index_ok tools' by_name' \<and>
     (\<exists>new. tools' = tools @ new \<and> list_all2 (\<lambda>e t. build_tool cc reg n e = Ok t) es new)"
proof (induction es arbitrary: tools by_name)
  case (Cons e es)
  then obtain t where t: "build_tool cc reg n e = Ok t" and fresh: "by_name (mt_name t) = None"
    and rest: "build_loop cc reg n es (tools @ [t]) (by_name(mt_name t \<mapsto> length tools)) = Ok (tools', by_name')"
    by (auto split: result.splits option.splits)
  from Cons.IH [OF rest index_ok_snoc [OF Cons.prems(2) fresh]] t show ?case
    by (auto simp: list_all2_Cons1)
qed auto

lemma build_tool_fields:
  "build_tool cc reg n e = Ok t \<Longrightarrow>
     mt_name t = tool_name cc (we_schema e) \<and> mt_method_code t = ep_code (we_schema e) \<and>
     mt_allowed_roles t = we_allowed_roles e"
  by (auto simp: build_tool_def Let_def)

lemma tool_at:
  assumes "mcp_wf st"
  shows "map_option (\<lambda>i. ms_tools st ! i) (ms_by_name st name) = find (\<lambda>t. mt_name t = name) (ms_tools st)"
proof (cases "ms_by_name st name")
  case None
  then have "\<not> (\<exists>i < length (ms_tools st). mt_name (ms_tools st ! i) = name)"
    using assms by (metis mcp_wf_def option.distinct(1))
  then have "find (\<lambda>t. mt_name t = name) (ms_tools st) = None"
    by (auto simp: find_None_iff in_set_conv_nth)
  with None show ?thesis by simp
next
  case (Some i)
  then have i: "i < length (ms_tools st)" "mt_name (ms_tools st ! i) = name"
    using assms by (auto simp: mcp_wf_def)
  moreover have "mt_name (ms_tools st ! j) \<noteq> name" if "j < i" for j
    using assms that i Some unfolding mcp_wf_def by (metis less_trans nat_neq_iff option.inject)
  ultimately have "find (\<lambda>t. mt_name t = name) (ms_tools st) = Some (ms_tools st ! i)"
    by (auto simp: find_Some_iff)
  with Some show ?thesis by simp
qed

text \<open>The tools a caller with \<open>roles\<close> may see.\<close>

definition visible :: "mcp_state \<Rightarrow> u32 list \<Rightarrow> mcp_tool list" where
  "visible st roles = filter (\<lambda>t. roles_allowed roles (mt_allowed_roles t)) (ms_tools st)"

lemma distinct_names: "mcp_wf st \<Longrightarrow> distinct (map mt_name (ms_tools st))"
  unfolding mcp_wf_def distinct_conv_nth by (metis length_map nth_map option.inject)

lemma find_visible:
  assumes "distinct (map f xs)"
  shows "find (\<lambda>t. f t = k) (filter P xs) = (case find (\<lambda>t. f t = k) xs of Some t \<Rightarrow> if P t then Some t else None | None \<Rightarrow> None)"
  using assms
proof (induction xs)
  case (Cons x xs)
  show ?case
  proof (cases "f x = k")
    case True
    have "f t \<noteq> k" if "t \<in> set xs" for t
    proof -
      have "f x \<notin> f ` set xs" using Cons.prems by simp
      with True that show ?thesis by (metis imageI)
    qed
    then have "find (\<lambda>t. f t = k) (filter P xs) = None"
      by (auto simp: find_None_iff)
    with True show ?thesis by simp
  qed (use Cons in auto)
qed simp

lemma route_tool_call_visible:
  assumes "mcp_wf st"
  shows "route_tool_call st req roles =
    (let params = (case jr_params req of Some p \<Rightarrow> p | None \<Rightarrow> JNull) in
     case Option.bind (jget params ''name'') as_str of
       None \<Rightarrow>
         Respond (jsonrpc_error (jr_id req)
           (rpc_error_new RPC_INVALID_PARAMS ''tools/call requires a string `name` param''))
     | Some name \<Rightarrow>
         (case find (\<lambda>t. mt_name t = name) (visible st roles) of
            Some tool \<Rightarrow>
              ToolCall (jr_id req) (mt_method_code tool)
                (case jget params ''arguments'' of Some a \<Rightarrow> a | None \<Rightarrow> jobj [])
          | None \<Rightarrow>
              Respond (jsonrpc_error (jr_id req)
                (rpc_error_new RPC_INVALID_PARAMS (''Unknown tool: '' @ name)))))"
  unfolding route_tool_call_def visible_def tool_at [OF assms] find_visible [OF distinct_names [OF assms]]
  by (simp add: Let_def split: option.split)

section \<open>Properties\<close>

text \<open>
  C9. A caller learns nothing about tools its roles do not permit. Two servers with the same
  identity that offer this caller the same permitted tools give the same answer to every request:
  a tool that exists but is forbidden is answered exactly as one that does not exist, in
  \<open>tools/list\<close> and in \<open>tools/call\<close>.
\<close>
theorem mcp_hides_forbidden_tools:
  assumes "mcp_wf st" and "mcp_wf st'"
    and "ms_info st = ms_info st'" and "ms_protocol_version st = ms_protocol_version st'"
    and "visible st roles = visible st' roles"
  shows "route st req roles = route st' req roles"
proof -
  have "route_tool_call st req roles = route_tool_call st' req roles"
    by (simp only: route_tool_call_visible [OF assms(1)] route_tool_call_visible [OF assms(2)] assms(5))
  moreover have "tools_list_result st roles = tools_list_result st' roles"
    using assms(5) by (simp only: tools_list_result_def visible_def)
  moreover have "initialize_result st = initialize_result st'"
    using assms(3,4) by (simp only: initialize_result_def)
  ultimately show ?thesis
    by (simp only: route_def)
qed

definition sample_tool :: mcp_tool where
  "sample_tool = \<lparr>mt_name = ''secret'', mt_description = [], mt_input_schema = JNull,
     mt_output_schema = None, mt_method_code = 7, mt_allowed_roles = {1}, mt_streaming = False\<rparr>"

definition sample_mcp :: "mcp_tool list \<Rightarrow> mcp_state" where
  "sample_mcp ts = \<lparr>ms_tools = ts,
     ms_by_name = (\<lambda>n. if ts \<noteq> [] \<and> n = ''secret'' then Some 0 else None),
     ms_info = \<lparr>mi_name = ''s'', mi_version = ''1''\<rparr>, ms_protocol_version = MCP_PROTOCOL_VERSION\<rparr>"

theorem mcp_hides_forbidden_tools_witness:
  "route (sample_mcp [sample_tool])
     \<lparr>jr_jsonrpc = ''2.0'', jr_id = Some (IdNum 1), jr_method = ''tools/call'',
      jr_params = Some (jobj [(''name'', JStr ''secret'')])\<rparr> [2] =
   route (sample_mcp [])
     \<lparr>jr_jsonrpc = ''2.0'', jr_id = Some (IdNum 1), jr_method = ''tools/call'',
      jr_params = Some (jobj [(''name'', JStr ''secret'')])\<rparr> [2]"
  by (rule mcp_hides_forbidden_tools)
    (auto simp: sample_mcp_def sample_tool_def mcp_wf_def visible_def roles_allowed_def split: if_splits)

lemma map_sort_key: "map f (sort_key f xs) = sort (map f xs)"
proof -
  have "map f (insort_key f x xs) = insort (f x) (map f xs)" for x xs
    by (induction xs) auto
  then show ?thesis
    by (induction xs) auto
qed

lemma list_all2_find: "list_all2 P xs ys \<Longrightarrow> y \<in> set ys \<Longrightarrow> \<exists>x \<in> set xs. P x y"
  by (induction rule: list_all2_induct) auto

text \<open>
  The tool table built at startup: when \<open>build\<close> succeeds there is exactly one tool per endpoint, in
  the order of the method codes, carrying that endpoint's code and roles; names are unique and the
  index finds every tool by its name. Two endpoints whose names coincide in snake case make it fail.
\<close>
theorem mcp_build_table:
  assumes "build cc endpoints reg n info = Ok st"
  shows "mcp_wf st \<and> distinct (map mt_name (ms_tools st)) \<and>
    map mt_method_code (ms_tools st) = sort (map (\<lambda>e. ep_code (we_schema e)) endpoints) \<and>
    (\<forall>t \<in> set (ms_tools st). \<exists>e \<in> set endpoints.
       mt_method_code t = ep_code (we_schema e) \<and> mt_allowed_roles t = we_allowed_roles e \<and>
       mt_name t = tool_name cc (we_schema e))"
proof -
  let ?es = "sort_key (\<lambda>e. ep_code (we_schema e)) endpoints"
  from assms obtain tools by_name where
    l: "build_loop cc reg n ?es [] Map.empty = Ok (tools, by_name)"
    and st: "st = \<lparr>ms_tools = tools, ms_by_name = by_name, ms_info = info,
        ms_protocol_version = MCP_PROTOCOL_VERSION\<rparr>"
    by (auto simp: build_def)
  have ok: "index_ok tools by_name" and all: "list_all2 (\<lambda>e t. build_tool cc reg n e = Ok t) ?es tools"
    using build_loop_ok [OF l] by (auto simp: index_ok_def)
  have "mcp_wf st" using ok by (simp add: st mcp_wf_def index_ok_def)
  moreover have "map mt_method_code tools = map (\<lambda>e. ep_code (we_schema e)) ?es"
    using all by (induction rule: list_all2_induct) (auto dest: build_tool_fields)
  moreover have "map (\<lambda>e. ep_code (we_schema e)) ?es = sort (map (\<lambda>e. ep_code (we_schema e)) endpoints)"
    by (rule map_sort_key)
  moreover have "\<exists>e \<in> set endpoints. build_tool cc reg n e = Ok t" if "t \<in> set tools" for t
    using list_all2_find [OF all that] by simp
  ultimately show ?thesis
    using distinct_names [of st] build_tool_fields by (fastforce simp: st)
qed

theorem mcp_build_table_witness:
  "\<exists>st. build plain_casing [\<lparr>we_schema = node_endpoint, we_handler = 0, we_allowed_roles = {1}\<rparr>]
          node_registry 8 \<lparr>mi_name = ''s'', mi_version = ''1''\<rparr> = Ok st \<and>
    map mt_method_code (ms_tools st) = [7]"
proof -
  let ?e = "\<lparr>we_schema = node_endpoint, we_handler = 0, we_allowed_roles = {1}\<rparr>"
  let ?b = "build plain_casing [?e] node_registry 8 \<lparr>mi_name = ''s'', mi_version = ''1''\<rparr>"
  have "\<exists>j. to_mcp_input_schema plain_casing node_registry 8 node_endpoint = Ok j"
    by (rule exI, code_simp)
  then obtain st where b: "?b = Ok st"
    by (auto simp: build_def build_tool_def Let_def node_endpoint_def endpoint_new_def)
  from mcp_build_table [OF b] b show ?thesis
    by (simp add: node_endpoint_def endpoint_new_def)
qed

lemma obj_get_extend_other: "obj_get kvs k = None \<Longrightarrow> obj_get (obj.extend kvs m) k = obj_get m k"
  by (simp add: obj.get_extend_other obj_get_None_iff)

lemma error_data:
  "je_data (error_code_to_jsonrpc code data) =
     (let base = obj_of [(''kind'', JStr (kind code)), (''appCode'', JInt (uint (to_u32 code)))] in
      Some (JObj (case data of JObj extra \<Rightarrow> obj.extend extra base | _ \<Rightarrow> base)))"
  by (simp add: error_code_to_jsonrpc_def obj.extend_def Let_def split: json.splits prod.splits)

lemma error_rpc_code:
  "je_code (error_code_to_jsonrpc code data) =
     (if code = BAD_REQUEST then - 32602 else if code = NOT_IMPLEMENTED then - 32601
      else if code = INTERNAL_ERROR then - 32603 else uint (to_u32 code))"
  by (simp add: error_code_to_jsonrpc_def rpc_code_of_def rpc_error_new_def Let_def
      RPC_INVALID_PARAMS_def RPC_METHOD_NOT_FOUND_def RPC_INTERNAL_ERROR_def)

text \<open>
  Errors keep their identity across the JSON-RPC boundary: the three codes with a reserved
  JSON-RPC equivalent are translated and every other code passes through as its own positive number;
  the application code and kind are always in \<open>data\<close> (unless the caller's own data replaces them),
  so that no two application codes are confused.
\<close>
theorem jsonrpc_error_faithful:
  "je_code (error_code_to_jsonrpc code data) =
     (if code = BAD_REQUEST then - 32602 else if code = NOT_IMPLEMENTED then - 32601
      else if code = INTERNAL_ERROR then - 32603 else uint (to_u32 code)) \<and>
   (jget data ''appCode'' = None \<longrightarrow>
      Option.bind (je_data (error_code_to_jsonrpc code data)) (\<lambda>d. jget d ''appCode'') =
        Some (JInt (uint (to_u32 code)))) \<and>
   (je_code (error_code_to_jsonrpc code d1) = je_code (error_code_to_jsonrpc code' d2) \<longrightarrow> code = code')"
proof -
  have "jget data ''appCode'' = None \<longrightarrow>
      Option.bind (je_data (error_code_to_jsonrpc code data)) (\<lambda>d. jget d ''appCode'') =
        Some (JInt (uint (to_u32 code)))"
    by (auto simp: error_data Let_def obj_get_extend_other obj_get_of split: json.splits)
  moreover have not_reserved: "uint (to_u32 c) \<noteq> - 32602 \<and> uint (to_u32 c) \<noteq> - 32601 \<and> uint (to_u32 c) \<noteq> - 32603 \<and>
      - 32602 \<noteq> uint (to_u32 c) \<and> - 32601 \<noteq> uint (to_u32 c) \<and> - 32603 \<noteq> uint (to_u32 c)" for c
    using uint_ge_0 [of "to_u32 c"] by linarith
  have "code = code'" if "uint (to_u32 code) = uint (to_u32 code')"
    using that by (cases code; cases code') (simp add: unsigned_word_eqI)
  then have "code = code'"
    if "je_code (error_code_to_jsonrpc code d1) = je_code (error_code_to_jsonrpc code' d2)"
    using that not_reserved by (auto simp: error_rpc_code split: if_splits)
  ultimately show ?thesis
    using error_rpc_code by blast
qed

theorem jsonrpc_error_faithful_witness:
  "je_code (error_code_to_jsonrpc FORBIDDEN JNull) = 100403 \<and>
   Option.bind (je_data (error_code_to_jsonrpc FORBIDDEN JNull)) (\<lambda>d. jget d ''appCode'') = Some (JInt 100403)"
  using jsonrpc_error_faithful [of FORBIDDEN JNull]
  by (simp add: FORBIDDEN_def BAD_REQUEST_def NOT_IMPLEMENTED_def INTERNAL_ERROR_def)

end
