(* ===== verification/Hooks.thy ===== *)
theory Hooks
  imports Basics Api_Types Server_Limits Toolbox Mcp
begin

text \<open>
  \<open>src/libs/ws/hooks.rs\<close>: the interception points. Hooks are the application's; a hook is a function
  on the part of the server's state application code reaches, the shared store and a state of its own
  (\<open>'u site\<close>). A \<open>BeforeRequest\<close> also returns the context it was given mutably, an \<open>OnConnect\<close> the
  extensions. The record \<open>srv\<close> is what a running server keeps; its fields \<open>limit_log\<close> and \<open>replies\<close>
  only observe, the events handed to the limit callback and the responses this crate itself hands to
  the toolbox.
\<close>

section \<open>Hooks\<close>

datatype request_outcome = OutcomeOk | PublicErr u32 | InternalErr

type_synonym 'u site = "world \<times> 'u"

type_synonym 'u before_request =
  "request_context \<Rightarrow> endpoint_schema \<Rightarrow> json \<Rightarrow> 'u site \<Rightarrow> 'u site \<times> request_context \<times> (unit, custom_error) result"

type_synonym 'u after_request =
  "request_context \<Rightarrow> endpoint_schema \<Rightarrow> request_outcome \<Rightarrow> 'u site \<Rightarrow> 'u site"

type_synonym 'u on_connect =
  "peer_identity \<Rightarrow> ext \<Rightarrow> 'u site \<Rightarrow> 'u site \<times> ext \<times> (unit, custom_error) result"

type_synonym 'u on_disconnect = "connection_id \<Rightarrow> peer_identity \<Rightarrow> 'u site \<Rightarrow> 'u site"

record 'u hooks =
  hk_before :: "'u before_request list"
  hk_after :: "'u after_request list"
  hk_on_connect :: "'u on_connect list"
  hk_on_disconnect :: "'u on_disconnect list"

definition hooks_default :: "'u hooks" where
  "hooks_default = \<lparr>hk_before = [], hk_after = [], hk_on_connect = [], hk_on_disconnect = []\<rparr>"

definition hooks_is_empty :: "'u hooks \<Rightarrow> bool" where
  "hooks_is_empty h \<longleftrightarrow>
     hk_before h = [] \<and> hk_after h = [] \<and> hk_on_connect h = [] \<and> hk_on_disconnect h = []"

primrec run_before_list ::
  "'u before_request list \<Rightarrow> request_context \<Rightarrow> endpoint_schema \<Rightarrow> json \<Rightarrow> 'u site
    \<Rightarrow> 'u site \<times> request_context \<times> (unit, custom_error) result" where
  "run_before_list [] ctx schema params s = (s, ctx, Ok ())"
| "run_before_list (hook # hs) ctx schema params s =
     (case hook ctx schema params s of
        (s, ctx, Ok _) \<Rightarrow> run_before_list hs ctx schema params s
      | (s, ctx, Err e) \<Rightarrow> (s, ctx, Err e))"

definition run_before ::
  "'u hooks \<Rightarrow> request_context \<Rightarrow> endpoint_schema \<Rightarrow> json \<Rightarrow> 'u site
    \<Rightarrow> 'u site \<times> request_context \<times> (unit, custom_error) result" where
  "run_before h = run_before_list (hk_before h)"

definition run_after ::
  "'u hooks \<Rightarrow> request_context \<Rightarrow> endpoint_schema \<Rightarrow> request_outcome \<Rightarrow> 'u site \<Rightarrow> 'u site" where
  "run_after h ctx schema outcome s = fold (\<lambda>hook. hook ctx schema outcome) (hk_after h) s"

primrec run_on_connect_list ::
  "'u on_connect list \<Rightarrow> peer_identity \<Rightarrow> ext \<Rightarrow> 'u site \<Rightarrow> 'u site \<times> ext \<times> (unit, custom_error) result" where
  "run_on_connect_list [] peer ext s = (s, ext, Ok ())"
| "run_on_connect_list (hook # hs) peer ext s =
     (case hook peer ext s of
        (s, ext, Ok _) \<Rightarrow> run_on_connect_list hs peer ext s
      | (s, ext, Err e) \<Rightarrow> (s, ext, Err e))"

definition run_on_connect ::
  "'u hooks \<Rightarrow> peer_identity \<Rightarrow> ext \<Rightarrow> 'u site \<Rightarrow> 'u site \<times> ext \<times> (unit, custom_error) result" where
  "run_on_connect h = run_on_connect_list (hk_on_connect h)"

definition run_on_disconnect :: "'u hooks \<Rightarrow> connection_id \<Rightarrow> peer_identity \<Rightarrow> 'u site \<Rightarrow> 'u site" where
  "run_on_disconnect h c peer s = fold (\<lambda>hook. hook c peer) (hk_on_disconnect h) s"

section \<open>The short-circuit contract\<close>

text \<open>
  Both fallible chains thread an argument \<open>'c\<close> and the site through their hooks in order and stop at
  the first error; \<open>call\<close> is one hook, \<open>chain\<close> the list.
\<close>

locale short_circuit =
  fixes call :: "'h \<Rightarrow> 'c \<Rightarrow> 's \<Rightarrow> 's \<times> 'c \<times> (unit, 'e) result"
    and chain :: "'h list \<Rightarrow> 'c \<Rightarrow> 's \<Rightarrow> 's \<times> 'c \<times> (unit, 'e) result"
  assumes chain_nil: "chain [] c s = (s, c, Ok ())"
    and chain_ok: "call h c s = (s', c', Ok ()) \<Longrightarrow> chain (h # hs) c s = chain hs c' s'"
    and chain_err: "call h c s = (s', c', Err e) \<Longrightarrow> chain (h # hs) c s = (s', c', Err e)"
begin

lemma chain_append_ok: "chain xs c s = (s', c', Ok ()) \<Longrightarrow> chain (xs @ ys) c s = chain ys c' s'"
proof (induction xs arbitrary: c s)
  case (Cons x xs)
  obtain s1 c1 r where call: "call x c s = (s1, c1, r)" by (metis prod_cases3)
  show ?case
  proof (cases r)
    case (Ok u)
    with call chain_ok [of x c s s1 c1] Cons show ?thesis by simp
  next
    case (Err e)
    with call chain_err [of x c s s1 c1 e] Cons.prems show ?thesis by simp
  qed
qed (simp add: chain_nil)

lemma chain_append_err: "chain xs c s = (s', c', Err e) \<Longrightarrow> chain (xs @ ys) c s = (s', c', Err e)"
proof (induction xs arbitrary: c s)
  case (Cons x xs)
  obtain s1 c1 r where call: "call x c s = (s1, c1, r)" by (metis prod_cases3)
  show ?case
  proof (cases r)
    case (Ok u)
    with call chain_ok [of x c s s1 c1] Cons show ?thesis by simp
  next
    case (Err e')
    with call chain_err [of x c s s1 c1 e'] Cons.prems show ?thesis by simp
  qed
qed (simp add: chain_nil)

text \<open>The first hook that fails decides, and nothing after it has any effect.\<close>

lemma chain_first_error:
  "chain xs c s = (s', c', Ok ()) \<Longrightarrow> call h c' s' = (s'', c'', Err e) \<Longrightarrow>
     chain (xs @ h # ys) c s = (s'', c'', Err e)"
  by (simp add: chain_append_ok chain_err)

lemma chain_errE:
  assumes "chain hs c s = (s'', c'', Err e)"
  shows "\<exists>xs h ys s' c'. hs = xs @ h # ys \<and> chain xs c s = (s', c', Ok ()) \<and> call h c' s' = (s'', c'', Err e)"
  using assms
proof (induction hs arbitrary: c s)
  case (Cons h hs)
  obtain s1 c1 r where call: "call h c s = (s1, c1, r)" by (metis prod_cases3)
  show ?case
  proof (cases r)
    case (Ok u)
    with call chain_ok [of h c s s1 c1] Cons.prems have "chain hs c1 s1 = (s'', c'', Err e)" by simp
    from Cons.IH [OF this] obtain xs h' ys s' c' where
      "hs = xs @ h' # ys" "chain xs c1 s1 = (s', c', Ok ())" "call h' c' s' = (s'', c'', Err e)"
      by blast
    moreover have "chain (h # xs) c s = (s', c', Ok ())"
      using call Ok calculation(2) chain_ok [of h c s s1 c1 xs] by simp
    ultimately show ?thesis by (metis append_Cons)
  next
    case (Err e')
    with call chain_err [of h c s s1 c1 e'] Cons.prems have "call h c s = (s'', c'', Err e)" by simp
    then show ?thesis using chain_nil by (metis append_Nil)
  qed
qed (simp add: chain_nil)

end

interpretation before_chain: short_circuit
  "\<lambda>hook ctx s. hook ctx schema params s" "\<lambda>hs ctx s. run_before_list hs ctx schema params s" for schema params
  by unfold_locales simp_all

interpretation connect_chain: short_circuit
  "\<lambda>hook ext s. hook peer ext s" "\<lambda>hs ext s. run_on_connect_list hs peer ext s" for peer
  by unfold_locales simp_all

section \<open>Properties\<close>

text \<open>
  Hooks run in registration order and the first error decides. A request is rejected with \<open>e\<close>
  exactly when some \<open>BeforeRequest\<close> hook returned it after all hooks before it had passed, each on
  the context and the state its predecessor left; the hooks behind it have no effect at all. The same
  holds for \<open>OnConnect\<close>.
\<close>
theorem hooks_stop_at_first_error:
  "(run_before h ctx schema params s = (s', ctx', Err e) \<longleftrightarrow>
      (\<exists>xs x ys s1 ctx1. hk_before h = xs @ x # ys \<and>
         run_before_list xs ctx schema params s = (s1, ctx1, Ok ()) \<and> x ctx1 schema params s1 = (s', ctx', Err e))) \<and>
   (run_on_connect h peer ext s = (s', ext', Err e) \<longleftrightarrow>
      (\<exists>xs x ys s1 ext1. hk_on_connect h = xs @ x # ys \<and>
         run_on_connect_list xs peer ext s = (s1, ext1, Ok ()) \<and> x peer ext1 s1 = (s', ext', Err e)))"
proof
  show "run_before h ctx schema params s = (s', ctx', Err e) \<longleftrightarrow>
      (\<exists>xs x ys s1 ctx1. hk_before h = xs @ x # ys \<and>
         run_before_list xs ctx schema params s = (s1, ctx1, Ok ()) \<and> x ctx1 schema params s1 = (s', ctx', Err e))"
    unfolding run_before_def by (metis before_chain.chain_errE before_chain.chain_first_error)
  show "run_on_connect h peer ext s = (s', ext', Err e) \<longleftrightarrow>
      (\<exists>xs x ys s1 ext1. hk_on_connect h = xs @ x # ys \<and>
         run_on_connect_list xs peer ext s = (s1, ext1, Ok ()) \<and> x peer ext1 s1 = (s', ext', Err e))"
    unfolding run_on_connect_def by (metis connect_chain.chain_errE connect_chain.chain_first_error)
qed

end
