(* ===== verification/Handler.thy ===== *)
theory Handler
  imports Hooks
begin

text \<open>
  \<open>src/libs/ws/handler.rs\<close>: how a typed handler is run behind the erased interface, once for the
  legacy envelope and once for MCP. The application's handler and its derived deserialisation are
  parameters: \<open>rh_from_value\<close> is \<open>serde_json::from_value\<close> with the text of its error, \<open>rh_error_path\<close>
  the path \<open>serde_path_to_error\<close> finds (\<open>None\<close> when the second parse succeeds), \<open>rh_handle\<close> the body,
  its error already converted by \<open>Into<CustomError>\<close>. \<open>Manual\<close> is a hand-written
  \<open>RequestHandlerErased\<close> that keeps the default \<open>handle_mcp\<close>.
\<close>

section \<open>A running server's state\<close>

datatype reply = Frame ws_response_value | Raw json

record 'u srv =
  srv_world :: world
  srv_app :: 'u
  srv_limits :: server_limit_state
  limit_log :: "limit_event list"
  replies :: "(connection_id \<times> reply) list"

definition on_site :: "('u site \<Rightarrow> 'u site \<times> 'r) \<Rightarrow> 'u srv \<Rightarrow> 'u srv \<times> 'r" where
  "on_site f s = (case f (srv_world s, srv_app s) of
     ((w, u), r) \<Rightarrow> (s\<lparr>srv_world := w, srv_app := u\<rparr>, r))"

definition at_site :: "('u site \<Rightarrow> 'u site) \<Rightarrow> 'u srv \<Rightarrow> 'u srv" where
  "at_site f s = (case f (srv_world s, srv_app s) of (w, u) \<Rightarrow> s\<lparr>srv_world := w, srv_app := u\<rparr>)"

text \<open>
  What the crate calls of serde: the text of a response frame and of a JSON value, the parse of a
  frame as JSON, and the derived deserialisation of a JSON-RPC and of a legacy request.
\<close>

record serde =
  sd_frame :: "ws_response_value \<Rightarrow> string option"
  sd_value :: "json \<Rightarrow> string"
  sd_parse :: "string \<Rightarrow> json option"
  sd_rpc :: "json \<Rightarrow> (jsonrpc_request, string) result"
  sd_request_str :: "bytes \<Rightarrow> (ws_request_value, string) result"
  sd_request_slice :: "bytes \<Rightarrow> (ws_request_value, string) result"

definition reply_send :: "serde \<Rightarrow> toolbox \<Rightarrow> connection_id \<Rightarrow> ws_response_value \<Rightarrow> 'u srv \<Rightarrow> 'u srv" where
  "reply_send sd tb c resp s =
     s\<lparr>srv_world := fst (send (sd_frame sd) tb c resp (srv_world s)), replies := replies s @ [(c, Frame resp)]\<rparr>"

definition reply_send_raw :: "serde \<Rightarrow> toolbox \<Rightarrow> connection_id \<Rightarrow> json \<Rightarrow> 'u srv \<Rightarrow> 'u srv" where
  "reply_send_raw sd tb c frame s =
     s\<lparr>srv_world := fst (send_raw tb c (sd_value sd frame) (srv_world s)), replies := replies s @ [(c, Raw frame)]\<rparr>"

section \<open>Handlers\<close>

record 'u request_handler =
  rh_from_value :: "json \<Rightarrow> (json, string) result"
  rh_error_path :: "json \<Rightarrow> string option"
  rh_handle :: "request_context \<Rightarrow> json \<Rightarrow> 'u site \<Rightarrow> 'u site \<times> (json option, custom_error handler_error) result"

datatype 'u request_handler_erased =
    Typed "'u request_handler"
  | Manual "request_context \<Rightarrow> json \<Rightarrow> 'u site \<Rightarrow> 'u site"

definition param_error :: "'u request_handler \<Rightarrow> json \<Rightarrow> string \<Rightarrow> string" where
  "param_error h req err =
     (case rh_error_path h req of Some p \<Rightarrow> p @ '': '' @ err | None \<Rightarrow> err)"

definition handle_typed ::
  "serde \<Rightarrow> toolbox \<Rightarrow> 'u request_handler \<Rightarrow> request_context \<Rightarrow> json \<Rightarrow> 'u srv \<Rightarrow> 'u srv" where
  "handle_typed sd tb h ctx req s =
     (case rh_from_value h req of
        Err err \<Rightarrow>
          reply_send sd tb (rc_connection_id ctx)
            (error_response ctx BAD_REQUEST (kind_message BAD_REQUEST (param_error h req err))) s
      | Ok data \<Rightarrow>
          (let (s, resp) = on_site (rh_handle h ctx data) s in
           case encode_handler_response id ctx resp of
             Some resp \<Rightarrow> reply_send sd tb (rc_connection_id ctx) resp s
           | None \<Rightarrow> s))"

definition handle ::
  "serde \<Rightarrow> toolbox \<Rightarrow> 'u request_handler_erased \<Rightarrow> request_context \<Rightarrow> json \<Rightarrow> 'u srv \<Rightarrow> 'u srv" where
  "handle sd tb h ctx req s =
     (case h of
        Typed h \<Rightarrow> handle_typed sd tb h ctx req s
      | Manual f \<Rightarrow> at_site (f ctx req) s)"

definition log_id_data :: "request_context \<Rightarrow> json" where
  "log_id_data ctx = jobj [(''logId'', JStr (show_nat (unat (rc_log_id ctx))))]"

text \<open>The frame a typed handler's result becomes; \<open>NoResponse\<close> becomes none.\<close>

definition mcp_frame ::
  "serde \<Rightarrow> request_context \<Rightarrow> jsonrpc_id option \<Rightarrow> (json option, custom_error handler_error) result \<Rightarrow> json option" where
  "mcp_frame sd ctx i resp =
     (case resp of
        Ok (Some v) \<Rightarrow> Some (jsonrpc_result i (encode_tool_result (sd_value sd) v))
      | Ok None \<Rightarrow> Some (jsonrpc_error i (error_code_to_jsonrpc INTERNAL_ERROR (log_id_data ctx)))
      | Err (Public err) \<Rightarrow> Some (jsonrpc_result i (encode_tool_error (ce_code err) (ce_params err)))
      | Err (Internal _) \<Rightarrow> Some (jsonrpc_error i (error_code_to_jsonrpc INTERNAL_ERROR (log_id_data ctx)))
      | Err NoResponse \<Rightarrow> None)"

definition handle_mcp_typed ::
  "serde \<Rightarrow> toolbox \<Rightarrow> 'u request_handler \<Rightarrow> request_context \<Rightarrow> jsonrpc_id option \<Rightarrow> json \<Rightarrow> 'u srv \<Rightarrow> 'u srv" where
  "handle_mcp_typed sd tb h ctx i req s =
     (case rh_from_value h req of
        Err err \<Rightarrow>
          reply_send_raw sd tb (rc_connection_id ctx)
            (jsonrpc_error i (rpc_error_new RPC_INVALID_PARAMS (''Invalid params: '' @ param_error h req err))) s
      | Ok data \<Rightarrow>
          (let (s, resp) = on_site (rh_handle h ctx data) s in
           case mcp_frame sd ctx i resp of
             Some frame \<Rightarrow> reply_send_raw sd tb (rc_connection_id ctx) frame s
           | None \<Rightarrow> s))"

definition handle_mcp_default ::
  "serde \<Rightarrow> toolbox \<Rightarrow> request_context \<Rightarrow> jsonrpc_id option \<Rightarrow> 'u srv \<Rightarrow> 'u srv" where
  "handle_mcp_default sd tb ctx i s =
     reply_send_raw sd tb (rc_connection_id ctx)
       (jsonrpc_error i (rpc_error_new RPC_METHOD_NOT_FOUND ''Handler does not support MCP'')) s"

definition handle_mcp ::
  "serde \<Rightarrow> toolbox \<Rightarrow> 'u request_handler_erased \<Rightarrow> request_context \<Rightarrow> jsonrpc_id option \<Rightarrow> json \<Rightarrow> 'u srv \<Rightarrow> 'u srv" where
  "handle_mcp sd tb h ctx i req s =
     (case h of
        Typed h \<Rightarrow> handle_mcp_typed sd tb h ctx i req s
      | Manual _ \<Rightarrow> handle_mcp_default sd tb ctx i s)"

section \<open>What a handler answers\<close>

lemma on_site_simps [simp]:
  "srv_limits (fst (on_site f s)) = srv_limits s" "limit_log (fst (on_site f s)) = limit_log s"
  "replies (fst (on_site f s)) = replies s"
  "srv_limits (at_site g s) = srv_limits s" "limit_log (at_site g s) = limit_log s"
  "replies (at_site g s) = replies s"
  by (auto simp: on_site_def at_site_def split: prod.splits)

lemma reply_simps [simp]:
  "srv_limits (reply_send sd tb c r s) = srv_limits s" "limit_log (reply_send sd tb c r s) = limit_log s"
  "replies (reply_send sd tb c r s) = replies s @ [(c, Frame r)]" "srv_app (reply_send sd tb c r s) = srv_app s"
  "srv_limits (reply_send_raw sd tb c j s) = srv_limits s" "limit_log (reply_send_raw sd tb c j s) = limit_log s"
  "replies (reply_send_raw sd tb c j s) = replies s @ [(c, Raw j)]" "srv_app (reply_send_raw sd tb c j s) = srv_app s"
  by (simp_all add: reply_send_def reply_send_raw_def)

text \<open>
  The answer a typed handler gives to a request it finds in the site \<open>a\<close>, in either envelope; the
  specification both entry points implement.
\<close>

datatype envelope = LegacyCall | McpCall "jsonrpc_id option"

definition answer ::
  "serde \<Rightarrow> 'u request_handler \<Rightarrow> request_context \<Rightarrow> envelope \<Rightarrow> json \<Rightarrow> 'u site \<Rightarrow> reply option" where
  "answer sd h ctx env req a =
     (case env of
        LegacyCall \<Rightarrow>
          (case rh_from_value h req of
             Err err \<Rightarrow> Some (Frame (error_response ctx BAD_REQUEST
               (kind_message BAD_REQUEST (param_error h req err))))
           | Ok data \<Rightarrow> map_option Frame (encode_handler_response id ctx (snd (rh_handle h ctx data a))))
      | McpCall i \<Rightarrow>
          (case rh_from_value h req of
             Err err \<Rightarrow> Some (Raw (jsonrpc_error i
               (rpc_error_new RPC_INVALID_PARAMS (''Invalid params: '' @ param_error h req err))))
           | Ok data \<Rightarrow> map_option Raw (mcp_frame sd ctx i (snd (rh_handle h ctx data a)))))"

definition handler_silent :: "'u request_handler \<Rightarrow> request_context \<Rightarrow> json \<Rightarrow> 'u site \<Rightarrow> bool" where
  "handler_silent h ctx req a \<longleftrightarrow>
     (\<exists>data. rh_from_value h req = Ok data \<and> snd (rh_handle h ctx data a) = Err NoResponse)"

lemma snd_on_site: "snd (on_site f s) = snd (f (srv_world s, srv_app s))"
  by (simp add: on_site_def split: prod.splits)

lemma answer_None_iff: "answer sd h ctx env req a = None \<longleftrightarrow> handler_silent h ctx req a"
  by (auto simp: answer_def handler_silent_def encode_handler_response_def mcp_frame_def
      split: envelope.splits result.splits handler_error.splits option.splits)

definition run_handler ::
  "serde \<Rightarrow> toolbox \<Rightarrow> 'u request_handler_erased \<Rightarrow> request_context \<Rightarrow> envelope \<Rightarrow> json \<Rightarrow> 'u srv \<Rightarrow> 'u srv" where
  "run_handler sd tb h ctx env req s =
     (case env of LegacyCall \<Rightarrow> handle sd tb h ctx req s | McpCall i \<Rightarrow> handle_mcp sd tb h ctx i req s)"

lemma handler_replies:
  "replies (run_handler sd tb (Typed h) ctx env req s) =
     replies s @ (case answer sd h ctx env req (srv_world s, srv_app s) of
       Some r \<Rightarrow> [(rc_connection_id ctx, r)] | None \<Rightarrow> [])"
  by (auto simp: run_handler_def answer_def handle_def handle_typed_def handle_mcp_def handle_mcp_typed_def
      snd_on_site Let_def split_beta split: envelope.split result.split option.split)

lemma handler_limits:
  "srv_limits (run_handler sd tb h ctx env req s) = srv_limits s"
  "limit_log (run_handler sd tb h ctx env req s) = limit_log s"
  by (auto simp: run_handler_def handle_def handle_typed_def handle_mcp_def handle_mcp_typed_def
      handle_mcp_default_def Let_def split_beta split: envelope.split result.split option.split
      request_handler_erased.split)

end
