(* ===== verification/Session.thy ===== *)
theory Session
  imports Handler
begin

text \<open>
  \<open>src/libs/ws/session.rs\<close>: one connection's session. \<open>handle_message\<close> and \<open>handle_mcp_frame\<close> turn
  an inbound frame into replies or a task; \<open>task_step\<close> is the task's future, cut at its await points
  (one hook, or the handler, at a time), so that anything may happen between two of them and a
  timeout may strike at each; \<open>loop_step\<close> is the session loop, cut the same way. What the transport
  delivers and when a future becomes ready is the input \<open>tick\<close> of a step.
\<close>

section \<open>The server a session belongs to\<close>

text \<open>\<open>server_impl\<close> finds the handler an endpoint refers to.\<close>

record 'u server =
  server_config :: ws_server_config
  server_toolbox :: toolbox
  server_handlers :: "u32 \<Rightarrow> ws_endpoint option"
  server_impl :: "nat \<Rightarrow> 'u request_handler_erased"
  server_hooks :: "'u hooks"
  server_mcp :: "mcp_state option"
  server_serde :: serde

definition srv_send :: "'u server \<Rightarrow> connection_id \<Rightarrow> ws_response_value \<Rightarrow> 'u srv \<Rightarrow> 'u srv" where
  "srv_send sv = reply_send (server_serde sv) (server_toolbox sv)"

definition srv_send_raw :: "'u server \<Rightarrow> connection_id \<Rightarrow> json \<Rightarrow> 'u srv \<Rightarrow> 'u srv" where
  "srv_send_raw sv = reply_send_raw (server_serde sv) (server_toolbox sv)"

definition refuse_request :: "'u server \<Rightarrow> request_context \<Rightarrow> string \<Rightarrow> 'u srv \<Rightarrow> 'u srv" where
  "refuse_request sv ctx message s =
     srv_send sv (rc_connection_id ctx)
       (error_response ctx TOO_MANY_REQUESTS
          (jobj [(''kind'', JStr ''server_error''), (''message'', JStr message)])) s"

definition check_roles :: "u32 list \<Rightarrow> u32 set \<Rightarrow> bool" where
  "check_roles actual allowed \<longleftrightarrow>
     (if allowed = {} \<or> actual = [] then False else list_ex (\<lambda>r. r \<in> allowed) actual)"

text \<open>\<open>limits.acquire_request\<close> and \<open>limits.observe_message\<close> on the running server.\<close>

definition srv_acquire :: "'u server \<Rightarrow> 'u srv \<Rightarrow> 'u srv \<times> limit_slot option" where
  "srv_acquire sv s =
     (case acquire_request (srv_limits s) (server_config sv) of
        (l, slot, evs) \<Rightarrow> (s\<lparr>srv_limits := l, limit_log := limit_log s @ evs\<rparr>, slot))"

definition srv_observe_message :: "'u server \<Rightarrow> nat \<Rightarrow> 'u srv \<Rightarrow> 'u srv" where
  "srv_observe_message sv bytes s =
     (case observe_message (srv_limits s) (server_config sv) bytes of
        (l, evs) \<Rightarrow> s\<lparr>srv_limits := l, limit_log := limit_log s @ evs\<rparr>)"

definition srv_observe_time :: "'u server \<Rightarrow> nat \<Rightarrow> 'u srv \<Rightarrow> 'u srv" where
  "srv_observe_time sv elapsed s =
     (case observe_request_time (srv_limits s) (server_config sv) elapsed of
        (l, evs) \<Rightarrow> s\<lparr>srv_limits := l, limit_log := limit_log s @ evs\<rparr>)"

definition srv_release :: "limit_slot \<Rightarrow> 'u srv \<Rightarrow> 'u srv" where
  "srv_release slot s = s\<lparr>srv_limits := slot_drop slot (srv_limits s)\<rparr>"

section \<open>Tasks\<close>

datatype phase = InBefore nat | InAfter nat request_outcome | Completed

record 'u task =
  tk_env :: envelope
  tk_params :: json
  tk_schema :: endpoint_schema
  tk_handler :: "'u request_handler_erased"
  tk_slot :: limit_slot
  tk_start_context :: request_context
  tk_context :: request_context
  tk_phase :: phase
  tk_responded :: bool

definition task_new ::
  "envelope \<Rightarrow> json \<Rightarrow> endpoint_schema \<Rightarrow> 'u request_handler_erased \<Rightarrow> limit_slot \<Rightarrow> request_context \<Rightarrow> 'u task" where
  "task_new env params schema h slot ctx =
     \<lparr>tk_env = env, tk_params = params, tk_schema = schema, tk_handler = h, tk_slot = slot,
      tk_start_context = ctx, tk_context = ctx, tk_phase = InBefore 0, tk_responded = False\<rparr>"

text \<open>
  A hook's rejection goes back in the caller's envelope: to the connection the hook's context names
  on the legacy path, to the connection of the request on the MCP path.
\<close>

definition reject :: "'u server \<Rightarrow> 'u task \<Rightarrow> request_context \<Rightarrow> custom_error \<Rightarrow> 'u srv \<Rightarrow> 'u srv" where
  "reject sv t ctx custom s =
     (case tk_env t of
        LegacyCall \<Rightarrow> srv_send sv (rc_connection_id ctx) (error_response ctx (ce_code custom) (ce_params custom)) s
      | McpCall i \<Rightarrow>
          srv_send_raw sv (rc_connection_id (tk_start_context t))
            (jsonrpc_result i (encode_tool_error (ce_code custom) (ce_params custom))) s)"

definition run_task_handler :: "'u server \<Rightarrow> 'u task \<Rightarrow> 'u srv \<Rightarrow> 'u srv" where
  "run_task_handler sv t s =
     (case tk_env t of
        LegacyCall \<Rightarrow>
          handle (server_serde sv) (server_toolbox sv) (tk_handler t) (tk_context t) (tk_params t) s
      | McpCall i \<Rightarrow>
          handle_mcp (server_serde sv) (server_toolbox sv) (tk_handler t) (tk_context t) i (tk_params t) s)"

text \<open>One segment of the task's body.\<close>

definition task_step :: "'u server \<Rightarrow> 'u task \<Rightarrow> 'u srv \<Rightarrow> 'u task \<times> 'u srv" where
  "task_step sv t s =
     (case tk_phase t of
        InBefore k \<Rightarrow>
          if k < length (hk_before (server_hooks sv)) then
            (case on_site ((hk_before (server_hooks sv) ! k) (tk_context t) (tk_schema t) (tk_params t)) s of
               (s, ctx, Ok _) \<Rightarrow> (t\<lparr>tk_context := ctx, tk_phase := InBefore (k + 1)\<rparr>, s)
             | (s, ctx, Err custom) \<Rightarrow>
                 (t\<lparr>tk_context := ctx, tk_responded := True,
                    tk_phase := InAfter 0 (PublicErr (to_u32 (ce_code custom)))\<rparr>,
                  reject sv t ctx custom s))
          else (t\<lparr>tk_responded := True, tk_phase := InAfter 0 OutcomeOk\<rparr>, run_task_handler sv t s)
      | InAfter k outcome \<Rightarrow>
          if k < length (hk_after (server_hooks sv)) then
            (t\<lparr>tk_phase := InAfter (k + 1) outcome\<rparr>,
             at_site ((hk_after (server_hooks sv) ! k) (tk_context t) (tk_schema t) outcome) s)
          else (t\<lparr>tk_phase := Completed\<rparr>, s)
      | Completed \<Rightarrow> (t, s))"

definition timeout_reply :: "'u server \<Rightarrow> 'u task \<Rightarrow> 'u srv \<Rightarrow> 'u srv" where
  "timeout_reply sv t s =
     (let ctx = tk_start_context t in
      case tk_env t of
        LegacyCall \<Rightarrow>
          srv_send sv (rc_connection_id ctx)
            (error_response ctx REQUEST_TIMEOUT
               (jobj [(''kind'', JStr ''timeout''), (''message'', JStr ''request timed out'')])) s
      | McpCall None \<Rightarrow> s
      | McpCall i \<Rightarrow>
          srv_send_raw sv (rc_connection_id ctx)
            (jsonrpc_error i (rpc_error_new (- 32001) ''request timed out'')) s)"

text \<open>
  The end of the task: the body is done, or, when \<open>expired\<close>, was dropped at an await point by the
  timeout; the slot goes out of scope last.
\<close>

definition finish_task :: "'u server \<Rightarrow> nat \<Rightarrow> bool \<Rightarrow> 'u task \<Rightarrow> 'u srv \<Rightarrow> 'u srv" where
  "finish_task sv elapsed expired t s =
     (let s = srv_observe_time sv elapsed s;
          s = (if expired \<and> \<not> tk_responded t then timeout_reply sv t s else s) in
      srv_release (tk_slot t) s)"

text \<open>The task's body without interruption, as the source writes it.\<close>

definition work :: "'u server \<Rightarrow> 'u task \<Rightarrow> 'u srv \<Rightarrow> 'u srv" where
  "work sv t s =
     (let hooks = server_hooks sv in
      case on_site (run_before hooks (tk_context t) (tk_schema t) (tk_params t)) s of
        (s, ctx, Err custom) \<Rightarrow>
          at_site (run_after hooks ctx (tk_schema t) (PublicErr (to_u32 (ce_code custom)))) (reject sv t ctx custom s)
      | (s, ctx, Ok _) \<Rightarrow>
          at_site (run_after hooks ctx (tk_schema t) OutcomeOk) (run_task_handler sv (t\<lparr>tk_context := ctx\<rparr>) s))"

section \<open>Inbound frames\<close>

datatype 'u dispatch = DClose | DKeep | DTask "'u task"

definition request_frame_error :: "error_code \<Rightarrow> request_context \<Rightarrow> string \<Rightarrow> ws_response_value" where
  "request_frame_error code ctx msg = error_response ctx code (kind_message code msg)"

definition seq_of_id :: "jsonrpc_id option \<Rightarrow> u32 \<Rightarrow> u32" where
  "seq_of_id i seq =
     (case i of Some (IdNum n) \<Rightarrow> if 0 \<le> n \<and> n < 2 ^ 32 then word_of_int n else seq | _ \<Rightarrow> seq)"

definition handle_mcp_frame ::
  "'u server \<Rightarrow> ws_connection \<Rightarrow> mcp_state \<Rightarrow> (jsonrpc_request, json) result \<Rightarrow> request_context \<Rightarrow> 'u srv
    \<Rightarrow> 'u srv \<times> 'u task option" where
  "handle_mcp_frame sv conn mcp frame ctx s =
     (let conn_id = rc_connection_id ctx in
      case frame of
        Err error_frame \<Rightarrow> (srv_send_raw sv conn_id error_frame s, None)
      | Ok req \<Rightarrow>
          if is_notification req then (s, None)
          else
            (let ctx = ctx\<lparr>rc_user_id := get_user_id conn, rc_roles := get_roles conn\<rparr> in
             case route mcp req (rc_roles ctx) of
               Respond frame \<Rightarrow> (srv_send_raw sv conn_id frame s, None)
             | Ignore \<Rightarrow> (s, None)
             | ToolCall i method_code arguments \<Rightarrow>
                 (let ctx = ctx\<lparr>rc_method := method_code, rc_seq := seq_of_id i (rc_seq ctx)\<rparr> in
                  case server_handlers sv method_code of
                    None \<Rightarrow>
                      (srv_send_raw sv conn_id
                         (jsonrpc_error i (rpc_error_new RPC_METHOD_NOT_FOUND ''Method not found'')) s, None)
                  | Some endpoint \<Rightarrow>
                      (case srv_acquire sv s of
                         (s, None) \<Rightarrow>
                           (if i \<noteq> None
                            then srv_send_raw sv conn_id (jsonrpc_error i (rpc_error_new (- 32000) ''server busy'')) s
                            else s, None)
                       | (s, Some slot) \<Rightarrow>
                           (s, Some (task_new (McpCall i) arguments (we_schema endpoint)
                                  (server_impl sv (we_handler endpoint)) slot ctx))))))"

fun message_payload :: "wire_message \<Rightarrow> bytes option" where
  "message_payload (Text t) = Some (utf8_as_bytes t)"
| "message_payload (Binary b) = (if utf8_valid b then Some b else None)"
| "message_payload _ = None"

fun message_bytes :: "wire_message \<Rightarrow> nat" where
  "message_bytes (Text t) = length (utf8_as_bytes t)"
| "message_bytes (Binary b) = length b"
| "message_bytes _ = 0"

text \<open>The legacy request, from its parsed form on.\<close>

definition handle_request ::
  "'u server \<Rightarrow> ws_connection \<Rightarrow> request_context \<Rightarrow> ws_request_value \<Rightarrow> 'u srv \<Rightarrow> 'u srv \<times> 'u dispatch" where
  "handle_request sv conn ctx req s =
     (let ctx = ctx\<lparr>rc_seq := rq_seq req, rc_method := rq_method req, rc_user_id := get_user_id conn,
                    rc_roles := get_roles conn\<rparr> in
      case server_handlers sv (rq_method req) of
        None \<Rightarrow>
          (srv_send sv (rc_connection_id ctx) (request_frame_error NOT_IMPLEMENTED ctx ''Method not implemented'') s,
           DKeep)
      | Some endpoint \<Rightarrow>
          if \<not> check_roles (rc_roles ctx) (we_allowed_roles endpoint)
          then (srv_send sv (rc_connection_id ctx) (request_frame_error FORBIDDEN ctx ''Forbidden'') s, DKeep)
          else (case srv_acquire sv s of
                  (s, None) \<Rightarrow> (refuse_request sv ctx ''server busy'' s, DKeep)
                | (s, Some slot) \<Rightarrow>
                    (s, DTask (task_new LegacyCall (rq_params req) (we_schema endpoint)
                          (server_impl sv (we_handler endpoint)) slot ctx))))"

definition handle_parsed ::
  "'u server \<Rightarrow> ws_connection \<Rightarrow> request_context \<Rightarrow> (ws_request_value, string) result \<Rightarrow> 'u srv \<Rightarrow> 'u srv \<times> 'u dispatch" where
  "handle_parsed sv conn ctx obj s =
     (case obj of
        Err err \<Rightarrow> (srv_send sv (rc_connection_id ctx) (request_frame_error BAD_REQUEST ctx err) s, DKeep)
      | Ok req \<Rightarrow> handle_request sv conn ctx req s)"

definition handle_message ::
  "'u server \<Rightarrow> ws_connection \<Rightarrow> wire_message \<Rightarrow> 'u srv \<Rightarrow> 'u srv \<times> 'u dispatch" where
  "handle_message sv conn msg s =
     (let s = srv_observe_message sv (message_bytes msg) s;
          ctx = from_conn conn;
          rpc = Option.bind (server_mcp sv) (\<lambda>mcp.
                  Option.bind (message_payload msg) (\<lambda>p.
                    map_option (Pair mcp)
                      (try_parse_jsonrpc (sd_parse (server_serde sv)) (sd_rpc (server_serde sv)) (bytes_str p)))) in
      case rpc of
        Some (mcp, frame) \<Rightarrow>
          (case handle_mcp_frame sv conn mcp frame ctx s of
             (s, Some t) \<Rightarrow> (s, DTask t)
           | (s, None) \<Rightarrow> (s, DKeep))
      | None \<Rightarrow>
          if mcp_only (server_config sv)
          then (srv_send_raw sv (rc_connection_id ctx)
                  (jsonrpc_error None (rpc_error_new RPC_INVALID_REQUEST
                     ''This WebSocket accepts MCP JSON-RPC 2.0 frames only'')) s, DKeep)
          else (case msg of
                  Text t \<Rightarrow> handle_parsed sv conn ctx (sd_request_str (server_serde sv) (utf8_as_bytes t)) s
                | Binary b \<Rightarrow> handle_parsed sv conn ctx (sd_request_slice (server_serde sv) b) s
                | Ping _ \<Rightarrow> (s, DKeep)
                | Pong _ \<Rightarrow> (s, DKeep)
                | Close _ \<Rightarrow> (s, DClose)))"

section \<open>The session loop\<close>

datatype stream_error = StreamClosed | Protocol string | WriteBufferFull | StreamOther string

datatype outbound = OutFrame wire_message | OutClosed

definition classify_outbound :: "wire_message option \<Rightarrow> outbound" where
  "classify_outbound msg = (case msg of Some frame \<Rightarrow> OutFrame frame | None \<Rightarrow> OutClosed)"

datatype ('h, 'o, 'i, 'e) arm = ArmHandler 'h | ArmOutbound 'o | ArmInbound 'i | ArmEnd 'e

text \<open>\<open>select\<close> on two futures: the left one when it is ready, and only then is the right one not polled.\<close>

datatype ('a, 'b) either = EitherLeft 'a | EitherRight 'b

definition select2 :: "'a poll \<Rightarrow> 'b poll \<Rightarrow> ('a, 'b) either poll" where
  "select2 a b =
     (case a of
        Ready x \<Rightarrow> Ready (EitherLeft x)
      | Pending \<Rightarrow> (case b of Ready y \<Rightarrow> Ready (EitherRight y) | Pending \<Rightarrow> Pending))"

text \<open>A handler arm that is \<open>None\<close> is pending forever.\<close>

definition priority4 ::
  "'h poll option \<Rightarrow> 'o poll \<Rightarrow> 'i poll \<Rightarrow> 'e poll \<Rightarrow> ('h, 'o, 'i, 'e) arm poll" where
  "priority4 handler outbound inbound end_flag =
     (let handler = (case handler of Some fut \<Rightarrow> fut | None \<Rightarrow> Pending) in
      case select2 handler (select2 outbound (select2 inbound end_flag)) of
        Pending \<Rightarrow> Pending
      | Ready (EitherLeft fired) \<Rightarrow> Ready (ArmHandler fired)
      | Ready (EitherRight inner) \<Rightarrow>
          (case inner of
             EitherLeft fired \<Rightarrow> Ready (ArmOutbound fired)
           | EitherRight inner \<Rightarrow>
               (case inner of
                  EitherLeft fired \<Rightarrow> Ready (ArmInbound fired)
                | EitherRight fired \<Rightarrow> Ready (ArmEnd fired))))"

datatype loop_pc = LoopTop | Drain | AfterDrain | Select | Ended

text \<open>\<open>se_wire\<close> only observes: the frames the transport accepted.\<close>

record 'u session =
  se_conn :: nat
  se_rx :: nat
  se_end :: nat
  se_waker :: waker
  se_last_received :: nat
  se_tasks :: "'u task list"
  se_wire :: "wire_message list"
  se_pc :: loop_pc

definition session_new :: "nat \<Rightarrow> nat \<Rightarrow> nat \<Rightarrow> waker \<Rightarrow> nat \<Rightarrow> 'u session" where
  "session_new conn rx fresh_end wk now =
     \<lparr>se_conn = conn, se_rx = rx, se_end = fresh_end, se_waker = wk, se_last_received = now,
      se_tasks = [], se_wire = [], se_pc = LoopTop\<rparr>"

definition bind_end :: "nat \<Rightarrow> 'u session \<Rightarrow> 'u session" where
  "bind_end e se = se\<lparr>se_end := e\<rparr>"

definition idle_expired :: "'u server \<Rightarrow> nat \<Rightarrow> 'u session \<Rightarrow> bool" where
  "idle_expired sv now se \<longleftrightarrow>
     (case idle_timeout (server_config sv) of
        Some timeout \<Rightarrow> now - se_last_received se \<ge> timeout
      | None \<Rightarrow> False)"

text \<open>One wake of the idle timer of \<open>run\<close>: \<open>Ready\<close> ends the session, \<open>Pending\<close> sleeps the rest.\<close>

definition idle_poll :: "'u server \<Rightarrow> nat \<Rightarrow> 'u session \<Rightarrow> unit poll" where
  "idle_poll sv now se =
     (case idle_timeout (server_config sv) of
        None \<Rightarrow> Pending
      | Some timeout \<Rightarrow>
          (let remaining = timeout - (now - se_last_received se) in
           if remaining = 0 then Ready () else Pending))"

text \<open>
  Leaving the loop drops the session: its tasks with their slots, and its end of the queue.
\<close>

definition close_session :: "'u session \<Rightarrow> 'u srv \<Rightarrow> 'u session \<times> 'u srv" where
  "close_session se s =
     (se\<lparr>se_tasks := [], se_pc := Ended\<rparr>,
      let s = fold (\<lambda>t. srv_release (tk_slot t)) (se_tasks se) s; w = srv_world s in
      s\<lparr>srv_world := w\<lparr>chans := (chans w)(se_rx se := receiver_drop (chans w (se_rx se)))\<rparr>\<rparr>)"

definition send_message :: "(unit, stream_error) result \<Rightarrow> wire_message \<Rightarrow> 'u session \<Rightarrow> 'u session \<times> bool" where
  "send_message outcome msg se =
     (case outcome of
        Ok _ \<Rightarrow> (se\<lparr>se_wire := se_wire se @ [msg]\<rparr>, True)
      | Err StreamClosed \<Rightarrow> (se, False)
      | Err WriteBufferFull \<Rightarrow> (se, False)
      | Err (Protocol _) \<Rightarrow> (se, False)
      | Err (StreamOther _) \<Rightarrow> (se, False))"

text \<open>
  What one step of the loop meets: the time, the transport's answer to a send, what its receive
  future yields, and a handler future that completes, with its running time and whether its timeout
  struck.
\<close>

record tick =
  ti_now :: nat
  ti_sent :: "(unit, stream_error) result"
  ti_inbound :: "(wire_message, stream_error) result option poll"
  ti_done :: "(nat \<times> nat \<times> bool) poll"

definition task_ready :: "'u server \<Rightarrow> 'u session \<Rightarrow> nat \<times> nat \<times> bool \<Rightarrow> bool" where
  "task_ready sv se d \<longleftrightarrow>
     (case d of (i, elapsed, expired) \<Rightarrow>
        i < length (se_tasks se) \<and>
        (if expired then request_timeout (server_config sv) \<noteq> None else tk_phase (se_tasks se ! i) = Completed))"

definition handler_arm :: "'u server \<Rightarrow> 'u session \<Rightarrow> tick \<Rightarrow> (nat \<times> nat \<times> bool) poll option" where
  "handler_arm sv se ti =
     (if se_tasks se = [] then None
      else Some (case ti_done ti of
             Ready d \<Rightarrow> if task_ready sv se d then Ready d else Pending
           | Pending \<Rightarrow> Pending))"

definition remove_nth :: "nat \<Rightarrow> 'a list \<Rightarrow> 'a list" where
  "remove_nth i xs = take i xs @ drop (i + 1) xs"

definition set_chan :: "nat \<Rightarrow> wire_message inner \<Rightarrow> 'u srv \<Rightarrow> 'u srv" where
  "set_chan q c s = s\<lparr>srv_world := (srv_world s)\<lparr>chans := (chans (srv_world s))(q := c)\<rparr>\<rparr>"

text \<open>A frame leaves through the transport; a header-only server sends one and is done.\<close>

definition push_frame ::
  "'u server \<Rightarrow> tick \<Rightarrow> wire_message \<Rightarrow> loop_pc \<Rightarrow> 'u session \<Rightarrow> 'u srv \<Rightarrow> 'u session \<times> 'u srv" where
  "push_frame sv ti msg next se s =
     (case send_message (ti_sent ti) msg se of
        (se, ok) \<Rightarrow>
          if \<not> ok then close_session se s
          else if header_only (server_config sv) then close_session se s
          else (se\<lparr>se_pc := next\<rparr>, s))"

definition on_inbound ::
  "'u server \<Rightarrow> nat \<Rightarrow> (wire_message, stream_error) result option \<Rightarrow> 'u session \<Rightarrow> 'u srv \<Rightarrow> 'u session \<times> 'u srv" where
  "on_inbound sv now inb se s =
     (case inb of
        None \<Rightarrow> close_session se s
      | Some (Err _) \<Rightarrow> close_session se s
      | Some (Ok msg) \<Rightarrow>
          (let se = se\<lparr>se_last_received := now\<rparr> in
           case handle_message sv (conns (srv_world s) (se_conn se)) msg s of
             (s, DClose) \<Rightarrow> close_session se s
           | (s, DKeep) \<Rightarrow> (se\<lparr>se_pc := LoopTop\<rparr>, s)
           | (s, DTask t) \<Rightarrow> (se\<lparr>se_tasks := se_tasks se @ [t], se_pc := LoopTop\<rparr>, s)))"

definition select_step :: "'u server \<Rightarrow> tick \<Rightarrow> 'u session \<Rightarrow> 'u srv \<Rightarrow> 'u session \<times> 'u srv" where
  "select_step sv ti se s =
     (let handler = handler_arm sv se ti;
          (c, outbound) = recv_poll (chans (srv_world s) (se_rx se)) (se_waker se);
          end_flag = (if ends (srv_world s) (se_end se) then Ready () else Pending) in
      case priority4 handler outbound (ti_inbound ti) end_flag of
        Pending \<Rightarrow> (se, set_chan (se_rx se) c s)
      | Ready (ArmHandler (i, elapsed, expired)) \<Rightarrow>
          (se\<lparr>se_tasks := remove_nth i (se_tasks se), se_pc := LoopTop\<rparr>,
           finish_task sv elapsed expired (se_tasks se ! i) s)
      | Ready (ArmOutbound msg) \<Rightarrow>
          (let s = set_chan (se_rx se) c s in
           case classify_outbound msg of
             OutFrame msg \<Rightarrow> push_frame sv ti msg LoopTop se s
           | OutClosed \<Rightarrow> close_session se s)
      | Ready (ArmInbound inb) \<Rightarrow> on_inbound sv (ti_now ti) inb se (set_chan (se_rx se) c s)
      | Ready (ArmEnd _) \<Rightarrow> close_session se (set_chan (se_rx se) c s))"

definition loop_step :: "'u server \<Rightarrow> tick \<Rightarrow> 'u session \<Rightarrow> 'u srv \<Rightarrow> 'u session \<times> 'u srv" where
  "loop_step sv ti se s =
     (case se_pc se of
        LoopTop \<Rightarrow> if idle_expired sv (ti_now ti) se then close_session se s else (se\<lparr>se_pc := Drain\<rparr>, s)
      | Drain \<Rightarrow>
          (case try_recv (chans (srv_world s) (se_rx se)) of
             (c, Ok msg) \<Rightarrow>
               (let s = set_chan (se_rx se) c s in
                if idle_expired sv (ti_now ti) se then close_session se s else push_frame sv ti msg Drain se s)
           | (c, Err _) \<Rightarrow> (se\<lparr>se_pc := AfterDrain\<rparr>, s))
      | AfterDrain \<Rightarrow>
          if ends (srv_world s) (se_end se) then close_session se s else (se\<lparr>se_pc := Select\<rparr>, s)
      | Select \<Rightarrow> select_step sv ti se s
      | Ended \<Rightarrow> (se, s))"

text \<open>
  A session among everything else: its own loop, the polls of its tasks (only while it waits in
  \<open>select\<close>), the idle timer, and whatever the other tasks of the process do to the shared store and
  the application's state.
\<close>

datatype 'u event = Tick tick | PollTask nat | IdleTimer nat | Others "world \<Rightarrow> world" 'u

definition session_step :: "'u server \<Rightarrow> 'u event \<Rightarrow> 'u session \<times> 'u srv \<Rightarrow> 'u session \<times> 'u srv" where
  "session_step sv ev = (\<lambda>(se, s).
     case ev of
       Tick ti \<Rightarrow> loop_step sv ti se s
     | PollTask i \<Rightarrow>
         if se_pc se = Select \<and> i < length (se_tasks se)
         then (case task_step sv (se_tasks se ! i) s of (t, s) \<Rightarrow> (se\<lparr>se_tasks := (se_tasks se)[i := t]\<rparr>, s))
         else (se, s)
     | IdleTimer now \<Rightarrow>
         if se_pc se \<noteq> Ended \<and> idle_poll sv now se = Ready () then close_session se s else (se, s)
     | Others f u \<Rightarrow> (se, s\<lparr>srv_world := f (srv_world s), srv_app := u\<rparr>))"

definition session_run :: "'u server \<Rightarrow> 'u event list \<Rightarrow> 'u session \<times> 'u srv \<Rightarrow> 'u session \<times> 'u srv" where
  "session_run sv evs = fold (session_step sv) evs"

end
