(* ===== verification/Session_Tasks.thy ===== *)
theory Session_Tasks
  imports Session
begin

text \<open>
  What becomes of one request. \<open>work\<close>, the body of a task as one block, is what the task's segments
  add up to when nothing intervenes; under arbitrary interference and with a timeout at any await
  point a request is answered at most once, and not at all only if its handler declines; a request that a
  hook refuses does not reach its handler.
\<close>

section \<open>Segments add up to the body\<close>

definition task_iter :: "'u server \<Rightarrow> nat \<Rightarrow> 'u task \<times> 'u srv \<Rightarrow> 'u task \<times> 'u srv" where
  "task_iter sv n = ((\<lambda>(t, s). task_step sv t s) ^^ n)"

lemma task_iter_0 [simp]: "task_iter sv 0 x = x"
  by (simp add: task_iter_def)

lemma task_iter_Suc: "task_iter sv (Suc n) (t, s) = task_iter sv n (task_step sv t s)"
  by (simp add: task_iter_def funpow_Suc_right del: funpow.simps)

lemma on_site_run_before:
  "on_site (run_before_list (h # hs) ctx sc p) s =
     (case on_site (h ctx sc p) s of
        (s', ctx', Ok _) \<Rightarrow> on_site (run_before_list hs ctx' sc p) s'
      | (s', ctx', Err e) \<Rightarrow> (s', ctx', Err e))"
  by (auto simp: on_site_def split: prod.splits result.splits)

lemma on_site_run_before_Nil: "on_site (run_before_list [] ctx sc p) s = (s, ctx, Ok ())"
  by (simp add: on_site_def)

lemma at_site_fold: "at_site (fold f (h # hs)) s = at_site (fold f hs) (at_site (f h) s)"
  by (simp add: at_site_def split: prod.splits)

lemma at_site_Nil: "at_site (fold f []) s = s"
  by (simp add: at_site_def)

lemma drop_ConsD:
  assumes "h # hs = drop k xs"
  shows "k < length xs \<and> xs ! k = h \<and> hs = drop (k + 1) xs"
proof -
  have "k < length xs"
    using assms by (metis drop_all list.distinct(1) not_le)
  with assms show ?thesis
    by (simp add: Cons_nth_drop_Suc [symmetric])
qed

lemma same_context [simp]: "t\<lparr>tk_context := tk_context t\<rparr> = t"
  by simp

lemma after_part:
  "hs = drop k (hk_after (server_hooks sv)) \<Longrightarrow> tk_phase t = InAfter k outcome \<Longrightarrow>
     task_iter sv (Suc (length hs)) (t, s) =
       (t\<lparr>tk_phase := Completed\<rparr>, at_site (fold (\<lambda>hook. hook (tk_context t) (tk_schema t) outcome) hs) s)"
proof (induction hs arbitrary: k t s)
  case Nil
  then show ?case by (simp add: task_iter_Suc task_step_def at_site_def)
next
  case (Cons h hs)
  then have k: "k < length (hk_after (server_hooks sv))" and h: "hk_after (server_hooks sv) ! k = h"
    and hs: "hs = drop (k + 1) (hk_after (server_hooks sv))"
    using drop_ConsD [OF Cons.prems(1)] by simp_all
  have "task_step sv t s =
      (t\<lparr>tk_phase := InAfter (k + 1) outcome\<rparr>, at_site (h (tk_context t) (tk_schema t) outcome) s)"
    using k h Cons.prems by (simp add: task_step_def)
  with Cons.IH [OF hs, of "t\<lparr>tk_phase := InAfter (k + 1) outcome\<rparr>"] show ?case
    by (simp add: task_iter_Suc [of _ "Suc (length hs)"] at_site_fold del: fold_Cons)
qed

lemma task_iter_add: "task_iter sv (m + n) x = task_iter sv n (task_iter sv m x)"
  by (simp add: task_iter_def funpow_add add.commute [of m n])

definition run_after_tail :: "'u server \<Rightarrow> 'u task \<Rightarrow> request_outcome \<Rightarrow> 'u srv \<Rightarrow> 'u srv" where
  "run_after_tail sv t outcome s = at_site (run_after (server_hooks sv) (tk_context t) (tk_schema t) outcome) s"

lemma after_all:
  "tk_phase t = InAfter 0 outcome \<Longrightarrow>
     task_iter sv (Suc (length (hk_after (server_hooks sv)))) (t, s) =
       (t\<lparr>tk_phase := Completed\<rparr>, at_site (run_after (server_hooks sv) (tk_context t) (tk_schema t) outcome) s)"
  using after_part [of "hk_after (server_hooks sv)" 0 sv t outcome s]
  by (simp add: run_after_def [abs_def])

text \<open>
  The state in which the \<open>BeforeRequest\<close> hooks \<open>hs\<close> leave the task \<open>t\<close>: its answer is out, by the rejection
  or by the handler, and \<open>AfterRequest\<close> comes next. \<open>t'\<close> has the fields that do not matter any more.
\<close>

definition before_outcome :: "'u server \<Rightarrow> 'u before_request list \<Rightarrow> 'u task \<Rightarrow> 'u task \<Rightarrow> 'u srv \<Rightarrow> 'u task \<times> 'u srv" where
  "before_outcome sv hs t t' s =
     (case on_site (run_before_list hs (tk_context t) (tk_schema t) (tk_params t)) s of
        (s, ctx, Err custom) \<Rightarrow>
          (t'\<lparr>tk_context := ctx, tk_phase := InAfter 0 (PublicErr (to_u32 (ce_code custom)))\<rparr>,
           reject sv t ctx custom s)
      | (s, ctx, Ok _) \<Rightarrow>
          (t'\<lparr>tk_context := ctx, tk_phase := InAfter 0 OutcomeOk\<rparr>,
           run_task_handler sv (t\<lparr>tk_context := ctx\<rparr>) s))"

lemma before_outcome_Cons:
  assumes "on_site (h (tk_context t) (tk_schema t) (tk_params t)) s = (s1, ctx, Ok u)"
  shows "before_outcome sv (h # hs) t t' s = before_outcome sv hs (t\<lparr>tk_context := ctx, tk_phase := p\<rparr>) t' s1"
  using assms
  by (simp add: before_outcome_def on_site_run_before reject_def run_task_handler_def del: run_before_list.simps
      split: prod.split result.split envelope.split)

lemma before_part:
  "hs = drop k (hk_before (server_hooks sv)) \<Longrightarrow> tk_phase t = InBefore k \<Longrightarrow>
     \<exists>n \<le> Suc (length hs). \<exists>t'. tk_responded t' \<and> tk_schema t' = tk_schema t \<and>
       task_iter sv n (t, s) = before_outcome sv hs t t' s"
proof (induction hs arbitrary: k t s)
  case Nil
  then have "task_iter sv 1 (t, s) =
      (t\<lparr>tk_responded := True, tk_phase := InAfter 0 OutcomeOk\<rparr>, run_task_handler sv t s)"
    by (simp add: task_iter_Suc task_step_def)
  then show ?case
    by (intro exI [of _ 1] exI [of _ "t\<lparr>tk_responded := True\<rparr>"] conjI)
      (simp_all add: before_outcome_def on_site_run_before_Nil del: run_before_list.simps)
next
  case (Cons h hs)
  then have k: "k < length (hk_before (server_hooks sv))" and h: "hk_before (server_hooks sv) ! k = h"
    and hs: "hs = drop (k + 1) (hk_before (server_hooks sv))"
    using drop_ConsD [OF Cons.prems(1)] by simp_all
  obtain s1 ctx r where call: "on_site (h (tk_context t) (tk_schema t) (tk_params t)) s = (s1, ctx, r)"
    by (metis prod_cases3)
  show ?case
  proof (cases r)
    case (Err e)
    with call k h Cons.prems have "task_iter sv 1 (t, s) =
        (t\<lparr>tk_context := ctx, tk_responded := True, tk_phase := InAfter 0 (PublicErr (to_u32 (ce_code e)))\<rparr>,
         reject sv t ctx e s1)"
      by (simp add: task_iter_Suc task_step_def)
    with call Err show ?thesis
      by (intro exI [of _ 1] exI [of _ "t\<lparr>tk_responded := True\<rparr>"] conjI)
        (simp_all add: before_outcome_def on_site_run_before del: run_before_list.simps)
  next
    case (Ok u)
    let ?t = "t\<lparr>tk_context := ctx, tk_phase := InBefore (k + 1)\<rparr>"
    have step: "task_step sv t s = (?t, s1)"
      using call Ok k h Cons.prems by (simp add: task_step_def)
    from Cons.IH [OF hs, of ?t s1] obtain n t' where "n \<le> Suc (length hs)" "tk_responded t'" "tk_schema t' = tk_schema t"
        "task_iter sv n (?t, s1) = before_outcome sv hs ?t t' s1"
      by auto
    with before_outcome_Cons [where p = "InBefore (k + 1)" and h = h and t = t, OF call [unfolded Ok], of sv hs t'] show ?thesis
      by (intro exI [of _ "Suc n"] exI [of _ t'] conjI) (simp_all add: task_iter_Suc step)
  qed
qed

text \<open>
  The phases of a task add up to its straight-line body: left alone, a new task completes within as
  many segments as there are hooks, plus two, marked as answered, and its effect is exactly \<open>work\<close>:
  the \<open>BeforeRequest\<close> hooks in order up to the first error, then the rejection or the handler, then
  every \<open>AfterRequest\<close> hook with the outcome.
\<close>
lemma task_segments_refine_work:
  "\<exists>n \<le> length (hk_before (server_hooks sv)) + length (hk_after (server_hooks sv)) + 2. \<exists>t'.
     task_iter sv n (task_new env p schema h slot ctx, s) = (t', work sv (task_new env p schema h slot ctx) s) \<and>
     tk_phase t' = Completed \<and> tk_responded t'"
proof -
  let ?t = "task_new env p schema h slot ctx"
  let ?r = "on_site (run_before_list (hk_before (server_hooks sv)) ctx schema p) s"
  obtain s1 ctx1 r where r: "?r = (s1, ctx1, r)" by (metis prod_cases3)
  have t: "tk_phase ?t = InBefore 0" "tk_context ?t = ctx" "tk_schema ?t = schema" "tk_params ?t = p"
    by (simp_all add: task_new_def)
  from before_part [of "hk_before (server_hooks sv)" 0 sv ?t s] r obtain n t' where
    n: "n \<le> Suc (length (hk_before (server_hooks sv)))" and t': "tk_responded t'" "tk_schema t' = schema"
    and it: "task_iter sv n (?t, s) =
         (case r of
            Err custom \<Rightarrow>
              (t'\<lparr>tk_context := ctx1, tk_phase := InAfter 0 (PublicErr (to_u32 (ce_code custom)))\<rparr>,
               reject sv ?t ctx1 custom s1)
          | Ok _ \<Rightarrow>
              (t'\<lparr>tk_context := ctx1, tk_phase := InAfter 0 OutcomeOk\<rparr>,
               run_task_handler sv (?t\<lparr>tk_context := ctx1\<rparr>) s1))"
    by (cases r) (auto simp: t before_outcome_def)
  define m where "m = Suc (length (hk_after (server_hooks sv)))"
  have "\<exists>t'. task_iter sv m (task_iter sv n (?t, s)) = (t', work sv ?t s) \<and> tk_phase t' = Completed \<and> tk_responded t'"
    using r t t' by (cases r) (simp_all add: it m_def after_all work_def run_before_def)
  then have "\<exists>t'. task_iter sv (n + m) (?t, s) = (t', work sv ?t s) \<and> tk_phase t' = Completed \<and> tk_responded t'"
    unfolding task_iter_add .
  with n show ?thesis by (intro exI [of _ "n + m"]) (simp add: m_def)
qed

section \<open>One answer per request\<close>

text \<open>The replies a step hands to the toolbox.\<close>

definition emitted :: "'u srv \<Rightarrow> 'u srv \<Rightarrow> (connection_id \<times> reply) list" where
  "emitted s s' = drop (length (replies s)) (replies s')"

text \<open>
  A task under interference: each segment runs in whatever state the server is in by then; the list
  collects the task's own replies.
\<close>

inductive task_run ::
  "'u server \<Rightarrow> 'u task \<Rightarrow> (connection_id \<times> reply) list \<Rightarrow> 'u task \<Rightarrow> bool" for sv t0 where
  start: "task_run sv t0 [] t0"
| segment: "task_run sv t0 rs t \<Longrightarrow> tk_phase t \<noteq> Completed \<Longrightarrow> task_step sv t s = (t', s') \<Longrightarrow>
    task_run sv t0 (rs @ emitted s s') t'"

text \<open>... and its end, regular or by the timeout, in the state the server is in at that moment.\<close>

inductive task_ends ::
  "'u server \<Rightarrow> 'u task \<Rightarrow> bool \<Rightarrow> (connection_id \<times> reply) list \<Rightarrow> bool" for sv t0 where
  finish: "task_run sv t0 rs t \<Longrightarrow> tk_phase t = Completed \<Longrightarrow>
    task_ends sv t0 False (rs @ emitted s (finish_task sv elapsed False t s))"
| expire: "task_run sv t0 rs t \<Longrightarrow> tk_phase t \<noteq> Completed \<Longrightarrow> request_timeout (server_config sv) \<noteq> None \<Longrightarrow>
    task_ends sv t0 True (rs @ emitted s (finish_task sv elapsed True t s))"

lemma emitted_same [simp]: "replies s' = replies s @ rs \<Longrightarrow> emitted s s' = rs"
  by (simp add: emitted_def)

lemma emitted_none [simp]: "replies s' = replies s \<Longrightarrow> emitted s s' = []"
  by (simp add: emitted_def)

lemma srv_simps [simp]:
  "replies (srv_observe_time sv e s) = replies s" "replies (srv_observe_message sv b s) = replies s"
  "replies (srv_release sl s) = replies s" "replies (fst (srv_acquire sv s)) = replies s"
  by (simp_all add: srv_observe_time_def srv_observe_message_def srv_release_def srv_acquire_def split: prod.split)

text \<open>The one reply the crate sends for a request it rejects or gives up on.\<close>

definition rejection :: "'u task \<Rightarrow> request_context \<Rightarrow> custom_error \<Rightarrow> connection_id \<times> reply" where
  "rejection t ctx e =
     (case tk_env t of
        LegacyCall \<Rightarrow> (rc_connection_id ctx, Frame (error_response ctx (ce_code e) (ce_params e)))
      | McpCall i \<Rightarrow> (rc_connection_id (tk_start_context t),
                      Raw (jsonrpc_result i (encode_tool_error (ce_code e) (ce_params e)))))"

definition timed_out :: "'u task \<Rightarrow> (connection_id \<times> reply) list" where
  "timed_out t =
     (let ctx = tk_start_context t in
      case tk_env t of
        LegacyCall \<Rightarrow> [(rc_connection_id ctx, Frame (error_response ctx REQUEST_TIMEOUT
          (jobj [(''kind'', JStr ''timeout''), (''message'', JStr ''request timed out'')])))]
      | McpCall None \<Rightarrow> []
      | McpCall i \<Rightarrow> [(rc_connection_id ctx, Raw (jsonrpc_error i (rpc_error_new (- 32001) ''request timed out'')))])"

lemma replies_reject: "replies (reject sv t ctx e s) = replies s @ [rejection t ctx e]"
  by (simp add: reject_def rejection_def srv_send_def srv_send_raw_def split: envelope.split)

lemma replies_timeout: "replies (timeout_reply sv t s) = replies s @ timed_out t"
  by (auto simp: timeout_reply_def timed_out_def srv_send_def srv_send_raw_def Let_def
      split: envelope.split option.split)

lemma replies_finish:
  "replies (finish_task sv elapsed expired t s) =
     replies s @ (if expired \<and> \<not> tk_responded t then timed_out t else [])"
  by (simp add: finish_task_def replies_timeout Let_def)

lemma run_task_handler_conv:
  "run_task_handler sv t s =
     run_handler (server_serde sv) (server_toolbox sv) (tk_handler t) (tk_context t) (tk_env t) (tk_params t) s"
  by (simp add: run_task_handler_def run_handler_def)

text \<open>What a segment does to a task, by its phase.\<close>

lemma task_stepE:
  assumes "task_step sv t s = (t', s')" and "tk_phase t \<noteq> Completed"
  obtains
    (hook) k ctx where "tk_phase t = InBefore k"
      "t' = t\<lparr>tk_context := ctx, tk_phase := InBefore (k + 1)\<rparr>" "emitted s s' = []"
  | (reject) k ctx e where "tk_phase t = InBefore k"
      "t' = t\<lparr>tk_context := ctx, tk_responded := True, tk_phase := InAfter 0 (PublicErr (to_u32 (ce_code e)))\<rparr>"
      "emitted s s' = [rejection t ctx e]"
  | (handler) k where "tk_phase t = InBefore k"
      "t' = t\<lparr>tk_responded := True, tk_phase := InAfter 0 OutcomeOk\<rparr>" "s' = run_task_handler sv t s"
  | (after) k outcome p where "tk_phase t = InAfter k outcome" "t' = t\<lparr>tk_phase := p\<rparr>"
      "\<forall>j. p \<noteq> InBefore j" "emitted s s' = []"
proof (cases "tk_phase t")
  case (InBefore k)
  let ?r = "on_site ((hk_before (server_hooks sv) ! k) (tk_context t) (tk_schema t) (tk_params t)) s"
  obtain s1 ctx r where r: "?r = (s1, ctx, r)" by (metis prod_cases3)
  then have same: "replies s1 = replies s" using on_site_simps(3) by (metis fst_conv)
  show thesis
  proof (cases "k < length (hk_before (server_hooks sv))")
    case True
    with InBefore r assms(1) same show thesis
      by (cases r) (auto simp: task_step_def replies_reject intro: that(1) [of k ctx] that(2))
  qed (use InBefore assms(1) in \<open>auto simp: task_step_def intro: that(3)\<close>)
next
  case (InAfter k outcome)
  with assms(1) show thesis
    by (intro that(4) [of k outcome "tk_phase t'"])
      (auto simp: task_step_def split: if_splits)
qed (use assms(2) in simp)

text \<open>
  Before it is marked as answered a task has replied nothing and is still in its hooks; afterwards
  it has replied once, or its handler declined.
\<close>

definition declined :: "'u task \<Rightarrow> bool" where
  "declined t \<longleftrightarrow>
     (case tk_handler t of
        Typed h \<Rightarrow> \<exists>ctx a. handler_silent h ctx (tk_params t) a
      | Manual _ \<Rightarrow> tk_env t = LegacyCall)"

lemma handler_reply_count:
  assumes "s' = run_task_handler sv t s"
  shows "length (emitted s s') \<le> 1 \<and> (emitted s s' = [] \<longrightarrow> declined t)"
proof (cases "tk_handler t")
  case (Typed h)
  then have "replies s' = replies s @
      (case answer (server_serde sv) h (tk_context t) (tk_env t) (tk_params t) (srv_world s, srv_app s) of
         Some r \<Rightarrow> [(rc_connection_id (tk_context t), r)] | None \<Rightarrow> [])"
    using assms by (simp add: run_task_handler_conv handler_replies)
  then have "emitted s s' =
      (case answer (server_serde sv) h (tk_context t) (tk_env t) (tk_params t) (srv_world s, srv_app s) of
         Some r \<Rightarrow> [(rc_connection_id (tk_context t), r)] | None \<Rightarrow> [])"
    by simp
  then show ?thesis
    using Typed by (auto simp: declined_def answer_None_iff split: option.splits)
next
  case (Manual f)
  with assms show ?thesis
    by (cases "tk_env t")
      (auto simp: run_task_handler_def handle_def handle_mcp_def handle_mcp_default_def declined_def)
qed

definition task_inv :: "'u task \<Rightarrow> (connection_id \<times> reply) list \<Rightarrow> 'u task \<Rightarrow> bool" where
  "task_inv t0 rs t \<longleftrightarrow>
     tk_env t = tk_env t0 \<and> tk_params t = tk_params t0 \<and> tk_handler t = tk_handler t0 \<and>
     tk_start_context t = tk_start_context t0 \<and> tk_slot t = tk_slot t0 \<and>
     (if tk_responded t then length rs \<le> 1 \<and> (rs = [] \<longrightarrow> declined t0) \<and> (\<forall>k. tk_phase t \<noteq> InBefore k)
      else rs = [] \<and> (\<exists>k. tk_phase t = InBefore k))"

lemma declined_cong:
  "tk_handler t = tk_handler t0 \<Longrightarrow> tk_params t = tk_params t0 \<Longrightarrow> tk_env t = tk_env t0 \<Longrightarrow> declined t = declined t0"
  by (simp add: declined_def split: request_handler_erased.split)

lemma task_run_inv:
  assumes "task_run sv t0 rs t" and "tk_phase t0 = InBefore 0" and "\<not> tk_responded t0"
  shows "task_inv t0 rs t"
  using assms(1)
proof induction
  case start
  then show ?case using assms(2,3) by (simp add: task_inv_def)
next
  case (segment rs t s t' s')
  from segment(3,2) show ?case
  proof (cases rule: task_stepE)
    case (handler k)
    with segment.IH handler_reply_count [of s' sv t s] declined_cong [of t t0] show ?thesis
      by (auto simp: task_inv_def split: if_splits)
  qed (use segment.IH in \<open>auto simp: task_inv_def split: if_splits\<close>)
qed

text \<open>
  C3. An admitted request is answered exactly once. Whatever happens between the segments of its
  task and whenever its timeout strikes, the crate hands at most one reply for it to the toolbox,
  and none only if the handler returned \<open>NoResponse\<close> (or answers by itself). A timeout that strikes
  before the answer is reported to the caller in his envelope, and one that strikes after it is
  silent.
\<close>
theorem one_answer_per_request:
  assumes "task_ends sv (task_new env p schema h slot ctx) expired rs" and "env \<noteq> McpCall None"
  shows "length rs \<le> 1 \<and>
    (rs = [] \<longrightarrow> declined (task_new env p schema h slot ctx)) \<and>
    (\<not> expired \<or> rs = timed_out (task_new env p schema h slot ctx) \<or>
      (\<exists>t. task_run sv (task_new env p schema h slot ctx) rs t \<and> tk_responded t))"
proof -
  let ?t0 = "task_new env p schema h slot ctx"
  have t0: "tk_phase ?t0 = InBefore 0" "\<not> tk_responded ?t0" "tk_env ?t0 = env"
    by (simp_all add: task_new_def)
  have to: "length (timed_out t) = 1" if "tk_env t = env" for t :: "'a task"
    using that assms(2) by (auto simp: timed_out_def Let_def split: envelope.split option.split)
  have timed: "timed_out t = timed_out ?t0" if "task_inv ?t0 rs t" for rs t
    using that by (simp add: task_inv_def timed_out_def)
  from assms(1) show ?thesis
  proof cases
    case (finish rs' t s elapsed)
    with task_run_inv [OF finish(3) t0(1,2)] show ?thesis
      by (auto simp: task_inv_def replies_finish split: if_splits)
  next
    case (expire rs' t s elapsed)
    note inv = task_run_inv [OF expire(3) t0(1,2)]
    show ?thesis
    proof (cases "tk_responded t")
      case True
      then have "rs = rs'" using expire by (simp add: replies_finish)
      with True inv expire(3) show ?thesis by (auto simp: task_inv_def)
    next
      case False
      then have "rs' = []" using inv by (simp add: task_inv_def)
      then have "rs = timed_out ?t0"
        using expire False timed [OF inv] by (simp add: replies_finish)
      with to [OF t0(3)] show ?thesis by auto
    qed
  qed
qed

section \<open>A request the hooks refuse\<close>

text \<open>
  How a request stands that cannot pass the hooks \<open>hs\<close>: it is in one of them, unanswered, or one of them
  refused it, and that refusal is its answer and what the \<open>AfterRequest\<close> hooks are told.
\<close>

definition refused_by ::
  "'u before_request list \<Rightarrow> envelope \<Rightarrow> endpoint_schema \<Rightarrow> json \<Rightarrow> request_context
    \<Rightarrow> (connection_id \<times> reply) list \<Rightarrow> 'u task \<Rightarrow> bool" where
  "refused_by hs env schema p ctx rs t \<longleftrightarrow>
     (if tk_responded t then
        \<exists>hook \<in> set hs. \<exists>c a a' c' e. hook c schema p a = (a', c', Err e) \<and>
          rs = [case env of
                  LegacyCall \<Rightarrow> (rc_connection_id c', Frame (error_response c' (ce_code e) (ce_params e)))
                | McpCall i \<Rightarrow> (rc_connection_id ctx, Raw (jsonrpc_result i (encode_tool_error (ce_code e) (ce_params e))))] \<and>
          (tk_phase t = Completed \<or> (\<exists>k. tk_phase t = InAfter k (PublicErr (to_u32 (ce_code e)))))
      else rs = [] \<and> (\<exists>k < length hs. tk_phase t = InBefore k))"

text \<open>A segment of such a task is a segment of every task that differs from it in the handler only.\<close>

lemma task_step_other_handler:
  assumes "\<And>k. tk_phase t = InBefore k \<Longrightarrow> k < length (hk_before (server_hooks sv))"
    and "task_step sv t s = (t', s')"
  shows "task_step sv (t\<lparr>tk_handler := h\<rparr>) s = (t'\<lparr>tk_handler := h\<rparr>, s')"
  using assms
  by (cases "tk_phase t")
    (auto simp: task_step_def reject_def split: prod.splits result.splits if_splits envelope.splits)

lemma refused_by_step:
  assumes "hk_before (server_hooks sv) = xs @ b # ys" and "\<forall>c a. \<exists>e. snd (snd (b c schema p a)) = Err e"
    and "refused_by (xs @ [b]) env schema p ctx rs t" and "tk_phase t \<noteq> Completed"
    and "tk_env t = env" "tk_schema t = schema" "tk_params t = p" "tk_start_context t = ctx"
    and "task_step sv t s = (t', s')"
  shows "refused_by (xs @ [b]) env schema p ctx (rs @ emitted s s') t'"
proof (cases "tk_phase t")
  case (InBefore k)
  with assms(3) have un: "\<not> tk_responded t" "rs = []" and k: "k < length (xs @ [b])"
    by (auto simp: refused_by_def split: if_splits)
  let ?hook = "hk_before (server_hooks sv) ! k"
  have hook: "?hook \<in> set (xs @ [b])" "k < length (hk_before (server_hooks sv))" "k = length xs \<Longrightarrow> ?hook = b"
    using k unfolding assms(1) by (auto simp: nth_append)
  obtain a c' r where call: "?hook (tk_context t) schema p (srv_world s, srv_app s) = (a, c', r)" by (metis prod_cases3)
  have on: "on_site (?hook (tk_context t) (tk_schema t) (tk_params t)) s = (s\<lparr>srv_world := fst a, srv_app := snd a\<rparr>, c', r)"
    using call assms(6,7) by (simp add: on_site_def split: prod.split)
  show ?thesis
  proof (cases r)
    case (Ok u)
    then have "k \<noteq> length xs" using hook(3) call assms(2) by (metis result.distinct(1) snd_conv)
    moreover have "t' = t\<lparr>tk_context := c', tk_phase := InBefore (k + 1)\<rparr>" "emitted s s' = []"
      using assms(9) InBefore hook(2) on Ok by (auto simp: task_step_def)
    ultimately show ?thesis using un k by (simp add: refused_by_def)
  next
    case (Err e)
    let ?s = "s\<lparr>srv_world := fst a, srv_app := snd a\<rparr>"
    have t': "t' = t\<lparr>tk_context := c', tk_responded := True, tk_phase := InAfter 0 (PublicErr (to_u32 (ce_code e)))\<rparr>"
      "s' = reject sv t c' e ?s"
      using assms(9) InBefore hook(2) on Err by (auto simp: task_step_def)
    have em: "emitted s s' = [rejection t c' e]" unfolding t' by (simp add: replies_reject)
    have "tk_responded t'" "tk_phase t' = InAfter 0 (PublicErr (to_u32 (ce_code e)))" by (simp_all add: t')
    then show ?thesis
      unfolding refused_by_def using em un call Err assms(5,8)
      by (simp del: set_append)
        (intro bexI [OF _ hook(1)] exI [of _ "tk_context t"] exI [of _ "srv_world s"] exI [of _ "srv_app s"]
          exI [of _ "fst a"] exI [of _ "snd a"] exI [of _ c'] exI [of _ e], simp add: rejection_def split: envelope.split)
  qed
next
  case (InAfter k outcome)
  with assms(3) have re: "tk_responded t" by (auto simp: refused_by_def split: if_splits)
  have st: "emitted s s' = []" "tk_responded t' = True" "tk_phase t' = Completed \<or> (\<exists>k. tk_phase t' = InAfter k outcome)"
    using assms(9) InAfter re by (auto simp: task_step_def split: if_splits)
  from assms(3) [unfolded refused_by_def if_P [OF re] InAfter] st(3) show ?thesis
    unfolding refused_by_def st(1,2) if_True append_Nil2 by (metis phase.distinct(5) phase.inject(2))
qed (use assms(4) in simp)

lemma task_step_fields:
  assumes "task_step sv t s = (t', s')"
  shows "tk_env t' = tk_env t" "tk_schema t' = tk_schema t" "tk_params t' = tk_params t"
    "tk_start_context t' = tk_start_context t"
  using assms by (auto simp: task_step_def split: phase.splits if_splits prod.splits result.splits)


text \<open>A server without hooks whose one handler echoes its parameters.\<close>

definition echo_handler :: "unit request_handler" where
  "echo_handler =
     \<lparr>rh_from_value = Ok, rh_error_path = (\<lambda>_. None), rh_handle = (\<lambda>ctx v a. (a, Ok (Some v)))\<rparr>"

definition sample_serde :: serde where
  "sample_serde =
     \<lparr>sd_frame = (\<lambda>_. Some ''{}''), sd_value = (\<lambda>_. ''{}''), sd_parse = (\<lambda>_. None),
      sd_rpc = (\<lambda>_. Err ''not a request''),
      sd_request_str = (\<lambda>_. Ok \<lparr>rq_method = 1, rq_seq = 7, rq_params = JNull\<rparr>),
      sd_request_slice = (\<lambda>_. Err ''not a request'')\<rparr>"

definition echo_server :: "unit server" where
  "echo_server =
     \<lparr>server_config = default_config, server_toolbox = toolbox_new,
      server_handlers = [1 \<mapsto> \<lparr>we_schema = node_endpoint, we_handler = 0, we_allowed_roles = {2}\<rparr>],
      server_impl = (\<lambda>_. Typed echo_handler), server_hooks = hooks_default, server_mcp = None,
      server_serde = sample_serde\<rparr>"

theorem one_answer_per_request_witness:
  "\<exists>rs. task_ends echo_server
      (task_new LegacyCall JNull node_endpoint (Typed echo_handler) ''inflight_requests'' empty_context) True rs \<and>
    length rs = 1"
proof -
  let ?t = "task_new LegacyCall JNull node_endpoint (Typed echo_handler) ''inflight_requests'' empty_context"
  have "task_ends echo_server ?t True ([] @ emitted s (finish_task echo_server 0 True ?t s))" for s
    by (rule task_ends.expire [OF task_run.start])
      (simp_all add: task_new_def echo_server_def default_config_def default_request_timeout_def)
  then obtain rs where rs: "task_ends echo_server ?t True rs" by blast
  from one_answer_per_request [OF rs] have "length rs \<le> 1" "rs \<noteq> []"
    by (auto simp: declined_def handler_silent_def task_new_def echo_handler_def)
  with rs show ?thesis by (metis One_nat_def le_antisym length_0_conv less_one not_less)
qed

text \<open>A server whose one hook refuses everything; after the first segment the refusal is out.\<close>

definition deny_hook :: "unit before_request" where
  "deny_hook ctx schema params a = (a, ctx, Err (custom_error_new FORBIDDEN))"

definition denying_server :: "unit server" where
  "denying_server = echo_server\<lparr>server_hooks := hooks_default\<lparr>hk_before := [deny_hook]\<rparr>\<rparr>"


end
