(* ===== verification/Session_Loop.thy ===== *)
theory Session_Loop
  imports Session_Tasks
begin

text \<open>
  The session as a whole: which inbound frames become tasks, what a session does to the server's
  limits, and how it ends. A run is any list of events, the session's own steps, the polls of its
  tasks, the idle timer and interference by the rest of the process.
\<close>

section \<open>Admission of a frame\<close>

text \<open>The MCP table was built from the registered endpoints, which are keyed by their code.\<close>

definition mcp_from_handlers :: "'u server \<Rightarrow> bool" where
  "mcp_from_handlers sv \<longleftrightarrow>
     (\<forall>st. server_mcp sv = Some st \<longrightarrow>
        (\<exists>cc eps reg n info. build cc eps reg n info = Ok st \<and>
           (\<forall>e \<in> set eps. server_handlers sv (ep_code (we_schema e)) = Some e)))"

text \<open>What a task may assume: it runs the endpoint the request names, for a caller in its roles.\<close>

definition admitted :: "'u server \<Rightarrow> ws_connection \<Rightarrow> 'u task \<Rightarrow> bool" where
  "admitted sv conn t \<longleftrightarrow>
     (\<exists>e. server_handlers sv (rc_method (tk_start_context t)) = Some e \<and>
        check_roles (get_roles conn) (we_allowed_roles e) \<and>
        (\<exists>env p ctx. env \<noteq> McpCall None \<and>
           t = task_new env p (we_schema e) (server_impl sv (we_handler e)) ''inflight_requests'' ctx \<and>
           rc_connection_id ctx = wc_connection_id conn \<and> rc_roles ctx = get_roles conn \<and>
           rc_user_id ctx = get_user_id conn))"

lemma check_roles_roles_allowed: "check_roles = roles_allowed"
  by (intro ext) (simp add: check_roles_def roles_allowed_def)

lemma route_ToolCall_conv:
  assumes "route st req roles = ToolCall i code args"
  shows "route_tool_call st req roles = ToolCall i code args"
proof (rule ccontr)
  assume "route_tool_call st req roles \<noteq> ToolCall i code args"
  with assms show False unfolding route_def Let_def by (metis mcp_action.distinct(1,5))
qed

lemma route_tool_callE:
  assumes "route_tool_call st req roles = ToolCall i code args"
  obtains name k where "ms_by_name st name = Some k" "i = jr_id req"
    "code = mt_method_code (ms_tools st ! k)" "roles_allowed roles (mt_allowed_roles (ms_tools st ! k))"
  using assms unfolding route_tool_call_def Let_def
  by (auto split: if_splits option.splits)

lemma route_ToolCall:
  assumes b: "build cc eps reg n info = Ok st" and r: "route st req roles = ToolCall i code args"
  shows "i = jr_id req \<and> (\<exists>e \<in> set eps. ep_code (we_schema e) = code \<and> roles_allowed roles (we_allowed_roles e))"
proof -
  let ?es = "sort_key (\<lambda>e. ep_code (we_schema e)) eps"
  have idx: "index_ok [] Map.empty" by (simp add: index_ok_def)
  from b obtain tools by_name where l: "build_loop cc reg n ?es [] Map.empty = Ok (tools, by_name)"
    and st: "ms_tools st = tools" "ms_by_name st = by_name"
    by (auto simp: build_def)
  from build_loop_ok [OF l idx] have ok: "index_ok tools by_name"
    and all: "list_all2 (\<lambda>e t. build_tool cc reg n e = Ok t) ?es tools" by auto
  from route_ToolCall_conv [OF r] obtain name k where k: "by_name name = Some k" and i: "i = jr_id req"
    and code: "code = mt_method_code (tools ! k)" and allowed: "roles_allowed roles (mt_allowed_roles (tools ! k))"
    by (elim route_tool_callE) (simp add: st)
  from k ok have len: "k < length tools" by (auto simp: index_ok_def)
  with list_all2_lengthD [OF all] have "?es ! k \<in> set ?es"
    by (intro nth_mem) simp
  then have mem: "?es ! k \<in> set eps" by simp
  have "build_tool cc reg n (?es ! k) = Ok (tools ! k)"
    using list_all2_nthD2 [OF all len] .
  from build_tool_fields [OF this] mem code allowed i show ?thesis by auto
qed

lemma srv_acquire_Some:
  assumes "srv_acquire sv s = (s', Some slot)"
  shows "slot = ''inflight_requests'' \<and> inflight (srv_limits s') = inflight (srv_limits s) + 1 \<and>
    \<not> over_cap (max_inflight_requests (server_config sv)) (inflight (srv_limits s')) \<and>
    replies s' = replies s \<and> srv_world s' = srv_world s \<and> srv_app s' = srv_app s"
  using assms acquire_counter_admitted
  by (fastforce simp: srv_acquire_def acquire_request_conv split: prod.splits if_splits)

lemma srv_acquire_None:
  assumes "srv_acquire sv s = (s', None)"
  shows "inflight (srv_limits s') = inflight (srv_limits s) \<and>
    replies s' = replies s \<and> srv_world s' = srv_world s \<and> srv_app s' = srv_app s"
  using assms acquire_counter_refused
  by (fastforce simp: srv_acquire_def acquire_request_conv split: prod.splits if_splits)

lemma inflight_observe [simp]:
  "inflight (srv_limits (srv_observe_message sv b s)) = inflight (srv_limits s)"
  "inflight (srv_limits (srv_observe_time sv e s)) = inflight (srv_limits s)"
  by (auto simp: srv_observe_message_def srv_observe_time_def observe_message_def observe_request_time_def
      split: option.split)

lemma srv_send_simps [simp]:
  "srv_limits (srv_send sv c r s) = srv_limits s" "replies (srv_send sv c r s) = replies s @ [(c, Frame r)]"
  "srv_limits (srv_send_raw sv c j s) = srv_limits s" "replies (srv_send_raw sv c j s) = replies s @ [(c, Raw j)]"
  by (simp_all add: srv_send_def srv_send_raw_def)

text \<open>How a frame is disposed of, in terms of its replies and its slot.\<close>

definition disposed :: "'u server \<Rightarrow> ws_connection \<Rightarrow> 'u srv \<Rightarrow> 'u srv \<Rightarrow> 'u task option \<Rightarrow> bool" where
  "disposed sv conn s s' d \<longleftrightarrow>
     (case d of
        Some t \<Rightarrow>
          replies s' = replies s \<and> admitted sv conn t \<and>
          inflight (srv_limits s') = inflight (srv_limits s) + 1 \<and>
          \<not> over_cap (max_inflight_requests (server_config sv)) (inflight (srv_limits s'))
      | None \<Rightarrow>
          (\<exists>r. replies s' = replies s @ [(wc_connection_id conn, r)]) \<and>
          inflight (srv_limits s') = inflight (srv_limits s))"

text \<open>A JSON-RPC frame that asks for no answer.\<close>

definition silent_rpc :: "(jsonrpc_request, json) result \<Rightarrow> bool" where
  "silent_rpc frame \<longleftrightarrow>
     (case frame of Ok req \<Rightarrow> is_notification req \<or> starts_with (jr_method req) ''notifications/'' | Err _ \<Rightarrow> False)"

lemma route_not_Ignore:
  "\<not> is_notification req \<Longrightarrow> \<not> starts_with (jr_method req) ''notifications/'' \<Longrightarrow> route st req roles \<noteq> Ignore"
  by (auto simp: route_def route_tool_call_def Let_def split: option.splits)

lemma route_notification:
  "starts_with (jr_method req) ''notifications/'' \<Longrightarrow> route st req roles = Ignore"
  by (auto simp: route_def starts_with_def Let_def)

lemma handle_mcp_tool_call_disposed:
  assumes "handle_mcp_frame sv conn mcp (Ok req) (from_conn conn) s = (s', d)"
    and "mcp_from_handlers sv" and "server_mcp sv = Some mcp"
    and "\<not> is_notification req" and "route mcp req (get_roles conn) = ToolCall i code args"
    and "\<not> silent_rpc (Ok req)"
  shows "disposed sv conn s s' d"
proof -
  let ?ctx = "from_conn conn\<lparr>rc_user_id := get_user_id conn, rc_roles := get_roles conn\<rparr>"
  have conn: "rc_connection_id (from_conn conn) = wc_connection_id conn" by (simp add: from_conn_def)
  from assms(2,3) obtain cc eps reg n info where b: "build cc eps reg n info = Ok mcp"
    and h: "\<forall>e \<in> set eps. server_handlers sv (ep_code (we_schema e)) = Some e"
    unfolding mcp_from_handlers_def by blast
  from route_ToolCall [OF b assms(5)] h assms(4) obtain e where i: "i \<noteq> None"
    and e: "server_handlers sv code = Some e" and allowed: "roles_allowed (get_roles conn) (we_allowed_roles e)"
    by (auto simp: is_notification_def)
  obtain s1 slot where a: "srv_acquire sv s = (s1, slot)" by force
  show ?thesis
  proof (cases slot)
    case None
    with a e i assms(1,4,5) conn have "d = None"
      "s' = srv_send_raw sv (wc_connection_id conn) (jsonrpc_error i (rpc_error_new (- 32000) ''server busy'')) s1"
      by (simp_all add: handle_mcp_frame_def Let_def)
    with assms(6) None a srv_acquire_None [of sv s s1] show ?thesis
      by (simp add: disposed_def)
  next
    case (Some sl)
    let ?t = "task_new (McpCall i) args (we_schema e) (server_impl sv (we_handler e)) sl
        (?ctx\<lparr>rc_method := code, rc_seq := seq_of_id i (rc_seq ?ctx)\<rparr>)"
    from Some a e i assms(6) assms(1,4,5) have d: "s' = s1" "d = Some ?t"
      by (simp_all add: handle_mcp_frame_def Let_def)
    from Some a srv_acquire_Some [of sv s s1 sl] have sl: "sl = ''inflight_requests''" by simp
    have "tk_start_context ?t = ?ctx\<lparr>rc_method := code, rc_seq := seq_of_id i (rc_seq ?ctx)\<rparr>"
      by (simp add: task_new_def)
    then have "admitted sv conn ?t"
      using e allowed i conn unfolding admitted_def check_roles_roles_allowed sl
      by (intro exI [of _ e] conjI exI [of _ "McpCall i"] exI [of _ args]
          exI [of _ "?ctx\<lparr>rc_method := code, rc_seq := seq_of_id i (rc_seq ?ctx)\<rparr>"]) simp_all
    with assms(6) d Some a srv_acquire_Some [of sv s s1 sl] show ?thesis
      by (auto simp: disposed_def)
  qed
qed

lemma handle_mcp_frame_disposed:
  assumes "handle_mcp_frame sv conn mcp frame (from_conn conn) s = (s', d)"
    and "mcp_from_handlers sv" and "server_mcp sv = Some mcp"
  shows "if silent_rpc frame then s' = s \<and> d = None else disposed sv conn s s' d"
proof (cases frame)
  case (Err e)
  with assms(1) show ?thesis
    by (auto simp: handle_mcp_frame_def silent_rpc_def disposed_def from_conn_def Let_def)
next
  case (Ok req)
  have conn: "rc_connection_id (from_conn conn) = wc_connection_id conn" by (simp add: from_conn_def)
  show ?thesis
  proof (cases "is_notification req \<or> starts_with (jr_method req) ''notifications/''")
    case True
    have "route mcp req (get_roles conn) = Ignore" if "\<not> is_notification req"
      using True that by (simp add: route_notification)
    with Ok assms(1) have "s' = s \<and> d = None"
      by (cases "is_notification req") (simp_all add: handle_mcp_frame_def Let_def)
    with True Ok show ?thesis by (simp add: silent_rpc_def)
  next
    case False
    then have ns: "\<not> silent_rpc frame" by (simp add: Ok silent_rpc_def)
    show ?thesis
    proof (cases "route mcp req (get_roles conn)")
      case (Respond j)
      with ns False Ok assms(1) conn show ?thesis
        by (auto simp: handle_mcp_frame_def disposed_def Let_def)
    next
      case Ignore
      with False route_not_Ignore show ?thesis by blast
    next
      case (ToolCall i code args)
      with handle_mcp_tool_call_disposed [OF _ assms(2,3), of conn req s s' d i code args] assms(1) False Ok ns
      show ?thesis by simp
    qed
  qed
qed

fun task_of :: "'u dispatch \<Rightarrow> 'u task option" where
  "task_of (DTask t) = Some t"
| "task_of _ = None"

lemma handle_request_disposed:
  assumes "handle_request sv conn (from_conn conn) req s = (s', d)"
  shows "d \<noteq> DClose \<and> disposed sv conn s s' (task_of d)"
proof -
  let ?ctx = "from_conn conn\<lparr>rc_seq := rq_seq req, rc_method := rq_method req, rc_user_id := get_user_id conn,
      rc_roles := get_roles conn\<rparr>"
  have conn: "rc_connection_id (from_conn conn) = wc_connection_id conn" by (simp add: from_conn_def)
  obtain s1 slot where a: "srv_acquire sv s = (s1, slot)" by force
  show ?thesis
  proof (cases "server_handlers sv (rq_method req)")
    case None
    with assms conn show ?thesis by (auto simp: handle_request_def disposed_def)
  next
    case (Some e)
    show ?thesis
    proof (cases "check_roles (get_roles conn) (we_allowed_roles e)")
      case False
      with Some assms conn show ?thesis by (auto simp: handle_request_def disposed_def)
    next
      case True
      show ?thesis
      proof (cases slot)
        case None
        with a Some True assms conn srv_acquire_None [of sv s s1] show ?thesis
          by (auto simp: handle_request_def refuse_request_def disposed_def)
      next
        case sl: (Some sl)
        let ?t = "task_new LegacyCall (rq_params req) (we_schema e) (server_impl sv (we_handler e)) sl ?ctx"
        from sl a Some True assms have d: "s' = s1" "d = DTask ?t"
          by (simp_all add: handle_request_def)
        from sl a srv_acquire_Some [of sv s s1 sl] have sl': "sl = ''inflight_requests''" by simp
        have "tk_start_context ?t = ?ctx" by (simp add: task_new_def)
        then have "admitted sv conn ?t"
          using Some True conn unfolding admitted_def sl'
          by (intro exI [of _ e] conjI exI [of _ LegacyCall] exI [of _ "rq_params req"] exI [of _ ?ctx]) simp_all
        with d sl a srv_acquire_Some [of sv s s1 sl] show ?thesis by (auto simp: disposed_def)
      qed
    qed
  qed
qed

lemma handle_parsed_disposed:
  assumes "handle_parsed sv conn (from_conn conn) obj s = (s', d)"
  shows "d \<noteq> DClose \<and> disposed sv conn s s' (task_of d)"
proof (cases obj)
  case (Ok req)
  with assms handle_request_disposed [of sv conn req s s' d] show ?thesis by (simp add: handle_parsed_def)
next
  case (Err e)
  with assms show ?thesis by (auto simp: handle_parsed_def disposed_def from_conn_def)
qed

text \<open>The JSON-RPC frame in a message, for a server that speaks MCP, and the messages without answer.\<close>

definition rpc_frame :: "'u server \<Rightarrow> wire_message \<Rightarrow> (mcp_state \<times> (jsonrpc_request, json) result) option" where
  "rpc_frame sv msg =
     Option.bind (server_mcp sv) (\<lambda>mcp.
       Option.bind (message_payload msg) (\<lambda>p.
         map_option (Pair mcp)
           (try_parse_jsonrpc (sd_parse (server_serde sv)) (sd_rpc (server_serde sv)) (bytes_str p))))"

definition unanswered :: "'u server \<Rightarrow> wire_message \<Rightarrow> bool" where
  "unanswered sv msg \<longleftrightarrow>
     (case rpc_frame sv msg of
        Some (_, frame) \<Rightarrow> silent_rpc frame
      | None \<Rightarrow> \<not> mcp_only (server_config sv) \<and> (\<exists>p. msg = Ping p \<or> msg = Pong p))"

lemma rpc_frame_mcp: "rpc_frame sv msg = Some (mcp, frame) \<Longrightarrow> server_mcp sv = Some mcp"
  by (auto simp: rpc_frame_def bind_eq_Some_conv)

lemma rpc_frame_control: "message_payload msg = None \<Longrightarrow> rpc_frame sv msg = None"
  by (simp add: rpc_frame_def bind_eq_None_conv)

lemma disposed_observe: "disposed sv conn (srv_observe_message sv b s) s' d = disposed sv conn s s' d"
  by (simp add: disposed_def split: option.split)

lemma handle_message_conv:
  "handle_message sv conn msg s =
     (let s = srv_observe_message sv (message_bytes msg) s; ctx = from_conn conn in
      case rpc_frame sv msg of
        Some (mcp, frame) \<Rightarrow>
          (case handle_mcp_frame sv conn mcp frame ctx s of
             (s, Some t) \<Rightarrow> (s, DTask t)
           | (s, None) \<Rightarrow> (s, DKeep))
      | None \<Rightarrow>
          if mcp_only (server_config sv)
          then (srv_send_raw sv (rc_connection_id ctx)
                  (jsonrpc_error None (rpc_error_new RPC_INVALID_REQUEST
                     ''This WebSocket accepts MCP JSON-RPC 2.0 frames only'')) s, DKeep)
          else (case msg of
                  Text t \<Rightarrow> handle_parsed sv conn ctx (sd_request_str (server_serde sv) (utf8_as_bytes t)) s
                | Binary b \<Rightarrow> handle_parsed sv conn ctx (sd_request_slice (server_serde sv) b) s
                | Ping _ \<Rightarrow> (s, DKeep)
                | Pong _ \<Rightarrow> (s, DKeep)
                | Close _ \<Rightarrow> (s, DClose)))"
  unfolding handle_message_def rpc_frame_def Let_def by (rule refl)

lemma handle_message_disposed:
  assumes msg: "handle_message sv conn msg s = (s', d)" and mcp: "mcp_from_handlers sv"
  shows "case d of
      DTask t \<Rightarrow> disposed sv conn s s' (Some t)
    | DClose \<Rightarrow> (\<exists>f. msg = Close f) \<and> replies s' = replies s \<and> inflight (srv_limits s') = inflight (srv_limits s)
    | DKeep \<Rightarrow>
        if unanswered sv msg then replies s' = replies s \<and> inflight (srv_limits s') = inflight (srv_limits s)
        else disposed sv conn s s' None"
proof (cases "rpc_frame sv msg")
  case (Some mf)
  then obtain mcp frame where f: "rpc_frame sv msg = Some (mcp, frame)" by force
  obtain s1 dt where h: "handle_mcp_frame sv conn mcp frame (from_conn conn)
      (srv_observe_message sv (message_bytes msg) s) = (s1, dt)" by force
  with msg f have d: "s' = s1" "d = (case dt of Some t \<Rightarrow> DTask t | None \<Rightarrow> DKeep)"
    by (auto simp: handle_message_conv Let_def split: option.splits)
  from handle_mcp_frame_disposed [OF h mcp rpc_frame_mcp [OF f]] d f show ?thesis
    by (auto simp: disposed_observe unanswered_def disposed_def split: option.splits if_splits)
next
  case None
  let ?s = "srv_observe_message sv (message_bytes msg) s"
  show ?thesis
  proof (cases "mcp_only (server_config sv)")
    case True
    with None msg show ?thesis
      by (auto simp: handle_message_conv Let_def disposed_def unanswered_def from_conn_def)
  next
    case False
    have parsed: ?thesis if "handle_parsed sv conn (from_conn conn) obj ?s = (s', d)"
      and "\<forall>p. msg \<noteq> Ping p \<and> msg \<noteq> Pong p" for obj
      using handle_parsed_disposed [OF that(1)] that(2) None
      by (cases d) (auto simp: disposed_observe unanswered_def)
    show ?thesis
    proof (cases msg)
      case (Text t)
      with None False msg show ?thesis
        by (intro parsed [of "sd_request_str (server_serde sv) (utf8_as_bytes t)"])
          (simp_all add: handle_message_conv)
    next
      case (Binary b)
      with None False msg show ?thesis
        by (intro parsed [of "sd_request_slice (server_serde sv) b"]) (simp_all add: handle_message_conv)
    qed (use None False msg in \<open>auto simp: handle_message_conv unanswered_def\<close>)
  qed
qed

text \<open>
  C5. Every inbound frame is accounted for. A frame either starts a task, and then exactly one
  request slot was taken within the cap and the task runs the endpoint its method names, for a caller
  whose roles the endpoint allows; or it is answered at once with one reply to its own connection; or
  it is a ping, a pong or a JSON-RPC notification, which nobody answers; or it closes the session.
  Nothing but a task takes a slot, on the legacy and on the MCP path alike.
\<close>
theorem frame_disposition:
  assumes "handle_message sv conn msg s = (s', d)" and "mcp_from_handlers sv"
  shows "case d of
      DTask t \<Rightarrow> replies s' = replies s \<and> admitted sv conn t \<and>
        inflight (srv_limits s') = inflight (srv_limits s) + 1 \<and>
        \<not> over_cap (max_inflight_requests (server_config sv)) (inflight (srv_limits s'))
    | DClose \<Rightarrow> (\<exists>f. msg = Close f) \<and> replies s' = replies s \<and> inflight (srv_limits s') = inflight (srv_limits s)
    | DKeep \<Rightarrow> inflight (srv_limits s') = inflight (srv_limits s) \<and>
        (if unanswered sv msg then replies s' = replies s
         else \<exists>r. replies s' = replies s @ [(wc_connection_id conn, r)])"
  using handle_message_disposed [OF assms] by (cases d) (auto simp: disposed_def split: if_splits)

definition sample_conn :: ws_connection where
  "sample_conn =
     \<lparr>wc_connection_id = 5, wc_user_id = 0, wc_roles = [2], wc_peer = Unknown, wc_extensions = ext_new,
      wc_log_id = 0\<rparr>"

definition sample_srv :: "unit srv" where
  "sample_srv =
     \<lparr>srv_world = \<lparr>conns = (\<lambda>_. sample_conn), chans = (\<lambda>_. channel 4), ends = (\<lambda>_. False),
        states = Map.empty, woken = []\<rparr>,
      srv_app = (), srv_limits = default_limit_state, limit_log = [], replies = []\<rparr>"

lemma sample_message:
  assumes "srv_limits s = default_limit_state"
  shows "\<exists>s' t. handle_message echo_server sample_conn (wire_from_string body) s = (s', DTask t)"
  using assms
  by (simp add: handle_message_def echo_server_def handle_parsed_def handle_request_def sample_serde_def
      wire_from_string_def get_roles_def sample_conn_def check_roles_def srv_acquire_def acquire_request_def
      acquire_def acquire_counter_def warn_check_def over_cap_def default_config_def Let_def
      default_max_inflight_requests_def default_limit_state_def srv_observe_message_def observe_message_def message_bytes.simps split: prod.splits)

theorem frame_disposition_witness:
  "\<exists>s' t. handle_message echo_server sample_conn (wire_from_string ''{}'') sample_srv = (s', DTask t) \<and>
    admitted echo_server sample_conn t"
proof -
  have mcp: "mcp_from_handlers echo_server" by (simp add: mcp_from_handlers_def echo_server_def)
  from sample_message [of sample_srv "''{}''"] obtain s' t where "handle_message echo_server sample_conn (wire_from_string ''{}'') sample_srv = (s', DTask t)"
    by (auto simp: sample_srv_def)
  with frame_disposition [OF this mcp] show ?thesis by auto
qed

section \<open>Slots\<close>

lemma session_run_snoc: "session_run sv (evs @ [ev]) x = session_step sv ev (session_run sv evs x)"
  by (simp add: session_run_def)

lemma session_run_Nil [simp]: "session_run sv [] x = x"
  by (simp add: session_run_def)

lemma at_site_limits [simp]: "srv_limits (at_site f s) = srv_limits s"
  by (rule on_site_simps(4))

lemma run_task_handler_limits [simp]: "srv_limits (run_task_handler sv t s) = srv_limits s"
  by (simp add: run_task_handler_conv handler_limits)

lemma reject_limits [simp]: "srv_limits (reject sv t ctx e s) = srv_limits s"
  by (simp add: reject_def split: envelope.split)

lemma timeout_reply_limits [simp]: "srv_limits (timeout_reply sv t s) = srv_limits s"
  by (simp add: timeout_reply_def Let_def split: envelope.split option.split)

lemma task_step_frame:
  assumes "task_step sv t s = (t', s')"
  shows "srv_limits s' = srv_limits s \<and> tk_slot t' = tk_slot t"
proof (cases "tk_phase t")
  case (InBefore k)
  let ?r = "on_site ((hk_before (server_hooks sv) ! k) (tk_context t) (tk_schema t) (tk_params t)) s"
  obtain s1 ctx r where r: "?r = (s1, ctx, r)" by (metis prod_cases3)
  then have "srv_limits s1 = srv_limits s" using on_site_simps(1) by (metis fst_conv)
  with InBefore r assms show ?thesis
    by (cases "k < length (hk_before (server_hooks sv))"; cases r) (auto simp: task_step_def)
qed (use assms in \<open>auto simp: task_step_def split: if_splits\<close>)

lemma finish_task_inflight:
  "tk_slot t = ''inflight_requests'' \<Longrightarrow>
     inflight (srv_limits (finish_task sv el ex t s)) = inflight (srv_limits s) - 1"
  by (simp add: finish_task_def srv_release_def slot_drop_def Let_def)

lemma release_all_inflight:
  "\<forall>t \<in> set ts. tk_slot t = ''inflight_requests'' \<Longrightarrow>
     inflight (srv_limits (fold (\<lambda>t. srv_release (tk_slot t)) ts s)) = inflight (srv_limits s) - word_of_nat (length ts)"
  by (induction ts arbitrary: s) (auto simp: srv_release_def slot_drop_def)

text \<open>
  The slots a session holds are those of its tasks: \<open>base\<close> is what everybody else holds.
\<close>

definition slots_inv :: "usize \<Rightarrow> 'u session \<Rightarrow> 'u srv \<Rightarrow> bool" where
  "slots_inv base se s \<longleftrightarrow>
     (\<forall>t \<in> set (se_tasks se). tk_slot t = ''inflight_requests'') \<and>
     inflight (srv_limits s) = base + word_of_nat (length (se_tasks se))"

lemma slots_inv_frame:
  "se_tasks se' = se_tasks se \<Longrightarrow> inflight (srv_limits s') = inflight (srv_limits s) \<Longrightarrow>
     slots_inv base se' s' = slots_inv base se s"
  by (simp add: slots_inv_def)

lemma slots_inv_close:
  "slots_inv base se s \<Longrightarrow> close_session se s = (se', s') \<Longrightarrow> slots_inv base se' s' \<and> se_tasks se' = []"
  by (auto simp: slots_inv_def close_session_def Let_def release_all_inflight)

lemma set_chan_limits [simp]: "srv_limits (set_chan q c s) = srv_limits s"
  by (simp add: set_chan_def)

lemma length_remove_nth: "i < length xs \<Longrightarrow> length xs = Suc (length (remove_nth i xs))"
  by (simp add: remove_nth_def)

lemma set_remove_nth: "set (remove_nth i xs) \<subseteq> set xs"
  by (auto simp: remove_nth_def dest: in_set_takeD in_set_dropD)

lemma send_message_session:
  "send_message r msg se = (se', ok) \<Longrightarrow> se' = (if ok then se\<lparr>se_wire := se_wire se @ [msg]\<rparr> else se)"
  by (auto simp: send_message_def split: result.splits stream_error.splits)

lemma push_frameE:
  assumes "push_frame sv ti msg pc se s = (se', s')"
  obtains
    (closed) "close_session se s = (se', s')"
  | (sent_closed) "close_session (se\<lparr>se_wire := se_wire se @ [msg]\<rparr>) s = (se', s')"
  | (sent) "se' = se\<lparr>se_wire := se_wire se @ [msg], se_pc := pc\<rparr>" "s' = s"
proof -
  obtain se1 ok where m: "send_message (ti_sent ti) msg se = (se1, ok)" by force
  show thesis
    using assms m send_message_session [OF m] that
    by (cases ok; cases "header_only (server_config sv)") (simp_all add: push_frame_def)
qed

lemma push_frame_slots:
  assumes inv: "slots_inv base se s" and "push_frame sv ti msg pc se s = (se', s')"
  shows "slots_inv base se' s'"
  using assms(2)
proof (cases rule: push_frameE)
  case closed
  with slots_inv_close [OF inv] show ?thesis by blast
next
  case sent_closed
  moreover have "slots_inv base (se\<lparr>se_wire := se_wire se @ [msg]\<rparr>) s" using inv by (simp add: slots_inv_def)
  ultimately show ?thesis using slots_inv_close by blast
qed (use inv in \<open>simp add: slots_inv_def\<close>)

lemma admitted_slot: "admitted sv conn t \<Longrightarrow> tk_slot t = ''inflight_requests''"
  by (auto simp: admitted_def task_new_def)

lemma on_inbound_slots:
  assumes inv: "slots_inv base se s" and mcp: "mcp_from_handlers sv" and st: "on_inbound sv now inb se s = (se', s')"
  shows "slots_inv base se' s'"
proof (cases "\<exists>msg. inb = Some (Ok msg)")
  case False
  then have "close_session se s = (se', s')"
    using st by (auto simp: on_inbound_def split: option.splits result.splits)
  with slots_inv_close [OF inv] show ?thesis by blast
next
  case True
  then obtain msg where msg: "inb = Some (Ok msg)" by blast
  let ?se = "se\<lparr>se_last_received := now\<rparr>"
  obtain s1 d where h: "handle_message sv (conns (srv_world s) (se_conn se)) msg s = (s1, d)" by force
  note disp = handle_message_disposed [OF h mcp]
  have inv': "slots_inv base ?se s" using inv by (simp add: slots_inv_def)
  show ?thesis
  proof (cases d)
    case DClose
    then have "inflight (srv_limits s1) = inflight (srv_limits s)" using disp by simp
    with inv' have "slots_inv base ?se s1" by (simp add: slots_inv_def)
    moreover have "close_session ?se s1 = (se', s')" using st msg h DClose by (simp add: on_inbound_def)
    ultimately show ?thesis using slots_inv_close by blast
  next
    case DKeep
    then have "inflight (srv_limits s1) = inflight (srv_limits s)"
      using disp by (auto simp: disposed_def split: if_splits)
    with inv st msg h DKeep show ?thesis by (auto simp: on_inbound_def slots_inv_def)
  next
    case (DTask t)
    then have "inflight (srv_limits s1) = inflight (srv_limits s) + 1" "admitted sv (conns (srv_world s) (se_conn se)) t"
      using disp by (simp_all add: disposed_def)
    with inv st msg h DTask show ?thesis
      by (auto simp: on_inbound_def slots_inv_def admitted_slot)
  qed
qed

section \<open>Invariants of a session\<close>

lemma select_stepE:
  assumes "select_step sv ti se s = (se', s')"
  obtains
    (pending) c where "se' = se" "s' = set_chan (se_rx se) c s"
  | (handler) i el ex where "task_ready sv se (i, el, ex)"
      "se' = se\<lparr>se_tasks := remove_nth i (se_tasks se), se_pc := LoopTop\<rparr>"
      "s' = finish_task sv el ex (se_tasks se ! i) s"
  | (outbound) c msg where "push_frame sv ti msg LoopTop se (set_chan (se_rx se) c s) = (se', s')"
  | (closed) c where "close_session se (set_chan (se_rx se) c s) = (se', s')"
  | (inbound) c inb where "on_inbound sv (ti_now ti) inb se (set_chan (se_rx se) c s) = (se', s')"
      "ti_inbound ti = Ready inb"
proof -
  obtain c out where r: "recv_poll (chans (srv_world s) (se_rx se)) (se_waker se) = (c, out)" by force
  define e where "e = (if ends (srv_world s) (se_end se) then Ready () else Pending)"
  have ready: "task_ready sv se d" if "handler_arm sv se ti = Some (Ready d)" for d
    using that by (auto simp: handler_arm_def split: if_splits poll.splits)
  show thesis
  proof (cases "priority4 (handler_arm sv se ti) out (ti_inbound ti) e")
    case Pending
    with assms r show thesis by (intro that(1) [of c]) (auto simp: select_step_def e_def)
  next
    case (Ready arm)
    show thesis
    proof (cases arm)
      case (ArmHandler d)
      obtain i el ex where d: "d = (i, el, ex)" by (metis prod_cases3)
      have "handler_arm sv se ti = Some (Ready d)"
        using Ready ArmHandler
        by (auto simp: priority4_def select2_def Let_def split: option.splits poll.splits either.splits)
      with ready d assms r Ready ArmHandler show thesis
        by (intro that(2) [of i el ex]) (simp_all add: select_step_def e_def)
    next
      case (ArmOutbound m)
      with assms r Ready that(3) [of "case m of Some x \<Rightarrow> x | None \<Rightarrow> undefined" c] that(4) [of c] show thesis
        by (cases m) (simp_all add: select_step_def e_def classify_outbound_def)
    next
      case (ArmInbound inb)
      then have "ti_inbound ti = Ready inb"
        using Ready by (auto simp: priority4_def select2_def Let_def split: option.splits poll.splits either.splits)
      with ArmInbound assms r Ready show thesis by (intro that(5) [of inb c]) (simp_all add: select_step_def e_def)
    next
      case (ArmEnd u)
      with assms r Ready show thesis by (intro that(4) [of c]) (simp add: select_step_def e_def)
    qed
  qed
qed

lemma set_chan_conv:
  "set_chan q c s =
     s\<lparr>srv_world := (srv_world s)\<lparr>chans := (chans (srv_world s))(q := c)\<rparr>, srv_app := srv_app s\<rparr>"
  by (simp add: set_chan_def)

text \<open>
  A predicate that the primitive moves of a session keep is kept by every event, and so holds
  throughout every run.
\<close>

locale session_invariant =
  fixes sv :: "'u server" and I :: "'u session \<Rightarrow> 'u srv \<Rightarrow> bool"
  assumes keep_pc: "I se s \<Longrightarrow> p \<noteq> Ended \<Longrightarrow> I (se\<lparr>se_pc := p\<rparr>) s"
    and keep_wire: "I se s \<Longrightarrow> I (se\<lparr>se_wire := m\<rparr>) s"
    and keep_world: "I se s \<Longrightarrow> I se (s\<lparr>srv_world := w, srv_app := u\<rparr>)"
    and keep_close: "I se s \<Longrightarrow> close_session se s = (se', s') \<Longrightarrow> I se' s'"
    and keep_poll: "I se s \<Longrightarrow> i < length (se_tasks se) \<Longrightarrow> task_step sv (se_tasks se ! i) s = (t', s') \<Longrightarrow>
      I (se\<lparr>se_tasks := (se_tasks se)[i := t']\<rparr>) s'"
    and keep_finish: "I se s \<Longrightarrow> i < length (se_tasks se) \<Longrightarrow>
      I (se\<lparr>se_tasks := remove_nth i (se_tasks se)\<rparr>) (finish_task sv el ex (se_tasks se ! i) s)"
    and keep_inbound: "I se s \<Longrightarrow> on_inbound sv now inb se s = (se', s') \<Longrightarrow> I se' s'"
begin

lemma keep_chan: "I se s \<Longrightarrow> I se (set_chan q c s)"
  unfolding set_chan_conv by (rule keep_world)

lemma keep_push: "I se s \<Longrightarrow> push_frame sv ti msg pc se s = (se', s') \<Longrightarrow> pc \<noteq> Ended \<Longrightarrow> I se' s'"
  by (erule push_frameE) (auto intro: keep_close keep_wire keep_pc)

lemma keep_select:
  assumes inv: "I se s" and "select_step sv ti se s = (se', s')"
  shows "I se' s'"
  using assms(2)
proof (cases rule: select_stepE)
  case (handler i el ex)
  then have "i < length (se_tasks se)" by (simp add: task_ready_def)
  with keep_pc [OF keep_finish [OF inv, of i el ex]] handler show ?thesis by simp
qed (use inv in \<open>auto intro: keep_chan keep_push keep_close keep_inbound\<close>)

lemma keep_loop:
  assumes inv: "I se s" and st: "loop_step sv ti se s = (se', s')"
  shows "I se' s'"
proof (cases "se_pc se")
  case Drain
  obtain c r where r: "try_recv (chans (srv_world s) (se_rx se)) = (c, r)" by force
  show ?thesis
  proof (cases r)
    case (Ok msg)
    with Drain r st keep_close [OF keep_chan [OF inv]] keep_push [OF keep_chan [OF inv]] show ?thesis
      by (cases "idle_expired sv (ti_now ti) se") (auto simp: loop_step_def)
  next
    case (Err e)
    with Drain r st inv show ?thesis by (auto simp: loop_step_def intro: keep_pc)
  qed
next
  case Select
  with st keep_select [OF inv] show ?thesis by (simp add: loop_step_def)
qed (use inv st in \<open>auto simp: loop_step_def split: if_splits intro: keep_pc keep_close\<close>)

lemma keep_step:
  assumes inv: "I se s" and st: "session_step sv ev (se, s) = (se', s')"
  shows "I se' s'"
proof (cases ev)
  case (Tick ti)
  with st keep_loop [OF inv] show ?thesis by (simp add: session_step_def)
next
  case (PollTask i)
  obtain t s1 where "task_step sv (se_tasks se ! i) s = (t, s1)" by force
  with PollTask st inv keep_poll [OF inv, of i t s1] show ?thesis
    by (auto simp: session_step_def split: if_splits)
next
  case (IdleTimer now)
  with st inv keep_close [OF inv] show ?thesis by (auto simp: session_step_def split: if_splits)
next
  case (Others f u)
  with st inv show ?thesis by (auto simp: session_step_def intro: keep_world)
qed

lemma keep_run: "I se s \<Longrightarrow> session_run sv evs (se, s) = (se', s') \<Longrightarrow> I se' s'"
proof (induction evs arbitrary: se' s' rule: rev_induct)
  case (snoc ev evs)
  obtain se1 s1 where r: "session_run sv evs (se, s) = (se1, s1)" by force
  with snoc.prems have "session_step sv ev (se1, s1) = (se', s')" by (simp add: session_run_snoc)
  with keep_step [OF snoc.IH [OF snoc.prems(1) r]] show ?case .
qed simp

end

text \<open>The slots invariant.\<close>

definition slots_hold :: "'u server \<Rightarrow> usize \<Rightarrow> 'u session \<Rightarrow> 'u srv \<Rightarrow> bool" where
  "slots_hold sv base se s \<longleftrightarrow> (mcp_from_handlers sv \<longrightarrow> slots_inv base se s)"

lemma poll_slots:
  assumes "slots_inv base se s" and "i < length (se_tasks se)" and "task_step sv (se_tasks se ! i) s = (t', s')"
  shows "slots_inv base (se\<lparr>se_tasks := (se_tasks se)[i := t']\<rparr>) s'"
  using assms task_step_frame [OF assms(3)] set_update_subset_insert [of "se_tasks se" i t']
  by (auto simp: slots_inv_def)

lemma finish_slots:
  assumes "slots_inv base se s" and "i < length (se_tasks se)"
  shows "slots_inv base (se\<lparr>se_tasks := remove_nth i (se_tasks se)\<rparr>) (finish_task sv el ex (se_tasks se ! i) s)"
  using assms length_remove_nth [OF assms(2)] set_remove_nth [of i "se_tasks se"]
  by (auto simp: slots_inv_def finish_task_inflight)

interpretation slots: session_invariant sv "slots_hold sv base" for sv base
  by unfold_locales
    (auto simp: slots_hold_def slots_inv_frame [of "_\<lparr>se_pc := _\<rparr>"] slots_inv_frame [of "_\<lparr>se_wire := _\<rparr>"]
      slots_inv_frame [of _ _ "_\<lparr>srv_world := _, srv_app := _\<rparr>"] poll_slots finish_slots
      dest: slots_inv_close on_inbound_slots)

text \<open>A session stays with its connection.\<close>

lemma close_session_conn: "close_session se s = (se', s') \<Longrightarrow> se_conn se' = se_conn se"
  by (auto simp: close_session_def)

lemma on_inbound_conn: "on_inbound sv now inb se s = (se', s') \<Longrightarrow> se_conn se' = se_conn se"
  by (auto simp: on_inbound_def Let_def dest: close_session_conn split: option.splits result.splits prod.splits dispatch.splits)

interpretation same_conn: session_invariant sv "\<lambda>se s. se_conn se = k" for sv k
  by unfold_locales (auto dest: close_session_conn on_inbound_conn)

text \<open>Where a session's tasks come from: an inbound frame, handled for the connection as it is at that moment.\<close>

lemma close_session_no_task: "close_session se s = (se', s') \<Longrightarrow> se_tasks se' = []"
  by (auto simp: close_session_def)

definition started_by :: "'u server \<Rightarrow> 'u event \<Rightarrow> nat \<Rightarrow> 'u srv \<Rightarrow> 'u task \<Rightarrow> bool" where
  "started_by sv ev k s t \<longleftrightarrow>
     (\<exists>ti msg s1 s2. ev = Tick ti \<and> ti_inbound ti = Ready (Some (Ok msg)) \<and>
        handle_message sv (conns (srv_world s) k) msg s1 = (s2, DTask t))"

lemma on_inbound_task:
  assumes "on_inbound sv now inb se s = (se', s')" and "t \<in> set (se_tasks se')"
  shows "t \<in> set (se_tasks se) \<or>
    (\<exists>msg s2. inb = Some (Ok msg) \<and> handle_message sv (conns (srv_world s) (se_conn se)) msg s = (s2, DTask t))"
  using assms
  by (auto simp: on_inbound_def Let_def dest: close_session_no_task
      split: option.splits result.splits prod.splits dispatch.splits)

lemma push_frame_task: "push_frame sv ti msg pc se s = (se', s') \<Longrightarrow> t \<in> set (se_tasks se') \<Longrightarrow> t \<in> set (se_tasks se)"
  by (erule push_frameE) (auto dest: close_session_no_task)

lemma select_step_task:
  assumes "select_step sv ti se s = (se', s')" and "t \<in> set (se_tasks se')"
  shows "t \<in> set (se_tasks se) \<or> started_by sv (Tick ti) (se_conn se) s t"
  using assms(1)
proof (cases rule: select_stepE)
  case (handler i el ex)
  with assms(2) set_remove_nth [of i "se_tasks se"] show ?thesis by auto
next
  case (inbound c inb)
  with on_inbound_task [OF inbound(1) assms(2)] show ?thesis
    by (auto simp: started_by_def set_chan_def)
qed (use assms(2) in \<open>auto dest: close_session_no_task push_frame_task\<close>)

lemma session_step_task:
  assumes "session_step sv ev (se, s) = (se', s')" and "t \<in> set (se_tasks se')"
  shows "t \<in> set (se_tasks se) \<or> (\<exists>t1 \<in> set (se_tasks se). \<exists>s1. task_step sv t1 s = (t, s1)) \<or>
    started_by sv ev (se_conn se) s t"
proof (cases ev)
  case (Tick ti)
  with assms have loop: "loop_step sv ti se s = (se', s')" by (simp add: session_step_def)
  show ?thesis
  proof (cases "se_pc se")
    case Select
    with loop have "select_step sv ti se s = (se', s')" by (simp add: loop_step_def)
    from select_step_task [OF this assms(2)] Tick show ?thesis by auto
  next
    case Drain
    with loop assms(2) show ?thesis
      by (auto simp: loop_step_def Let_def dest: close_session_no_task push_frame_task
          split: prod.splits result.splits if_splits)
  qed (use loop assms(2) in \<open>auto simp: loop_step_def dest: close_session_no_task split: if_splits\<close>)
next
  case (PollTask i)
  obtain t1 s1 where p: "task_step sv (se_tasks se ! i) s = (t1, s1)" by force
  show ?thesis
  proof (cases "se_pc se = Select \<and> i < length (se_tasks se)")
    case True
    with PollTask assms(1) p have "se_tasks se' = (se_tasks se)[i := t1]" by (auto simp: session_step_def)
    with assms(2) set_update_subset_insert [of "se_tasks se" i t1] have "t = t1 \<or> t \<in> set (se_tasks se)" by auto
    with True p nth_mem [of i "se_tasks se"] show ?thesis by blast
  qed (use PollTask assms in \<open>auto simp: session_step_def\<close>)
qed (use assms in \<open>auto simp: session_step_def dest: close_session_no_task split: if_splits\<close>)

text \<open>Every task of a session was started by one of its events, and has run from there.\<close>

lemma session_task_origin:
  assumes "session_run sv evs (se0, s0) = (se, s)" and "se_tasks se0 = []" and "t \<in> set (se_tasks se)"
  shows "\<exists>evs1 ev evs2 se1 s1 t0 rs. evs = evs1 @ ev # evs2 \<and> session_run sv evs1 (se0, s0) = (se1, s1) \<and>
    started_by sv ev (se_conn se0) s1 t0 \<and> task_run sv t0 rs t"
  using assms(1,3)
proof (induction evs arbitrary: se s t rule: rev_induct)
  case Nil
  with assms(2) show ?case by simp
next
  case (snoc ev evs)
  obtain se1 s1 where r: "session_run sv evs (se0, s0) = (se1, s1)" by force
  with snoc.prems(1) have st: "session_step sv ev (se1, s1) = (se, s)" by (simp add: session_run_snoc)
  have conn: "se_conn se1 = se_conn se0" by (rule same_conn.keep_run [OF refl r])
  have earlier: ?case
    if "t1 \<in> set (se_tasks se1)" and more: "\<And>t0 rs. task_run sv t0 rs t1 \<Longrightarrow> \<exists>rs. task_run sv t0 rs t" for t1
  proof -
    from snoc.IH [OF r that(1)] obtain evs1 ev1 evs2 se2 s2 t0 rs where
      o: "evs = evs1 @ ev1 # evs2" "session_run sv evs1 (se0, s0) = (se2, s2)"
        "started_by sv ev1 (se_conn se0) s2 t0" and "task_run sv t0 rs t1" by blast
    with more obtain rs' where "task_run sv t0 rs' t" by blast
    with o show ?thesis by (metis append.assoc append_Cons)
  qed
  from session_step_task [OF st snoc.prems(2)] show ?case
  proof (elim disjE bexE exE)
    assume "t \<in> set (se_tasks se1)"
    then show ?thesis by (rule earlier) blast
  next
    fix t1 s2 assume t1: "t1 \<in> set (se_tasks se1)" and step: "task_step sv t1 s1 = (t, s2)"
    show ?thesis
    proof (rule earlier [OF t1])
      fix t0 rs assume run: "task_run sv t0 rs t1"
      show "\<exists>rs. task_run sv t0 rs t"
      proof (cases "tk_phase t1 = Completed")
        case True
        with step have "t = t1" by (simp add: task_step_def)
        with run show ?thesis by blast
      qed (use task_run.segment [OF run _ step] in blast)
    qed
  next
    assume "started_by sv ev (se_conn se1) s1 t"
    with r conn task_run.start [of sv t] show ?thesis by (metis append_Nil2 append_Cons)
  qed
qed

text \<open>An ended session has no tasks.\<close>

definition ended_idle :: "'u session \<Rightarrow> 'u srv \<Rightarrow> bool" where
  "ended_idle se s \<longleftrightarrow> (se_pc se = Ended \<longrightarrow> se_tasks se = [])"

lemma close_session_tasks: "close_session se s = (se', s') \<Longrightarrow> se_tasks se' = [] \<and> se_pc se' = Ended"
  by (auto simp: close_session_def)

lemma on_inbound_pc:
  assumes "on_inbound sv now inb se s = (se', s')"
  shows "se_pc se' = LoopTop \<or> se_tasks se' = []"
proof (cases "\<exists>msg. inb = Some (Ok msg)")
  case False
  then have "close_session se s = (se', s')"
    using assms by (auto simp: on_inbound_def split: option.splits result.splits)
  then show ?thesis using close_session_tasks by blast
next
  case True
  then obtain msg where msg: "inb = Some (Ok msg)" by blast
  obtain s1 d where hm: "handle_message sv (conns (srv_world s) (se_conn se)) msg s = (s1, d)" by force
  show ?thesis
    using assms msg hm by (cases d) (auto simp: on_inbound_def dest: close_session_tasks)
qed

interpretation ended: session_invariant sv ended_idle for sv :: "'u server"
  by unfold_locales (auto simp: ended_idle_def dest: close_session_tasks on_inbound_pc)

text \<open>
  C4. The role gate holds in every run: no hook and no handler of an endpoint ever runs for a caller whom the
  endpoint does not allow. Whatever events a session has been through, each of its tasks was started by one of
  them, an inbound frame. At that moment, with \<open>c\<close> the state of the session's own connection, the endpoint
  registered for the task's method allowed one of the roles \<open>c\<close> had; the task runs that
  endpoint's handler, in the name of \<open>c\<close>: with its roles, its user and its connection number. It has since answered at most once.
\<close>
theorem role_gate:
  assumes "session_run sv evs (session_new conn rx e wk now, s0) = (se, s)" and "t \<in> set (se_tasks se)"
    and "mcp_from_handlers sv"
  shows "\<exists>evs1 ti msg evs2 se1 s1 t0 rs ep.
    evs = evs1 @ Tick ti # evs2 \<and> session_run sv evs1 (session_new conn rx e wk now, s0) = (se1, s1) \<and>
    ti_inbound ti = Ready (Some (Ok msg)) \<and> task_run sv t0 rs t \<and> length rs \<le> 1 \<and>
    server_handlers sv (rc_method (tk_start_context t)) = Some ep \<and>
    tk_schema t = we_schema ep \<and> tk_handler t = server_impl sv (we_handler ep) \<and>
    (let c = conns (srv_world s1) conn in
       (\<exists>r \<in> set (get_roles c). r \<in> we_allowed_roles ep) \<and>
       (\<exists>s2 s3. handle_message sv c msg s2 = (s3, DTask t0)) \<and>
       rc_roles (tk_start_context t) = get_roles c \<and> rc_user_id (tk_start_context t) = get_user_id c \<and>
       rc_connection_id (tk_start_context t) = wc_connection_id c)"
proof -
  have new: "se_tasks (session_new conn rx e wk now) = []" "se_conn (session_new conn rx e wk now) = conn"
    by (simp_all add: session_new_def)
  from session_task_origin [OF assms(1) new(1) assms(2)] new(2) obtain evs1 ev evs2 se1 s1 t0 rs where
    o: "evs = evs1 @ ev # evs2" "session_run sv evs1 (session_new conn rx e wk now, s0) = (se1, s1)"
      "started_by sv ev conn s1 t0" and r: "task_run sv t0 rs t" by metis
  then obtain ti msg s2 s3 where ev: "ev = Tick ti" "ti_inbound ti = Ready (Some (Ok msg))"
    and h: "handle_message sv (conns (srv_world s1) conn) msg s2 = (s3, DTask t0)"
    unfolding started_by_def by blast
  let ?c = "conns (srv_world s1) conn"
  have "admitted sv ?c t0" using handle_message_disposed [OF h assms(3)] by (simp add: disposed_def)
  then obtain ep env p ctx where ep: "server_handlers sv (rc_method (tk_start_context t0)) = Some ep"
      "check_roles (get_roles ?c) (we_allowed_roles ep)" "rc_roles ctx = get_roles ?c"
      "rc_user_id ctx = get_user_id ?c" "rc_connection_id ctx = wc_connection_id ?c"
    and t0: "t0 = task_new env p (we_schema ep) (server_impl sv (we_handler ep)) ''inflight_requests'' ctx"
    unfolding admitted_def by blast
  from ep(2) have role: "\<exists>r \<in> set (get_roles ?c). r \<in> we_allowed_roles ep"
    by (auto simp: check_roles_def list_ex_iff split: if_splits)
  have inv: "task_inv t0 rs t"
    using task_run_inv [OF r] by (simp add: t0 task_new_def)
  have "tk_schema t = tk_schema t0"
    using r by induction (auto elim: task_stepE)
  then have "tk_schema t = we_schema ep" "tk_handler t = server_impl sv (we_handler ep)" "tk_start_context t = ctx"
    "length rs \<le> 1" "tk_start_context t0 = ctx"
    using inv by (auto simp: task_inv_def t0 task_new_def split: if_splits)
  with o(1,2) ev h r ep(1,3-5) role show ?thesis
    unfolding Let_def by metis
qed

text \<open>The cap, for a session beside others that have \<open>b\<close> requests in flight.\<close>

definition within_cap :: "'u server \<Rightarrow> nat \<Rightarrow> usize \<Rightarrow> 'u session \<Rightarrow> 'u srv \<Rightarrow> bool" where
  "within_cap sv b c se s \<longleftrightarrow>
     (mcp_from_handlers sv \<and> max_inflight_requests (server_config sv) = Some c \<and> c < - 1 \<longrightarrow>
        slots_inv (word_of_nat b) se s \<and> b + length (se_tasks se) \<le> unat c)"

lemma word_of_nat_within:
  assumes "n \<le> unat c" and "c < (- 1 :: usize)" and "(word_of_nat n :: usize) + 1 \<le> c"
  shows "Suc n \<le> unat c"
proof -
  have "unat c < 2 ^ 64 - 1"
    using assms(2) by (simp add: word_less_nat_alt unsigned_minus_1_eq_mask mask_eq_exp_minus_1)
  with assms(1) have "Suc n < 2 ^ 64" by simp
  then have "unat (word_of_nat (Suc n) :: usize) = Suc n"
    by (simp add: unsigned_of_nat take_bit_nat_eq_self del: of_nat_Suc)
  moreover have "(word_of_nat (Suc n) :: usize) \<le> c" using assms(3) by (simp add: add.commute)
  ultimately show ?thesis by (simp add: word_le_nat_alt)
qed

lemma within_cap_inbound:
  assumes inv: "within_cap sv b c se s" and st: "on_inbound sv now inb se s = (se', s')"
  shows "within_cap sv b c se' s'"
  unfolding within_cap_def
proof (intro impI)
  assume h: "mcp_from_handlers sv \<and> max_inflight_requests (server_config sv) = Some c \<and> c < - 1"
  with inv have sl: "slots_inv (word_of_nat b) se s" and n: "b + length (se_tasks se) \<le> unat c" by (auto simp: within_cap_def)
  have "b + length (se_tasks se') \<le> unat c"
  proof (cases "\<exists>msg. inb = Some (Ok msg)")
    case False
    then have "close_session se s = (se', s')"
      using st by (auto simp: on_inbound_def split: option.splits result.splits)
    then show ?thesis using close_session_tasks n by fastforce
  next
    case True
    then obtain msg where msg: "inb = Some (Ok msg)" by blast
    obtain s1 d where hm: "handle_message sv (conns (srv_world s) (se_conn se)) msg s = (s1, d)" by force
    show ?thesis
    proof (cases d)
      case (DTask t)
      with handle_message_disposed [OF hm] h sl have "(word_of_nat (b + length (se_tasks se)) :: usize) + 1 \<le> c"
        by (auto simp: disposed_def slots_inv_def over_cap_def)
      with word_of_nat_within [OF n] h st msg hm DTask show ?thesis by (auto simp: on_inbound_def)
    next
      case DClose
      with st msg hm n show ?thesis by (auto simp: on_inbound_def dest: close_session_tasks)
    qed (use st msg hm n in \<open>auto simp: on_inbound_def\<close>)
  qed
  with on_inbound_slots [OF sl _ st] h show "slots_inv (word_of_nat b) se' s' \<and> b + length (se_tasks se') \<le> unat c" by blast
qed

interpretation cap: session_invariant sv "within_cap sv b c" for sv b c
proof (unfold_locales, goal_cases)
  case (4 se s se' s')
  then show ?case using slots_inv_close [of "word_of_nat b" se s se' s'] by (auto simp: within_cap_def)
next
  case (5 se s i t' s')
  then show ?case using poll_slots [of "word_of_nat b" se s i sv t' s'] by (auto simp: within_cap_def)
next
  case (6 se s i el ex)
  then show ?case
    using finish_slots [of "word_of_nat b" se s i sv el ex] length_remove_nth [of i "se_tasks se"] by (auto simp: within_cap_def)
next
  case (7 se s now inb se' s')
  then show ?case by (rule within_cap_inbound)
qed (simp_all add: within_cap_def slots_inv_def)

text \<open>
  A session never leaks a request slot. After any run, with any interference, the in-flight
  counter is what it was plus the number of the session's live tasks; a session that has ended,
  whatever ended it (a close frame, an error, the idle timer, a policy), holds none; and on an
  otherwise idle server with cap \<open>c\<close> a session never has more than \<open>c\<close> requests in flight, however
  many frames the peer sends.
\<close>
theorem session_slots_balanced:
  assumes "session_run sv evs (session_new conn rx e wk now, s0) = (se, s)" and "mcp_from_handlers sv"
  shows "inflight (srv_limits s) = inflight (srv_limits s0) + word_of_nat (length (se_tasks se)) \<and>
    (se_pc se = Ended \<longrightarrow> inflight (srv_limits s) = inflight (srv_limits s0)) \<and>
    (\<forall>c. max_inflight_requests (server_config sv) = Some c \<and> c < - 1 \<and> inflight (srv_limits s0) = 0 \<longrightarrow>
       length (se_tasks se) \<le> unat c)"
proof -
  let ?se = "session_new conn rx e wk now"
  have "slots_hold sv (inflight (srv_limits s0)) ?se s0" "ended_idle ?se s0"
    and c: "within_cap sv 0 c ?se s0" if "inflight (srv_limits s0) = 0" for c
    using that by (simp_all add: slots_hold_def slots_inv_def ended_idle_def within_cap_def session_new_def)
  have "slots_hold sv (inflight (srv_limits s0)) se s"
    by (rule slots.keep_run [OF _ assms(1)]) (simp add: slots_hold_def slots_inv_def session_new_def)
  moreover have "ended_idle se s"
    by (rule ended.keep_run [OF _ assms(1)]) (simp add: ended_idle_def session_new_def)
  moreover have "within_cap sv 0 c se s" if "inflight (srv_limits s0) = 0" for c
    by (rule cap.keep_run [OF c [OF that] assms(1)])
  ultimately show ?thesis
    using assms(2) by (auto simp: slots_hold_def slots_inv_def ended_idle_def within_cap_def)
qed

text \<open>A session that receives one request.\<close>

definition sample_tick :: tick where
  "sample_tick =
     \<lparr>ti_now = 1, ti_sent = Ok (), ti_inbound = Ready (Some (Ok (wire_from_string ''{}''))), ti_done = Pending\<rparr>"

definition sample_run :: "unit session \<times> unit srv" where
  "sample_run = session_run echo_server (replicate 4 (Tick sample_tick)) (session_new 0 0 0 0 0, sample_srv)"

lemma sample_ticks:
  "session_step echo_server (Tick sample_tick) (session_new 0 0 0 0 0, sample_srv) =
     ((session_new 0 0 0 0 0)\<lparr>se_pc := Drain\<rparr>, sample_srv)"
  "session_step echo_server (Tick sample_tick) ((session_new 0 0 0 0 0)\<lparr>se_pc := Drain\<rparr>, sample_srv) =
     ((session_new 0 0 0 0 0)\<lparr>se_pc := AfterDrain\<rparr>, sample_srv)"
  "session_step echo_server (Tick sample_tick) ((session_new 0 0 0 0 0)\<lparr>se_pc := AfterDrain\<rparr>, sample_srv) =
     ((session_new 0 0 0 0 0)\<lparr>se_pc := Select\<rparr>, sample_srv)"
  by (simp_all add: session_step_def loop_step_def session_new_def idle_expired_def echo_server_def default_config_def
      default_idle_timeout_def from_secs_def sample_tick_def sample_srv_def try_recv_def pop_def channel_def)

lemma sample_select:
  "\<exists>se s t. session_step echo_server (Tick sample_tick) ((session_new 0 0 0 0 0)\<lparr>se_pc := Select\<rparr>, sample_srv) =
     (se, s) \<and> se_tasks se = [t]"
proof -
  let ?se = "(session_new 0 0 0 0 0 :: unit session)\<lparr>se_pc := Select\<rparr>"
  obtain c where c: "recv_poll (chans (srv_world sample_srv) 0) 0 = (c, Pending)"
    by (simp add: sample_srv_def recv_poll_def pop_def channel_def)
  let ?s = "set_chan 0 c sample_srv"
  have "conns (srv_world ?s) 0 = sample_conn" "srv_limits ?s = default_limit_state"
    by (simp_all add: set_chan_def sample_srv_def)
  with sample_message [of ?s "''{}''"] have "\<exists>se s t. on_inbound echo_server 1 (Some (Ok (wire_from_string ''{}''))) ?se ?s =
      (se, s) \<and> se_tasks se = [t]"
    by (auto simp: on_inbound_def session_new_def)
  with c show ?thesis
    by (simp add: session_step_def loop_step_def select_step_def priority4_def select2_def handler_arm_def
        session_new_def sample_tick_def)
qed

lemma sample_run_tasks: "length (se_tasks (fst sample_run)) = 1"
  using sample_select by (auto simp: sample_run_def session_run_def sample_ticks numeral_eq_Suc)

lemma echo_server_mcp: "mcp_from_handlers echo_server"
  by (simp add: mcp_from_handlers_def echo_server_def)

lemma sample_prefix:
  assumes "replicate 4 (Tick sample_tick) = evs1 @ Tick ti # evs2"
    and "session_run echo_server evs1 (session_new 0 0 0 0 0, sample_srv) = (se1, s1)"
  shows "s1 = sample_srv"
proof -
  have n: "length evs1 < 4" using arg_cong [OF assms(1), of length] by simp
  have "evs1 = take (length evs1) (replicate 4 (Tick sample_tick))" by (simp add: assms(1))
  with n obtain k where k: "evs1 = replicate k (Tick sample_tick)" "k < 4" by (metis min_def nat_less_le take_replicate)
  then consider "k = 0" | "k = 1" | "k = 2" | "k = 3" by linarith
  then show ?thesis
    using assms(2) unfolding k(1) by cases (simp_all add: session_run_def sample_ticks numeral_eq_Suc)
qed

theorem role_gate_witness:
  "\<exists>t \<in> set (se_tasks (fst sample_run)). \<exists>ep.
     server_handlers echo_server (rc_method (tk_start_context t)) = Some ep \<and>
     rc_roles (tk_start_context t) = get_roles sample_conn \<and>
     (\<exists>r \<in> set (get_roles sample_conn). r \<in> we_allowed_roles ep)"
proof -
  obtain se s where r: "session_run echo_server (replicate 4 (Tick sample_tick)) (session_new 0 0 0 0 0, sample_srv) = (se, s)"
    by force
  moreover obtain t where t: "t \<in> set (se_tasks se)"
    using sample_run_tasks r by (cases "se_tasks se") (auto simp: sample_run_def)
  from role_gate [OF r t echo_server_mcp] obtain evs1 ti evs2 se1 s1 ep where
    g: "replicate 4 (Tick sample_tick) = evs1 @ Tick ti # evs2"
      "session_run echo_server evs1 (session_new 0 0 0 0 0, sample_srv) = (se1, s1)"
      "server_handlers echo_server (rc_method (tk_start_context t)) = Some ep"
      "rc_roles (tk_start_context t) = get_roles (conns (srv_world s1) 0)"
      "\<exists>r \<in> set (get_roles (conns (srv_world s1) 0)). r \<in> we_allowed_roles ep"
    unfolding Let_def by blast
  have "conns (srv_world s1) 0 = sample_conn"
    unfolding sample_prefix [OF g(1,2)] by (simp add: sample_srv_def)
  with g(3-5) t show ?thesis unfolding sample_run_def r by auto
qed

theorem session_slots_balanced_witness:
  "inflight (srv_limits (snd sample_run)) = 1"
proof -
  obtain se s where r: "session_run echo_server (replicate 4 (Tick sample_tick)) (session_new 0 0 0 0 0, sample_srv) = (se, s)"
    by force
  from session_slots_balanced [OF r echo_server_mcp] sample_run_tasks r show ?thesis
    by (simp add: sample_run_def sample_srv_def default_limit_state_def)
qed

section \<open>Ending a session\<close>

text \<open>Once raised, nobody lowers a connection's end flag.\<close>

fun keeps_flag :: "nat \<Rightarrow> 'u event \<Rightarrow> bool" where
  "keeps_flag e (Others f u) \<longleftrightarrow> (\<forall>w. ends w e \<longrightarrow> ends (f w) e)"
| "keeps_flag e _ \<longleftrightarrow> True"

definition barred :: "nat \<Rightarrow> 'u srv \<Rightarrow> 'u session \<Rightarrow> 'u srv \<Rightarrow> bool" where
  "barred e s0 se s \<longleftrightarrow>
     se_end se = e \<and> ends (srv_world s) e \<and> se_tasks se = [] \<and> se_pc se \<noteq> Select \<and>
     replies s = replies s0 \<and> srv_limits s = srv_limits s0"

lemma barred_close:
  assumes "barred e s0 se s" and "close_session se s' = (se'', s'')" and "replies s' = replies s"
    and "srv_limits s' = srv_limits s" and "ends (srv_world s') = ends (srv_world s)"
  shows "barred e s0 se'' s''"
  using assms by (auto simp: barred_def close_session_def Let_def)

lemma barred_wire: "barred e s0 se s \<Longrightarrow> barred e s0 (se\<lparr>se_wire := m\<rparr>) s"
  by (simp add: barred_def)

lemma set_chan_frame [simp]:
  "replies (set_chan q c s) = replies s" "ends (srv_world (set_chan q c s)) = ends (srv_world s)"
  by (simp_all add: set_chan_def)

lemma barred_loop:
  assumes inv: "barred e s0 se s" and st: "loop_step sv ti se s = (se', s')"
  shows "barred e s0 se' s'"
proof (cases "se_pc se")
  case LoopTop
  with st inv barred_close [OF inv, of s] show ?thesis
    by (auto simp: loop_step_def barred_def split: if_splits)
next
  case Drain
  obtain c r where r: "try_recv (chans (srv_world s) (se_rx se)) = (c, r)" by force
  show ?thesis
  proof (cases r)
    case (Ok msg)
    let ?s = "set_chan (se_rx se) c s"
    show ?thesis
    proof (cases "idle_expired sv (ti_now ti) se")
      case True
      with Drain r Ok st barred_close [OF inv, of ?s] show ?thesis by (simp add: loop_step_def)
    next
      case False
      with Drain r Ok st have "push_frame sv ti msg Drain se ?s = (se', s')" by (simp add: loop_step_def)
      then show ?thesis
        using barred_close [OF inv, of ?s] barred_close [OF barred_wire [OF inv], of _ ?s] inv
        by (cases rule: push_frameE) (auto simp: barred_def)
    qed
  next
    case (Err err)
    with Drain r st inv show ?thesis by (auto simp: loop_step_def barred_def)
  qed
next
  case AfterDrain
  with inv have "ends (srv_world s) (se_end se)" by (simp add: barred_def)
  with AfterDrain st barred_close [OF inv, of s] show ?thesis by (simp add: loop_step_def)
qed (use inv st in \<open>auto simp: loop_step_def barred_def\<close>)

lemma barred_step:
  assumes inv: "barred e s0 se s" and st: "session_step sv ev (se, s) = (se', s')" and "keeps_flag e ev"
  shows "barred e s0 se' s'"
proof (cases ev)
  case (Tick ti)
  with st barred_loop [OF inv] show ?thesis by (simp add: session_step_def)
next
  case (IdleTimer now)
  with st inv barred_close [OF inv, of s] show ?thesis by (auto simp: session_step_def split: if_splits)
qed (use assms in \<open>auto simp: session_step_def barred_def\<close>)

lemma barred_run:
  assumes "barred e s0 se0 s0'" and "session_run sv evs (se0, s0') = (se, s)" and "\<forall>ev \<in> set evs. keeps_flag e ev"
  shows "barred e s0 se s"
  using assms(2,3)
proof (induction evs arbitrary: se s rule: rev_induct)
  case (snoc ev evs)
  obtain se1 s1 where r: "session_run sv evs (se0, s0') = (se1, s1)" by force
  with snoc.prems have "session_step sv ev (se1, s1) = (se, s)" by (simp add: session_run_snoc)
  with barred_step [OF snoc.IH [OF r]] snoc.prems(2) show ?case by simp
qed (use assms(1) in simp)

text \<open>
  A session whose end flag is already raised serves nobody. This is how the server gets rid of a
  connection that failed authentication: it raises the flag and lets the session run to flush the
  error. Whatever the peer sends meanwhile, no frame is handled, no task starts, nothing is answered
  and no limit is touched.
\<close>
theorem flagged_session_serves_nothing:
  assumes "session_run sv evs (session_new conn rx e wk now, s0) = (se, s)"
    and "ends (srv_world s0) e" and "\<forall>ev \<in> set evs. keeps_flag e ev"
  shows "se_tasks se = [] \<and> se_pc se \<noteq> Select \<and> replies s = replies s0 \<and> srv_limits s = srv_limits s0"
proof -
  have "barred e s0 (session_new conn rx e wk now) s0"
    using assms(2) by (simp add: barred_def session_new_def)
  from barred_run [OF this assms(1,3)] show ?thesis by (simp add: barred_def)
qed

lemma idle_expired_frame [simp]:
  "idle_expired sv n (se\<lparr>se_wire := m\<rparr>) = idle_expired sv n se"
  "idle_expired sv n (se\<lparr>se_pc := p\<rparr>) = idle_expired sv n se"
  by (simp_all add: idle_expired_def split: option.split)

lemma drain_all:
  assumes "queue (chans (srv_world s) (se_rx se)) = q" and "length tis = length q" and "se_pc se = Drain"
    and "\<forall>ti \<in> set tis. ti_sent ti = Ok () \<and> \<not> idle_expired sv (ti_now ti) se"
    and "\<not> header_only (server_config sv)"
  shows "\<exists>c. session_run sv (map Tick tis) (se, s) = (se\<lparr>se_wire := se_wire se @ q\<rparr>, set_chan (se_rx se) c s) \<and>
    queue c = []"
  using assms
proof (induction q arbitrary: tis se s)
  case Nil
  then show ?case
    by (auto simp: set_chan_def session_run_def fun_upd_idem intro!: exI [of _ "chans (srv_world s) (se_rx se)"])
next
  case (Cons m q)
  then obtain ti tis' where tis: "tis = ti # tis'" by (cases tis) auto
  let ?c = "(chans (srv_world s) (se_rx se))\<lparr>queue := q\<rparr>"
  let ?s = "set_chan (se_rx se) ?c s" and ?se = "se\<lparr>se_wire := se_wire se @ [m]\<rparr>"
  have step: "session_step sv (Tick ti) (se, s) = (?se, ?s)"
    using Cons.prems
    by (simp add: tis session_step_def loop_step_def try_recv_def pop_def push_frame_def send_message_def)
  have "\<exists>c. session_run sv (map Tick tis') (?se, ?s) =
      (?se\<lparr>se_wire := se_wire ?se @ q\<rparr>, set_chan (se_rx ?se) c ?s) \<and> queue c = []"
    using Cons.prems by (intro Cons.IH) (auto simp: tis set_chan_def)
  then show ?case
    by (simp add: tis session_run_def step set_chan_def)
qed


text \<open>A session whose flag is raised, with one frame queued and a request waiting at the door.\<close>

definition flagged_srv :: "unit srv" where
  "flagged_srv = sample_srv\<lparr>srv_world := (srv_world sample_srv)
     \<lparr>ends := (\<lambda>_. True), chans := (\<lambda>_. (channel 4)\<lparr>queue := [Close None]\<rparr>)\<rparr>\<rparr>"

theorem flagged_session_serves_nothing_witness:
  "replies (snd (session_run echo_server (replicate 9 (Tick sample_tick)) (session_new 0 0 0 0 0, flagged_srv))) = []"
proof -
  obtain se s where r: "session_run echo_server (replicate 9 (Tick sample_tick)) (session_new 0 0 0 0 0, flagged_srv) = (se, s)"
    by force
  from flagged_session_serves_nothing [OF r] r show ?thesis
    by (simp add: flagged_srv_def sample_srv_def)
qed


end
