(* ===== verification/Server.thy ===== *)
theory Server
  imports Session_Loop "HOL-Library.Multiset"
begin

text \<open>
  \<open>src/libs/ws/server.rs\<close> from registration to the accept loop: the builder methods of
  \<open>WebsocketServer\<close>, the startup checks, the life of one connection (\<open>serve_connection\<close> with its
  cleanup) and the accept loop of a shard. The auth controller is the application's. A connection's
  session is a run of \<open>Session_Loop\<close>; whatever drops its future early (a timeout, shutdown) is the
  end of the list of events. Handlers, queues and connections are addresses the caller picks fresh.
\<close>

section \<open>Building a server\<close>

type_synonym 'u auth_controller =
  "toolbox \<Rightarrow> string \<Rightarrow> nat \<Rightarrow> 'u site \<Rightarrow> 'u site \<times> (unit, string) result"

record 'u web_server = "'u server" +
  server_auth :: "'u auth_controller"
  server_upgrader :: bool

text \<open>\<open>SimpleAuthController\<close> lets everybody in; the upgrader is there when the crate is built with \<open>ws\<close>.\<close>

definition simple_auth :: "'u auth_controller" where
  "simple_auth toolbox header conn a = (a, Ok ())"

definition server_new :: "serde \<Rightarrow> bool \<Rightarrow> ws_server_config \<Rightarrow> 'u web_server" where
  "server_new sd ws cfg =
     \<lparr>server_config = cfg, server_toolbox = toolbox_new, server_handlers = Map.empty,
      server_impl = (\<lambda>_. Manual (\<lambda>_ _ a. a)), server_hooks = hooks_default, server_mcp = None,
      server_serde = sd, server_auth = simple_auth, server_upgrader = ws\<rparr>"

definition add_before_hook :: "'u before_request \<Rightarrow> 'u web_server \<Rightarrow> 'u web_server" where
  "add_before_hook h sv = sv\<lparr>server_hooks := (server_hooks sv)\<lparr>hk_before := hk_before (server_hooks sv) @ [h]\<rparr>\<rparr>"

definition add_after_hook :: "'u after_request \<Rightarrow> 'u web_server \<Rightarrow> 'u web_server" where
  "add_after_hook h sv = sv\<lparr>server_hooks := (server_hooks sv)\<lparr>hk_after := hk_after (server_hooks sv) @ [h]\<rparr>\<rparr>"

definition add_on_connect_hook :: "'u on_connect \<Rightarrow> 'u web_server \<Rightarrow> 'u web_server" where
  "add_on_connect_hook h sv =
     sv\<lparr>server_hooks := (server_hooks sv)\<lparr>hk_on_connect := hk_on_connect (server_hooks sv) @ [h]\<rparr>\<rparr>"

definition add_on_disconnect_hook :: "'u on_disconnect \<Rightarrow> 'u web_server \<Rightarrow> 'u web_server" where
  "add_on_disconnect_hook h sv =
     sv\<lparr>server_hooks := (server_hooks sv)\<lparr>hk_on_disconnect := hk_on_disconnect (server_hooks sv) @ [h]\<rparr>\<rparr>"

definition set_auth_controller :: "'u auth_controller \<Rightarrow> 'u web_server \<Rightarrow> 'u web_server" where
  "set_auth_controller a sv = sv\<lparr>server_auth := a\<rparr>"

definition set_upgrader :: "'u web_server \<Rightarrow> 'u web_server" where
  "set_upgrader sv = sv\<lparr>server_upgrader := True\<rparr>"

text \<open>An endpoint registered twice panics, with the code and the name of the one it displaced.\<close>

definition add_handler_erased ::
  "endpoint_schema \<Rightarrow> u32 list \<Rightarrow> nat \<Rightarrow> 'u request_handler_erased \<Rightarrow> 'u web_server \<Rightarrow> ('u web_server, string) result" where
  "add_handler_erased schema roles r h sv =
     (let old = server_handlers sv (ep_code schema);
          sv = sv\<lparr>server_handlers := (server_handlers sv)(ep_code schema \<mapsto>
                    \<lparr>we_schema = schema, we_handler = r, we_allowed_roles = set roles\<rparr>),
                  server_impl := (server_impl sv)(r := h)\<rparr> in
      case old of
        Some old \<Rightarrow> Err (''Overwriting handler for endpoint '' @ show_nat (unat (ep_code (we_schema old))) @ '' '' @
                      ep_name (we_schema old))
      | None \<Rightarrow> Ok sv)"

definition check_name :: "string \<Rightarrow> string \<Rightarrow> string \<Rightarrow> (unit, string) result" where
  "check_name cat be_name should_name =
     (if \<not> str_contains be_name should_name
      then Err (cat @ '' name should be '' @ should_name @ '' but got '' @ be_name)
      else Ok ())"

text \<open>The two type names are what \<open>std::any::type_name\<close> prints.\<close>

definition check_handler :: "string \<Rightarrow> string \<Rightarrow> endpoint_schema \<Rightarrow> (unit, string) result" where
  "check_handler handler_name request_name schema =
     result_bind (check_name ''Method'' handler_name (''Method'' @ ep_name schema)) (\<lambda>_.
     result_bind (check_name ''Request'' request_name (ep_name schema @ ''Request'')) (\<lambda>_. Ok ()))"

text \<open>\<open>schema\<close> is the parse of \<open>T::Request::SCHEMA\<close>; each \<open>expect\<close> panics with its message.\<close>

definition add_handler ::
  "endpoint_schema option \<Rightarrow> string \<Rightarrow> string \<Rightarrow> u32 list \<Rightarrow> nat \<Rightarrow> 'u request_handler_erased \<Rightarrow> 'u web_server
    \<Rightarrow> ('u web_server, string) result" where
  "add_handler schema handler_name request_name roles r h sv =
     (case schema of
        None \<Rightarrow> Err ''Invalid schema''
      | Some schema \<Rightarrow>
          (case check_handler handler_name request_name schema of
             Err e \<Rightarrow> Err (''Invalid handler: '' @ e)
           | Ok _ \<Rightarrow> add_handler_erased schema roles r h sv))"

text \<open>\<open>endpoints\<close> are the values of the handler map in the order it yields them.\<close>

definition enable_mcp ::
  "casing \<Rightarrow> ws_endpoint list \<Rightarrow> type_registry \<Rightarrow> nat \<Rightarrow> mcp_server_info \<Rightarrow> 'u web_server
    \<Rightarrow> ('u web_server, schema_error) result" where
  "enable_mcp cc endpoints reg n info sv =
     result_map (\<lambda>st. sv\<lparr>server_mcp := Some st\<rparr>) (build cc endpoints reg n info)"

definition validate_protocol_mode :: "'u web_server \<Rightarrow> (unit, string) result" where
  "validate_protocol_mode sv =
     (if mcp_only (server_config sv) \<and> server_mcp sv = None
      then Err ''mcp_only requires enable_mcp before serving connections'' else Ok ())"

definition refuse_tls_config :: "'u web_server \<Rightarrow> (unit, string) result" where
  "refuse_tls_config sv =
     (if pub_certs (server_config sv) \<noteq> None \<or> priv_key (server_config sv) \<noteq> None
      then Err ''pub_certs/priv_key are set, but this server no longer serves TLS. Terminate TLS at the edge (fly.io `[http_service]` with force_https = true, plain to internal_port) and remove both fields.''
      else Ok ())"

definition prepare :: "'u web_server \<Rightarrow> 'u web_server" where
  "prepare sv =
     sv\<lparr>server_toolbox := set_ws_states (header_only (server_config sv))
          (drop_conn_on_buffer_full (server_config sv)) (server_toolbox sv)\<rparr>"

text \<open>\<open>serve_with\<close> up to its loop, and \<open>listen_on\<close> up to the binding of its address.\<close>

definition serve_with_start :: "'u web_server \<Rightarrow> ('u web_server, string) result" where
  "serve_with_start sv = result_bind (validate_protocol_mode sv) (\<lambda>_. Ok (prepare sv))"

section \<open>Addresses and shards\<close>

text \<open>\<open>rsplit_once(':')\<close>.\<close>

fun rsplit_colon :: "string \<Rightarrow> (string \<times> string) option" where
  "rsplit_colon [] = None"
| "rsplit_colon (c # s) =
     (case rsplit_colon s of
        Some (a, b) \<Rightarrow> Some (c # a, b)
      | None \<Rightarrow> if c = CHR '':'' then Some ([], s) else None)"

definition strip_brackets :: "string \<Rightarrow> string option" where
  "strip_brackets s =
     (case s of
        c # t \<Rightarrow> if c = CHR ''['' \<and> t \<noteq> [] \<and> last t = CHR '']'' then Some (butlast t) else None
      | [] \<Rightarrow> None)"

definition split_host_port :: "string \<Rightarrow> (string \<times> u16, string) result" where
  "split_host_port addr =
     (case rsplit_colon addr of
        None \<Rightarrow> Err (''address has no port: '' @ addr)
      | Some (host, port) \<Rightarrow>
          (case parse_unsigned 65535 port of
             None \<Rightarrow> Err (''address has no usable port: '' @ addr)
           | Some p \<Rightarrow> Ok (case strip_brackets host of Some h \<Rightarrow> h | None \<Rightarrow> host, word_of_nat p)))"

definition listen_start :: "'u web_server \<Rightarrow> (string \<times> u16, string) result" where
  "listen_start sv =
     result_bind (validate_protocol_mode sv) (\<lambda>_.
     result_bind (refuse_tls_config sv) (\<lambda>_.
     split_host_port (address (server_config sv))))"

text \<open>
  The two files as their contents, \<open>None\<close> when they cannot be read. The kernel keeps both
  values far below the range of \<open>i64\<close>, in which the sum is computed.
\<close>

definition read_cgroup_v1_quota :: "string option \<Rightarrow> string option \<Rightarrow> nat option" where
  "read_cgroup_v1_quota quota_file period_file =
     (case Option.bind quota_file (\<lambda>f. parse_i64 (trim f)) of
        None \<Rightarrow> None
      | Some quota \<Rightarrow>
          if quota \<le> 0 then None
          else case Option.bind period_file (\<lambda>f. parse_i64 (trim f)) of
            None \<Rightarrow> None
          | Some period \<Rightarrow>
              if period \<le> 0 then None else Some (nat ((quota + period - 1) div period)))"

definition shard_count :: "string option \<Rightarrow> nat option \<Rightarrow> nat option \<Rightarrow> nat" where
  "shard_count ws_shards cgroup parallelism =
     (case Option.bind ws_shards (\<lambda>v. case parse_unsigned (2 ^ 64 - 1) (trim v) of Some n \<Rightarrow> if n > 0 then Some n else None | None \<Rightarrow> None) of
        Some n \<Rightarrow> n
      | None \<Rightarrow>
          (case cgroup of
             Some n \<Rightarrow> max n 1
           | None \<Rightarrow> (case parallelism of Some n \<Rightarrow> n | None \<Rightarrow> 1)))"

section \<open>One connection\<close>

text \<open>
  \<open>dump_schemas\<close> writes the names of the endpoints, in order, to a file. \<open>eps\<close> are the handlers in the order
  the hash map gives them; creating a directory or a file and writing are the operating system's.
\<close>

definition dump_schemas ::
  "(string \<Rightarrow> 'k \<Rightarrow> 'k) \<Rightarrow> (string \<Rightarrow> 'k \<Rightarrow> 'k \<times> (unit, 'e) result) \<Rightarrow> (string \<Rightarrow> string list \<Rightarrow> 'k \<Rightarrow> 'k \<times> (unit, 'e) result)
    \<Rightarrow> ws_endpoint list \<Rightarrow> 'u web_server \<Rightarrow> 'k \<Rightarrow> 'k \<times> (unit, 'e) result" where
  "dump_schemas create_dir_all create write eps sv k =
     (let k = create_dir_all ''docs'' k;
          file = ''docs/'' @ cfg_name (server_config sv) @ ''_alive_endpoints.json'';
          available_schemas = sort (map (\<lambda>x. ep_name (we_schema x)) eps) in
      case create file k of
        (k, Err e) \<Rightarrow> (k, Err e)
      | (k, Ok _) \<Rightarrow> write file available_schemas k)"

text \<open>Whatever the order of the hash map, the same names are written.\<close>

lemma dump_schemas_order:
  "mset eps = mset eps' \<Longrightarrow> dump_schemas mkdir create write eps sv k = dump_schemas mkdir create write eps' sv k"
proof -
  assume "mset eps = mset eps'"
  then have "sort (map (\<lambda>x. ep_name (we_schema x)) eps) = sort (map (\<lambda>x. ep_name (we_schema x)) eps')"
    by (metis mset_map mset_sort properties_for_sort sorted_sort)
  then show ?thesis by (simp only: dump_schemas_def)
qed

record conn_refs =
  cr_id :: connection_id
  cr_log_id :: u64
  cr_conn :: nat
  cr_queue :: nat
  cr_end :: nat
  cr_waker :: waker

text \<open>
  \<open>ConnectionCleanup\<close>: the table entry goes at once, the hooks run on a task of their own; \<open>reactor_ok\<close> is
  whether that task got a reactor.
\<close>

definition cleanup_dispatch :: "'u web_server \<Rightarrow> connection_id \<Rightarrow> peer_identity \<Rightarrow> bool \<Rightarrow> 'u srv \<Rightarrow> 'u srv" where
  "cleanup_dispatch sv c peer reactor_ok s =
     (let s = s\<lparr>srv_world := states_remove c (srv_world s)\<rparr> in
      if hk_on_disconnect (server_hooks sv) = [] then s
      else if reactor_ok then at_site (run_on_disconnect (server_hooks sv) c peer) s else s)"

definition with_deadline :: "nat option \<Rightarrow> bool \<Rightarrow> 'r \<Rightarrow> ('r, string) result" where
  "with_deadline limit late r =
     (case limit of Some _ \<Rightarrow> if late then Err ''connection deadline exceeded'' else Ok r | None \<Rightarrow> Ok r)"

text \<open>The session of a registered connection; its future may be dropped before the loop ends.\<close>

definition run_session_connection ::
  "'u web_server \<Rightarrow> conn_refs \<Rightarrow> nat \<Rightarrow> 'u event list \<Rightarrow> 'u srv \<Rightarrow> 'u srv" where
  "run_session_connection sv cr now evs s =
     (let se = session_new (cr_conn cr) (cr_queue cr) (cr_end cr) (cr_waker cr) now;
          se = (case get_state (srv_world s) (cr_id cr) of Some st \<Rightarrow> bind_end (ss_end st) se | None \<Rightarrow> se) in
      case session_run (server.truncate sv) evs (se, s) of
        (se, s) \<Rightarrow> if se_pc se = Ended then s else snd (close_session se s))"

definition register_connection :: "'u web_server \<Rightarrow> conn_refs \<Rightarrow> peer_identity \<Rightarrow> ext \<Rightarrow> 'u srv \<Rightarrow> 'u srv" where
  "register_connection sv cr peer extensions s =
     (let conn = \<lparr>wc_connection_id = cr_id cr, wc_user_id = 0, wc_roles = [], wc_peer = peer,
                  wc_extensions = extensions, wc_log_id = cr_log_id cr\<rparr>;
          w = srv_world s;
          w = w\<lparr>conns := (conns w)(cr_conn cr := conn),
                chans := (chans w)(cr_queue cr := channel (message_buffer_size (server_config sv)))\<rparr> in
      s\<lparr>srv_world := states_insert (cr_id cr) (cr_queue cr) (cr_conn cr) (cr_end cr) w\<rparr>)"

text \<open>
  What authentication met: the site it left and its answer, or, with a handshake timeout, that its
  deadline passed first. \<open>late\<close> is then what the controller had done by the time its future was dropped.
\<close>

definition authenticate ::
  "'u web_server \<Rightarrow> conn_refs \<Rightarrow> string option \<Rightarrow> ('u site \<Rightarrow> 'u site) option \<Rightarrow> 'u srv
    \<Rightarrow> 'u srv \<times> (unit, string) result" where
  "authenticate sv cr protocol late s =
     (case (handshake_timeout (server_config sv), late) of
        (Some _, Some part) \<Rightarrow> (at_site part s, Err ''connection deadline exceeded'')
      | _ \<Rightarrow> on_site (server_auth sv (server_toolbox sv) (case protocol of Some p \<Rightarrow> p | None \<Rightarrow> []) (cr_conn cr)) s)"

definition serve_connection ::
  "'u web_server \<Rightarrow> conn_refs \<Rightarrow> peer_identity \<Rightarrow> string option \<Rightarrow> ('u site \<Rightarrow> 'u site) option \<Rightarrow> nat
    \<Rightarrow> 'u event list \<Rightarrow> bool \<Rightarrow> 'u srv \<Rightarrow> 'u srv" where
  "serve_connection sv cr peer protocol late now evs reactor_ok s =
     (case on_site (run_on_connect (server_hooks sv) peer ext_new) s of
        (s, _, Err _) \<Rightarrow> s
      | (s, extensions, Ok _) \<Rightarrow>
          (case authenticate sv cr protocol late (register_connection sv cr peer extensions s) of
             (s, Ok _) \<Rightarrow> cleanup_dispatch sv (cr_id cr) peer reactor_ok (run_session_connection sv cr now evs s)
           | (s, Err err) \<Rightarrow>
               (let raw_ctx = from_conn (conns (srv_world s) (cr_conn cr));
                    s = srv_send (server.truncate sv) (rc_connection_id raw_ctx)
                          (error_response raw_ctx BAD_REQUEST (kind_message BAD_REQUEST err)) s;
                    s = s\<lparr>srv_world := (case get_state (srv_world s) (cr_id cr) of
                            Some st \<Rightarrow> cancel_end (Some (ss_end st)) (srv_world s) | None \<Rightarrow> srv_world s)\<rparr> in
                cleanup_dispatch sv (cr_id cr) peer reactor_ok (run_session_connection sv cr now evs s))))"

section \<open>The accept loop\<close>

text \<open>
  \<open>serve_with\<close> and \<open>serve_shard\<close>: one accept at a time, connections polled beside it. \<open>ac_live\<close> are
  the slots of the connections being served; a failed accept is retried after a growing pause. Only a
  shard can be stopped.
\<close>

record acceptor =
  ac_backoff :: nat
  ac_retry_at :: "nat option"
  ac_live :: "limit_slot list"
  ac_running :: bool

definition acceptor_new :: acceptor where
  "acceptor_new = \<lparr>ac_backoff = from_millis 10, ac_retry_at = None, ac_live = [], ac_running = True\<rparr>"

datatype accept_event = Accepted | AcceptFailed nat | ConnectionDone nat | Stop

definition accept_step ::
  "ws_server_config \<Rightarrow> accept_event \<Rightarrow> acceptor \<times> server_limit_state \<times> limit_event list
    \<Rightarrow> acceptor \<times> server_limit_state \<times> limit_event list" where
  "accept_step cfg ev = (\<lambda>(ac, lim, evs).
     if \<not> ac_running ac then (ac, lim, evs)
     else case ev of
       AcceptFailed now \<Rightarrow>
         (ac\<lparr>ac_retry_at := Some (now + ac_backoff ac), ac_backoff := min (ac_backoff ac * 2) (from_secs 1)\<rparr>, lim, evs)
     | Accepted \<Rightarrow>
         (let ac = ac\<lparr>ac_retry_at := None, ac_backoff := from_millis 10\<rparr> in
          case acquire lim cfg ''connections'' of
            (lim, ok, e) \<Rightarrow>
              (if ok then ac\<lparr>ac_live := ac_live ac @ [''connections'']\<rparr> else ac, lim, evs @ e))
     | ConnectionDone i \<Rightarrow>
         if i < length (ac_live ac)
         then (ac\<lparr>ac_live := remove_nth i (ac_live ac)\<rparr>, slot_drop (ac_live ac ! i) lim, evs) else (ac, lim, evs)
     | Stop \<Rightarrow> (ac\<lparr>ac_live := [], ac_running := False\<rparr>, fold slot_drop (ac_live ac) lim, evs))"

definition accept_run ::
  "ws_server_config \<Rightarrow> accept_event list \<Rightarrow> acceptor \<times> server_limit_state \<times> limit_event list
    \<Rightarrow> acceptor \<times> server_limit_state \<times> limit_event list" where
  "accept_run cfg evs = fold (accept_step cfg) evs"

section \<open>A built server\<close>

text \<open>The servers the builder methods make, in any order of calls.\<close>

inductive built :: "'u web_server \<Rightarrow> bool" where
  built_new: "built (server_new sd ws cfg)"
| built_before: "built sv \<Longrightarrow> built (add_before_hook b sv)"
| built_after: "built sv \<Longrightarrow> built (add_after_hook a sv)"
| built_connect: "built sv \<Longrightarrow> built (add_on_connect_hook oc sv)"
| built_disconnect: "built sv \<Longrightarrow> built (add_on_disconnect_hook od sv)"
| built_auth: "built sv \<Longrightarrow> built (set_auth_controller ac sv)"
| built_upgrader: "built sv \<Longrightarrow> built (set_upgrader sv)"
| built_handler: "built sv \<Longrightarrow> add_handler_erased schema roles r h sv = Ok sv' \<Longrightarrow> built sv'"
| built_mcp: "built sv \<Longrightarrow> set eps = ran (server_handlers sv) \<Longrightarrow> enable_mcp cc eps reg n info sv = Ok sv' \<Longrightarrow> built sv'"
| built_prepare: "built sv \<Longrightarrow> built (prepare sv)"

definition handlers_keyed :: "('u, 'z) server_scheme \<Rightarrow> bool" where
  "handlers_keyed sv \<longleftrightarrow> (\<forall>c e. server_handlers sv c = Some e \<longrightarrow> ep_code (we_schema e) = c)"

lemma server_truncate_simps [simp]:
  "server_config (server.truncate sv) = server_config sv" "server_hooks (server.truncate sv) = server_hooks sv"
  "server_handlers (server.truncate sv) = server_handlers sv" "server_mcp (server.truncate sv) = server_mcp sv"
  "server_toolbox (server.truncate sv) = server_toolbox sv" "server_serde (server.truncate sv) = server_serde sv"
  "server_impl (server.truncate sv) = server_impl sv"
  by (simp_all add: server.truncate_def)

lemmas builder_defs =
  add_before_hook_def add_after_hook_def add_on_connect_hook_def add_on_disconnect_hook_def
  set_auth_controller_def set_upgrader_def prepare_def

lemma mcp_from_handlers_mono:
  assumes "mcp_from_handlers sv" and "server_mcp sv' = server_mcp sv" and "server_handlers sv \<subseteq>\<^sub>m server_handlers sv'"
  shows "mcp_from_handlers sv'"
  unfolding mcp_from_handlers_def
proof (intro allI impI)
  fix st assume "server_mcp sv' = Some st"
  with assms(2) have "server_mcp sv = Some st" by simp
  with assms(1) obtain cc eps reg n info where "build cc eps reg n info = Ok st"
    and e: "\<forall>e \<in> set eps. server_handlers sv (ep_code (we_schema e)) = Some e"
    unfolding mcp_from_handlers_def by blast
  moreover have "server_handlers sv' (ep_code (we_schema e)) = Some e" if "e \<in> set eps" for e
    using bspec [OF e that] assms(3) by (simp add: map_le_def dom_def)
  ultimately show "\<exists>cc eps reg n info. build cc eps reg n info = Ok st \<and>
      (\<forall>e \<in> set eps. server_handlers sv' (ep_code (we_schema e)) = Some e)" by blast
qed

lemma add_handler_erased_Ok:
  assumes "add_handler_erased schema roles r h sv = Ok sv'"
  shows "server_handlers sv (ep_code schema) = None \<and>
    server_handlers sv' = (server_handlers sv)(ep_code schema \<mapsto>
        \<lparr>we_schema = schema, we_handler = r, we_allowed_roles = set roles\<rparr>) \<and> server_mcp sv' = server_mcp sv"
proof (cases "server_handlers sv (ep_code schema)")
  case None
  then have "sv' = sv\<lparr>server_handlers := (server_handlers sv)(ep_code schema \<mapsto>
      \<lparr>we_schema = schema, we_handler = r, we_allowed_roles = set roles\<rparr>),
      server_impl := (server_impl sv)(r := h)\<rparr>"
    using assms unfolding add_handler_erased_def Let_def by simp
  with None show ?thesis by simp
qed (use assms in \<open>simp add: add_handler_erased_def Let_def\<close>)

lemma built_invariant: "built sv \<Longrightarrow> handlers_keyed sv \<and> mcp_from_handlers (server.truncate sv)"
proof (induction rule: built.induct)
  case (built_handler sv schema roles r h sv')
  from add_handler_erased_Ok [OF built_handler(2)]
  have fresh: "server_handlers sv (ep_code schema) = None"
    and sv': "server_handlers sv' = (server_handlers sv)(ep_code schema \<mapsto>
        \<lparr>we_schema = schema, we_handler = r, we_allowed_roles = set roles\<rparr>)" "server_mcp sv' = server_mcp sv"
    by blast+
  have "mcp_from_handlers (server.truncate sv')"
    using built_handler.IH fresh
    by - (rule mcp_from_handlers_mono [of "server.truncate sv"], auto simp: sv' map_le_def)
  with built_handler.IH show ?case by (auto simp: handlers_keyed_def sv')
next
  case (built_mcp sv eps cc reg n info sv')
  then obtain st where b: "build cc eps reg n info = Ok st" and sv': "sv' = sv\<lparr>server_mcp := Some st\<rparr>"
    by (auto simp: enable_mcp_def)
  have "server_handlers sv (ep_code (we_schema e)) = Some e" if "e \<in> set eps" for e
  proof -
    from that built_mcp(2) obtain c where "server_handlers sv c = Some e" by (auto simp: ran_def)
    with built_mcp.IH show ?thesis by (auto simp: handlers_keyed_def)
  qed
  then have "\<forall>e \<in> set eps. server_handlers sv (ep_code (we_schema e)) = Some e" by blast
  with b have "mcp_from_handlers (server.truncate sv')"
    unfolding mcp_from_handlers_def sv' by simp blast
  with built_mcp.IH show ?case by (simp add: sv' handlers_keyed_def)
qed (auto simp: server_new_def handlers_keyed_def mcp_from_handlers_def builder_defs)

text \<open>
  C15. Whatever the order of the builder calls, the server that comes out is coherent: every handler
  is registered under its endpoint's own code, and if MCP is enabled each of its tools belongs to a
  registered endpoint, of which it has the code and the roles. So the role gate of the session holds
  for the tools as for the methods, without further assumptions; a server that passed
  \<open>validate_protocol_mode\<close> in MCP-only mode moreover has the tool table.
\<close>
theorem built_server_coherent:
  assumes "built sv"
  shows "handlers_keyed sv \<and> mcp_from_handlers (server.truncate sv) \<and>
    (serve_with_start sv = Ok sv' \<longrightarrow> (mcp_only (server_config sv') \<longrightarrow> server_mcp sv' \<noteq> None) \<and> built sv')"
  using built_invariant [OF assms] built_prepare [OF assms]
  by (auto simp: serve_with_start_def validate_protocol_mode_def prepare_def split: if_splits)

section \<open>The life of a connection\<close>

lemma run_session_inflight:
  assumes "mcp_from_handlers (server.truncate sv)"
  shows "inflight (srv_limits (run_session_connection sv cr now evs s)) = inflight (srv_limits s)"
proof -
  let ?se = "session_new (cr_conn cr) (cr_queue cr) (cr_end cr) (cr_waker cr) now"
  let ?se1 = "case get_state (srv_world s) (cr_id cr) of Some st \<Rightarrow> bind_end (ss_end st) ?se | None \<Rightarrow> ?se"
  have t: "se_tasks ?se1 = []" "se_pc ?se1 = LoopTop"
    by (simp_all add: session_new_def bind_end_def split: option.split)
  obtain se s1 where r: "session_run (server.truncate sv) evs (?se1, s) = (se, s1)" by force
  obtain se2 s2 where c: "close_session se s1 = (se2, s2)" by force
  have "slots_hold (server.truncate sv) (inflight (srv_limits s)) se s1"
    by (rule slots.keep_run [OF _ r]) (simp add: slots_hold_def slots_inv_def t)
  with assms have inv: "slots_inv (inflight (srv_limits s)) se s1" by (simp add: slots_hold_def)
  have "ended_idle se s1"
    by (rule ended.keep_run [OF _ r]) (simp add: ended_idle_def t)
  with inv slots_inv_close [OF inv c] r c show ?thesis
    by (cases "se_pc se = Ended") (auto simp: run_session_connection_def slots_inv_def ended_idle_def)
qed

lemma run_session_barred:
  assumes "get_state (srv_world s) (cr_id cr) = Some st" and "ends (srv_world s) (ss_end st)"
    and "\<forall>ev \<in> set evs. keeps_flag (ss_end st) ev"
  shows "replies (run_session_connection sv cr now evs s) = replies s \<and>
    srv_limits (run_session_connection sv cr now evs s) = srv_limits s"
proof -
  let ?se = "bind_end (ss_end st) (session_new (cr_conn cr) (cr_queue cr) (cr_end cr) (cr_waker cr) now)"
  obtain se s1 where r: "session_run (server.truncate sv) evs (?se, s) = (se, s1)" by force
  have "barred (ss_end st) s ?se s"
    using assms(2) by (simp add: barred_def session_new_def bind_end_def)
  from barred_run [OF this r assms(3)] have b: "barred (ss_end st) s se s1" .
  obtain se2 s2 where c: "close_session se s1 = (se2, s2)" by force
  have "barred (ss_end st) s se2 s2" by (rule barred_close [OF b c]) simp_all
  with b r c assms(1) show ?thesis
    by (auto simp: run_session_connection_def barred_def)
qed

lemma cleanup_simps:
  "srv_limits (cleanup_dispatch sv c peer ok s) = srv_limits s" "replies (cleanup_dispatch sv c peer ok s) = replies s"
  by (simp_all add: cleanup_dispatch_def Let_def)

text \<open>The guard takes the entry out first; then the hooks run, with nothing there to be found.\<close>

lemma cleanup_conv:
  "cleanup_dispatch sv c peer ok s =
     (let s = s\<lparr>srv_world := states_remove c (srv_world s)\<rparr> in
      if ok then at_site (run_on_disconnect (server_hooks sv) c peer) s else s)"
  by (simp add: cleanup_dispatch_def run_on_disconnect_def at_site_def Let_def)

text \<open>A disconnect hook that does not enter its connection again.\<close>

definition lets_go :: "'u on_disconnect \<Rightarrow> bool" where
  "lets_go hook \<longleftrightarrow> (\<forall>c peer a. states (fst a) c = None \<longrightarrow> states (fst (hook c peer a)) c = None)"

lemma lets_go_all:
  assumes "\<forall>hook \<in> set hs. lets_go hook"
  shows "states (fst a) c = None \<Longrightarrow> states (fst (fold (\<lambda>hook. hook c peer) hs a)) c = None"
  using assms by (induction hs arbitrary: a) (simp_all add: lets_go_def del: split_paired_All)

lemma at_site_states: "states (srv_world (at_site f s)) = states (fst (f (srv_world s, srv_app s)))"
  by (simp add: at_site_def case_prod_beta)

lemma registered: "states (srv_world (register_connection sv cr peer ext s)) (cr_id cr) =
    Some \<lparr>ss_conn = cr_conn cr, ss_message_queue = cr_queue cr, ss_end = cr_end cr\<rparr>"
  by (simp add: register_connection_def states_insert_def Let_def)

lemma registered_frame [simp]:
  "srv_limits (register_connection sv cr peer ext s) = srv_limits s"
  "replies (register_connection sv cr peer ext s) = replies s"
  by (simp_all add: register_connection_def Let_def)

lemma on_site_frame:
  "on_site f s = (s', r) \<Longrightarrow> srv_limits s' = srv_limits s \<and> replies s' = replies s"
  using on_site_simps(1,3) by (metis fst_conv)

lemma authenticate_frame:
  "authenticate sv cr p late s = (s', r) \<Longrightarrow> srv_limits s' = srv_limits s \<and> replies s' = replies s"
  by (auto simp: authenticate_def dest: on_site_frame split: option.splits)

lemma states_send [simp]: "states (srv_world (srv_send sv c r s)) = states (srv_world s)"
  by (auto simp: srv_send_def reply_send_def send_def send_fn_def enqueue_effect split: option.split)


lemma serve_connection_admitted:
  assumes "on_site (run_on_connect (server_hooks sv) peer ext_new) s = (s1, ext, Ok ())"
  shows "\<exists>x. serve_connection sv cr peer protocol late now evs ok s =
    cleanup_dispatch sv (cr_id cr) peer ok (run_session_connection sv cr now evs x) \<and> srv_limits x = srv_limits s"
proof -
  obtain s2 a where au: "authenticate sv cr protocol late (register_connection sv cr peer ext s1) = (s2, a)" by force
  with assms on_site_frame [OF assms] authenticate_frame [OF au] show ?thesis
    by (cases a) (auto simp: serve_connection_def Let_def)
qed

text \<open>
  C11. A connection leaves nothing behind. Whether it is refused by a hook, fails authentication or
  ends its session, however and whenever that is, the in-flight counter is back where it was. A
  connection that the connect hooks refuse changes nothing after them. Every other connection is taken out of the table
  before the disconnect hooks run: they run, if there is a reactor for them, on a state \<open>x\<close> without
  an entry for it, and what they leave is how the connection leaves the server. So it is out of the table at the
  end, whatever hooks there are, unless one of them enters it again.
\<close>
theorem connection_leaves_nothing:
  assumes "mcp_from_handlers (server.truncate sv)"
    and "on_site (run_on_connect (server_hooks sv) peer ext_new) s = (s1, ext, r)"
  shows "let s' = serve_connection sv cr peer protocol late now evs ok s in
    inflight (srv_limits s') = inflight (srv_limits s) \<and>
    (\<forall>e. r = Err e \<longrightarrow> s' = s1) \<and>
    (r = Ok () \<longrightarrow>
       (\<exists>x. states (srv_world x) (cr_id cr) = None \<and>
          s' = (if ok then at_site (run_on_disconnect (server_hooks sv) (cr_id cr) peer) x else x))) \<and>
    (r = Ok () \<and> (ok \<longrightarrow> (\<forall>hook \<in> set (hk_on_disconnect (server_hooks sv)). lets_go hook)) \<longrightarrow>
       states (srv_world s') (cr_id cr) = None)"
proof (cases r)
  case (Err e)
  with assms(2) on_site_frame [OF assms(2)] show ?thesis by (simp add: serve_connection_def)
next
  case (Ok u)
  then have oc: "on_site (run_on_connect (server_hooks sv) peer ext_new) s = (s1, ext, Ok ())" using assms(2) by simp
  obtain x where x: "serve_connection sv cr peer protocol late now evs ok s =
      cleanup_dispatch sv (cr_id cr) peer ok (run_session_connection sv cr now evs x)" "srv_limits x = srv_limits s"
    using serve_connection_admitted [OF oc] by blast
  let ?y = "run_session_connection sv cr now evs x"
  obtain z where z_def: "z = ?y\<lparr>srv_world := states_remove (cr_id cr) (srv_world ?y)\<rparr>" by blast
  have z: "states (srv_world z) (cr_id cr) = None" by (simp add: z_def states_remove_def)
  have s': "serve_connection sv cr peer protocol late now evs ok s =
      (if ok then at_site (run_on_disconnect (server_hooks sv) (cr_id cr) peer) z else z)"
    by (simp add: x(1) cleanup_conv z_def)
  have "states (srv_world (at_site (run_on_disconnect (server_hooks sv) (cr_id cr) peer) z)) (cr_id cr) = None"
    if "\<forall>hook \<in> set (hk_on_disconnect (server_hooks sv)). lets_go hook"
    using lets_go_all [OF that, of "(srv_world z, srv_app z)" "cr_id cr" peer] z
    by (simp add: at_site_states run_on_disconnect_def)
  moreover have "inflight (srv_limits (serve_connection sv cr peer protocol late now evs ok s)) = inflight (srv_limits s)"
    using run_session_inflight [OF assms(1)] x by (simp add: cleanup_simps)
  ultimately show ?thesis
    using z s' Ok unfolding Let_def by (cases ok) auto
qed

section \<open>The accept loop: invariants\<close>

definition accept_inv :: "usize \<Rightarrow> acceptor \<Rightarrow> server_limit_state \<Rightarrow> bool" where
  "accept_inv base ac lim \<longleftrightarrow>
     (\<forall>sl \<in> set (ac_live ac). sl = ''connections'') \<and>
     connections lim = base + word_of_nat (length (ac_live ac)) \<and>
     from_millis 10 \<le> ac_backoff ac \<and> ac_backoff ac \<le> from_secs 1 \<and>
     (\<not> ac_running ac \<longrightarrow> ac_live ac = [])"

lemma acquire_connections:
  assumes "acquire lim cfg ''connections'' = (lim', ok, evs)"
  shows "connections lim' = (if ok then connections lim + 1 else connections lim) \<and>
    (ok \<longrightarrow> \<not> over_cap (max_connections cfg) (connections lim'))"
proof -
  obtain c w b ev where a: "acquire_counter cfg ''connections'' (max_connections cfg) (warn_connections cfg)
      (connections lim) (warned_connections lim) = (c, w, b, ev)" by (metis prod_cases4)
  with assms have "lim' = lim\<lparr>connections := c, warned_connections := w\<rparr>" "b = ok" by (auto simp: acquire_def)
  with a acquire_counter_refused acquire_counter_admitted show ?thesis by (cases ok) fastforce+
qed

lemma drop_all_connections:
  "\<forall>sl \<in> set ls. sl = ''connections'' \<Longrightarrow> connections (fold slot_drop ls lim) = connections lim - word_of_nat (length ls)"
  by (induction ls arbitrary: lim) (auto simp: slot_drop_def)

lemma accept_step_inv:
  assumes inv: "accept_inv base ac lim" and st: "accept_step cfg ev (ac, lim, log) = (ac', lim', log')"
  shows "accept_inv base ac' lim'"
proof (cases "ac_running ac")
  case False
  with inv st show ?thesis by (simp add: accept_step_def)
next
  case True
  show ?thesis
  proof (cases ev)
    case Accepted
    obtain l ok e where a: "acquire lim cfg ''connections'' = (l, ok, e)" by (metis prod_cases3)
    with Accepted True st inv acquire_connections [OF a] show ?thesis
      by (cases ok) (auto simp: accept_step_def accept_inv_def from_millis_def from_secs_def)
  next
    case (AcceptFailed now)
    with True st inv show ?thesis by (auto simp: accept_step_def accept_inv_def from_millis_def from_secs_def)
  next
    case (ConnectionDone i)
    have "connections (slot_drop (ac_live ac ! i) lim) = connections lim - 1" if "i < length (ac_live ac)"
      using inv that by (simp add: accept_inv_def slot_drop_def)
    with ConnectionDone True st inv length_remove_nth [of i "ac_live ac"] set_remove_nth [of i "ac_live ac"]
    show ?thesis by (auto simp: accept_step_def accept_inv_def split: if_splits)
  next
    case Stop
    with True st inv show ?thesis by (auto simp: accept_step_def accept_inv_def drop_all_connections)
  qed
qed

definition accept_capped :: "ws_server_config \<Rightarrow> usize \<Rightarrow> acceptor \<Rightarrow> server_limit_state \<Rightarrow> bool" where
  "accept_capped cfg c ac lim \<longleftrightarrow> accept_inv 0 ac lim \<and> length (ac_live ac) \<le> unat c"

lemma accept_step_capped:
  assumes inv: "accept_capped cfg c ac lim" and st: "accept_step cfg ev (ac, lim, log) = (ac', lim', log')"
    and cap: "max_connections cfg = Some c" "c < - 1"
  shows "accept_capped cfg c ac' lim'"
proof -
  from inv have ai: "accept_inv 0 ac lim" and n: "length (ac_live ac) \<le> unat c" by (auto simp: accept_capped_def)
  have "length (ac_live ac') \<le> unat c"
  proof (cases "ac_running ac \<and> ev = Accepted")
    case True
    obtain l ok e where a: "acquire lim cfg ''connections'' = (l, ok, e)" by (metis prod_cases3)
    have "Suc (length (ac_live ac)) \<le> unat c" if ok
    proof (rule word_of_nat_within [OF n cap(2)])
      have "connections l = word_of_nat (length (ac_live ac)) + 1" "connections l \<le> c"
        using that acquire_connections [OF a] ai cap(1) by (auto simp: accept_inv_def over_cap_def not_less)
      then show "(word_of_nat (length (ac_live ac)) :: usize) + 1 \<le> c" by simp
    qed
    with True a st n show ?thesis by (auto simp: accept_step_def Let_def split: if_splits)
  next
    case False
    have "length (remove_nth i (ac_live ac)) \<le> unat c" for i
      using n by (simp add: remove_nth_def)
    with False st n show ?thesis by (cases ev) (auto simp: accept_step_def split: if_splits)
  qed
  with accept_step_inv [OF ai st] show ?thesis by (simp add: accept_capped_def)
qed

lemma accept_run_snoc: "accept_run cfg (evs @ [ev]) x = accept_step cfg ev (accept_run cfg evs x)"
  by (simp add: accept_run_def)

lemma accept_run_keeps:
  assumes "\<And>ac lim log ev ac' lim' log'. P ac lim \<Longrightarrow> accept_step cfg ev (ac, lim, log) = (ac', lim', log') \<Longrightarrow> P ac' lim'"
    and "P ac0 lim0" and "accept_run cfg evs (ac0, lim0, log0) = (ac, lim, log)"
  shows "P ac lim"
  using assms(3)
proof (induction evs arbitrary: ac lim log rule: rev_induct)
  case (snoc ev evs)
  obtain ac1 lim1 log1 where r: "accept_run cfg evs (ac0, lim0, log0) = (ac1, lim1, log1)" by (metis prod_cases3)
  with snoc.prems have "accept_step cfg ev (ac1, lim1, log1) = (ac, lim, log)" by (simp add: accept_run_snoc)
  with assms(1) [OF snoc.IH [OF r]] show ?case .
qed (use assms(2) in \<open>simp add: accept_run_def\<close>)

lemma min_double: "min (min (b * 2) m * 2 ^ k) m = min (b * 2 ^ Suc k) (m :: nat)"
proof (cases "b * 2 \<le> m")
  case False
  have "m \<le> m * 2 ^ k" by simp
  moreover have "m \<le> b * 2 * 2 ^ k"
    using False by (metis nat_le_linear le_trans mult.right_neutral mult_le_mono2 one_le_numeral one_le_power)
  ultimately show ?thesis using False by (simp add: min_absorb2 mult.assoc)
qed (simp add: min_def mult.assoc)

lemma backoff_failures:
  "ac_running ac \<Longrightarrow> ac_backoff ac \<le> from_secs 1 \<Longrightarrow>
     ac_backoff (fst (accept_run cfg (map AcceptFailed ts) (ac, x))) = min (ac_backoff ac * 2 ^ length ts) (from_secs 1)"
proof (induction ts arbitrary: ac x)
  case (Cons t ts)
  let ?b = "min (ac_backoff ac * 2) (from_secs 1)"
  obtain lim log where x: "x = (lim, log)" by force
  have "accept_run cfg (map AcceptFailed (t # ts)) (ac, x) =
      accept_run cfg (map AcceptFailed ts) (ac\<lparr>ac_retry_at := Some (t + ac_backoff ac), ac_backoff := ?b\<rparr>, x)"
    using Cons.prems(1) by (simp add: accept_run_def accept_step_def x)
  with Cons.IH [of "ac\<lparr>ac_retry_at := Some (t + ac_backoff ac), ac_backoff := ?b\<rparr>" x] Cons.prems show ?case
    by (simp add: min_double del: power_Suc)
qed (simp add: accept_run_def)



section \<open>Witnesses for connections\<close>

text \<open>A server with one role-protected endpoint, and one whose controller turns everybody away.\<close>

definition echo_web :: "unit web_server" where
  "echo_web = server.extend echo_server \<lparr>server_auth = simple_auth, server_upgrader = True\<rparr>"

definition closed_web :: "unit web_server" where
  "closed_web = echo_web\<lparr>server_auth := (\<lambda>toolbox header conn a. (a, Err ''no token''))\<rparr>"

definition sample_refs :: conn_refs where
  "sample_refs = \<lparr>cr_id = 5, cr_log_id = 1, cr_conn = 0, cr_queue = 0, cr_end = 0, cr_waker = 0\<rparr>"

lemma echo_web_truncate: "server.truncate echo_web = echo_server"
  by (simp add: echo_web_def server.defs)

text \<open>The server with a disconnect hook, which reaches the table only through the toolbox and so leaves it alone.\<close>

definition noting_web :: "unit web_server" where
  "noting_web = add_on_disconnect_hook (\<lambda>c peer a. a) echo_web"

lemma noting_web_simps:
  "server_hooks noting_web = hooks_default\<lparr>hk_on_disconnect := [\<lambda>c peer a. a]\<rparr>"
  "server.truncate noting_web = echo_server\<lparr>server_hooks := hooks_default\<lparr>hk_on_disconnect := [\<lambda>c peer a. a]\<rparr>\<rparr>"
  by (simp_all add: noting_web_def add_on_disconnect_hook_def echo_web_def echo_server_def server.defs hooks_default_def)

theorem connection_leaves_nothing_witness:
  "states (srv_world (serve_connection noting_web sample_refs Unknown None None 0 (replicate 4 (Tick sample_tick)) True sample_srv)) 5 = None"
proof -
  have "mcp_from_handlers (server.truncate noting_web)"
    unfolding noting_web_simps by (simp add: mcp_from_handlers_def echo_server_def)
  moreover have "on_site (run_on_connect (server_hooks noting_web) Unknown ext_new) sample_srv = (sample_srv, ext_new, Ok ())"
    unfolding noting_web_simps by (simp add: hooks_default_def run_on_connect_def on_site_def)
  ultimately show ?thesis
    using connection_leaves_nothing [of noting_web Unknown sample_srv sample_srv ext_new "Ok ()" sample_refs None None 0
        "replicate 4 (Tick sample_tick)" True]
    unfolding Let_def noting_web_simps by (simp add: lets_go_def sample_refs_def)
qed


theorem built_server_coherent_witness:
  "\<exists>sv :: unit web_server. add_handler_erased node_endpoint [1] 0 (Typed echo_handler) (server_new sample_serde True default_config) = Ok sv \<and>
     handlers_keyed sv"
proof -
  let ?sv0 = "server_new sample_serde True default_config :: unit web_server"
  obtain sv where sv: "add_handler_erased node_endpoint [1] 0 (Typed echo_handler) ?sv0 = Ok sv"
    by (simp add: add_handler_erased_def server_new_def Let_def)
  from built_server_coherent [OF built_handler [OF built_new sv]] sv show ?thesis by blast
qed

section \<open>Addresses\<close>

lemma rsplit_colon_append: "CHR '':'' \<notin> set p \<Longrightarrow> rsplit_colon (h @ CHR '':'' # p) = Some (h, p)"
proof (induction h)
  case Nil
  have "rsplit_colon p = None" using Nil by (induction p) auto
  then show ?case by simp
qed simp

lemma parse_port: "p < 65536 \<Longrightarrow> parse_unsigned 65535 (show_nat p) = Some p"
  by (rule parse_unsigned_show_nat) simp

lemma show_nat_no_colon: "CHR '':'' \<notin> set (show_nat p)"
  using show_nat_digits [of "CHR '':''" p] by (auto simp: is_digit_def less_eq_char_def)

text \<open>
  The listen address is taken apart the way it is written: \<open>host:port\<close> gives the host and the
  port for every port number and every host, with colons in it or not, and an IPv6 literal loses
  exactly its brackets. A configuration that names a certificate never gets as far as an address.
\<close>
theorem split_host_port_spec:
  assumes "p < 65536"
  shows "split_host_port (host @ CHR '':'' # show_nat p) =
      Ok (case strip_brackets host of Some h \<Rightarrow> h | None \<Rightarrow> host, word_of_nat p) \<and>
    split_host_port (CHR ''['' # h6 @ CHR '']'' # CHR '':'' # show_nat p) = Ok (h6, word_of_nat p) \<and>
    (\<forall>r. listen_start sv = Ok r \<longrightarrow> pub_certs (server_config sv) = None \<and> priv_key (server_config sv) = None)"
proof -
  note r = rsplit_colon_append [OF show_nat_no_colon, of _ p] parse_port [OF assms]
  have "split_host_port (CHR ''['' # h6 @ CHR '']'' # CHR '':'' # show_nat p) = Ok (h6, word_of_nat p)"
    using r(1) [of "CHR ''['' # h6 @ [CHR '']'']"] r(2)
    by (simp add: split_host_port_def strip_brackets_def del: rsplit_colon.simps)
  then show ?thesis
    using r by (auto simp: split_host_port_def listen_start_def refuse_tls_config_def
        simp del: rsplit_colon.simps split: if_splits)
qed

theorem split_host_port_spec_witness:
  "split_host_port ''[::1]:8080'' = Ok (''::1'', 8080)"
proof -
  have "digit_char 8 = CHR ''8''" "digit_char 0 = CHR ''0''" by code_simp+
  then have "show_nat 8080 = ''8080''" by (simp add: show_nat.simps)
  with split_host_port_spec [of 8080 "[]" "''::1''" closed_web] show ?thesis by simp
qed

section \<open>MCP-only servers\<close>

lemma handle_mcp_frame_env:
  "handle_mcp_frame sv conn mcp frame ctx s = (s', Some t) \<Longrightarrow> \<exists>i. tk_env t = McpCall i"
  by (auto simp: handle_mcp_frame_def task_new_def Let_def
      split: result.splits if_splits mcp_action.splits option.splits prod.splits)

text \<open>
  C39. A server in MCP-only mode runs no legacy request: every task comes from a \<open>tools/call\<close>, and
  every frame that is not JSON-RPC is answered with \<open>Invalid Request\<close> and the session goes on. That
  includes pings, pongs and the peer's close frame, which in this mode does not end the session.
\<close>
theorem mcp_only_mode:
  assumes "mcp_only (server_config sv)"
  shows "(\<forall>s' t. handle_message sv conn msg s = (s', DTask t) \<longrightarrow> (\<exists>i. tk_env t = McpCall i)) \<and>
    (rpc_frame sv msg = None \<longrightarrow>
       snd (handle_message sv conn msg s) = DKeep \<and>
       replies (fst (handle_message sv conn msg s)) = replies s @ [(wc_connection_id conn,
         Raw (jsonrpc_error None (rpc_error_new RPC_INVALID_REQUEST
           ''This WebSocket accepts MCP JSON-RPC 2.0 frames only'')))]) \<and>
    rpc_frame sv (Close f) = None"
proof -
  have "\<exists>i. tk_env t = McpCall i" if h: "handle_message sv conn msg s = (s', DTask t)" for s' t
  proof (cases "rpc_frame sv msg")
    case None
    with h assms show ?thesis by (simp add: handle_message_conv Let_def)
  next
    case (Some mf)
    then obtain mcp frame where f: "rpc_frame sv msg = Some (mcp, frame)" by force
    obtain s1 d where m: "handle_mcp_frame sv conn mcp frame (from_conn conn)
        (srv_observe_message sv (message_bytes msg) s) = (s1, d)" by force
    with h f have "d = Some t" by (cases d) (simp_all add: handle_message_conv Let_def)
    with m handle_mcp_frame_env show ?thesis by blast
  qed
  then show ?thesis
    using assms by (auto simp: handle_message_conv Let_def from_conn_def rpc_frame_control)
qed

theorem mcp_only_mode_witness:
  "snd (handle_message (echo_server\<lparr>server_config := default_config\<lparr>mcp_only := True\<rparr>\<rparr>) sample_conn (Close None) sample_srv) = DKeep"
  using mcp_only_mode [of "echo_server\<lparr>server_config := default_config\<lparr>mcp_only := True\<rparr>\<rparr>" sample_conn "Close None" sample_srv None]
  by simp

end
