(* ===== verification/Headers.thy ===== *)
theory Headers
  imports Server
begin

text \<open>
  \<open>src/libs/ws/headers.rs\<close> and \<open>encode_header\<close> of \<open>src/model/endpoint.rs\<close>: authentication through the
  WebSocket subprotocol header. The client writes the name of an auth endpoint and its parameters
  into the header, the server's \<open>EndpointAuthController\<close> takes it apart and calls the endpoint's
  sub-controller. The \<open>urlencoding\<close> and \<open>convert_case\<close> crates and the derived \<open>Debug\<close> of \<open>Type\<close> are the
  fields of \<open>header_lib\<close>; a sub-controller is application code.
\<close>

section \<open>The code\<close>

record header_lib =
  hl_encode :: "string \<Rightarrow> string"
  hl_decode :: "string \<Rightarrow> (string, string) result"
  hl_debug :: "ty \<Rightarrow> string"
  hl_case :: casing

record 'u sub_auth_controller =
  sa_from_value :: "json \<Rightarrow> (json, string) result"
  sa_error_path :: "json \<Rightarrow> string option"
  sa_auth :: "request_context \<Rightarrow> json \<Rightarrow> nat \<Rightarrow> 'u site \<Rightarrow> 'u site \<times> (json option, custom_error handler_error) result"

record 'u ws_auth_controller =
  wa_schema :: endpoint_schema
  wa_handler :: "'u sub_auth_controller"

type_synonym 'u endpoint_auth_controller = "string \<Rightarrow> 'u ws_auth_controller option"

definition eac_new :: "'u endpoint_auth_controller" where "eac_new = Map.empty"

definition add_auth_endpoint ::
  "endpoint_schema \<Rightarrow> 'u sub_auth_controller \<Rightarrow> 'u endpoint_auth_controller \<Rightarrow> 'u endpoint_auth_controller" where
  "add_auth_endpoint schema handler eac =
     eac(to_ascii_lowercase (ep_name schema) \<mapsto> \<lparr>wa_schema = schema, wa_handler = handler\<rparr>)"

text \<open>The erased interface of a sub-controller.\<close>

definition sub_auth ::
  "serde \<Rightarrow> toolbox \<Rightarrow> 'u sub_auth_controller \<Rightarrow> json \<Rightarrow> request_context \<Rightarrow> nat \<Rightarrow> 'u site \<Rightarrow> 'u site" where
  "sub_auth sd tb h param ctx conn a =
     (case sa_from_value h param of
        Err err \<Rightarrow>
          (let message = (case sa_error_path h param of Some p \<Rightarrow> p @ '': '' @ err | None \<Rightarrow> err) in
           (fst (send (sd_frame sd) tb (rc_connection_id ctx)
              (error_response ctx BAD_REQUEST (kind_message BAD_REQUEST message)) (fst a)), snd a))
      | Ok data \<Rightarrow>
          (case sa_auth h ctx data conn a of
             (a, resp) \<Rightarrow>
               (case encode_handler_response id ctx resp of
                  Some resp \<Rightarrow> (fst (send (sd_frame sd) tb (rc_connection_id ctx) resp (fst a)), snd a)
                | None \<Rightarrow> a)))"

definition parse_bool :: "string \<Rightarrow> bool option" where
  "parse_bool s = (if s = ''true'' then Some True else if s = ''false'' then Some False else None)"

fun parse_ty :: "header_lib \<Rightarrow> ty \<Rightarrow> string \<Rightarrow> (json, string) result" where
  "parse_ty hl TString v = result_map JStr (hl_decode hl v)"
| "parse_ty hl Int64 v =
     (case parse_i64 v of Some i \<Rightarrow> Ok (JInt i) | None \<Rightarrow> Err (''Failed to parse integer: '' @ v))"
| "parse_ty hl Boolean v =
     (case parse_bool v of Some b \<Rightarrow> Ok (JBool b) | None \<Rightarrow> Err (''Failed to parse boolean: '' @ v))"
| "parse_ty hl (Enum n vs) v = Ok (JStr v)"
| "parse_ty hl (EnumRef n p) v = Ok (JStr v)"
| "parse_ty hl UUID v = Ok (JStr v)"
| "parse_ty hl (NanoId n) v = Ok (JStr v)"
| "parse_ty hl (Optional t) v = parse_ty hl t v"
| "parse_ty hl BlockchainAddress v = Ok (JStr v)"
| "parse_ty hl t v = Err (''Not implemented '' @ hl_debug hl t)"

text \<open>The pieces between the commas, trimmed, that begin with a digit: a key of one digit and the rest.\<close>

definition header_pairs :: "string \<Rightarrow> (string \<times> string) list" where
  "header_pairs header =
     map (\<lambda>x. (take 1 x, drop 1 x))
       (filter (\<lambda>x. case x of c # _ \<Rightarrow> is_digit c | [] \<Rightarrow> False)
         (filter (\<lambda>x. x \<noteq> []) (map trim (split_char CHR '','' header))))"

definition parse_protocol_header :: "string \<Rightarrow> string \<Rightarrow> string option" where
  "parse_protocol_header header = map_of (rev (header_pairs header))"

fun header_params ::
  "header_lib \<Rightarrow> (string \<Rightarrow> string option) \<Rightarrow> nat \<Rightarrow> field list \<Rightarrow> json btree \<Rightarrow> (json btree, string) result" where
  "header_params hl splits i [] params = Ok params"
| "header_params hl splits i (f # fs) params =
     (case splits (show_nat i) of
        Some value \<Rightarrow>
          (case parse_ty hl (fl_ty f) value of
             Ok j \<Rightarrow> header_params hl splits (i + 1) fs (obj_insert (to_camel (hl_case hl) (fl_name f)) j params)
           | Err e \<Rightarrow> Err e)
      | None \<Rightarrow>
          if \<not> is_optional (fl_ty f) then Err (''Could not find param '' @ fl_name f @ '' '' @ show_nat i)
          else header_params hl splits (i + 1) fs params)"

definition auth_context :: "endpoint_schema \<Rightarrow> ws_connection \<Rightarrow> request_context" where
  "auth_context schema conn =
     \<lparr>rc_connection_id = wc_connection_id conn, rc_user_id = 0, rc_seq = 0, rc_method = ep_code schema,
      rc_log_id = wc_log_id conn, rc_roles = wc_roles conn, rc_ip_addr = peer_ip_addr (wc_peer conn),
      rc_peer = wc_peer conn, rc_extensions = wc_extensions conn\<rparr>"

definition endpoint_auth :: "header_lib \<Rightarrow> serde \<Rightarrow> 'u endpoint_auth_controller \<Rightarrow> 'u auth_controller" where
  "endpoint_auth hl sd eac tb header conn a =
     (let splits = parse_protocol_header header in
      case splits ''0'' of
        None \<Rightarrow> (a, Err ''Could not find method'')
      | Some method \<Rightarrow>
          (case eac method of
             None \<Rightarrow> (a, Err (''Could not find endpoint for method '' @ method))
           | Some endpoint \<Rightarrow>
               (case header_params hl splits 1 (ep_parameters (wa_schema endpoint)) [] of
                  Err e \<Rightarrow> (a, Err e)
                | Ok params \<Rightarrow>
                    (sub_auth sd tb (wa_handler endpoint) (JObj params)
                       (auth_context (wa_schema endpoint) (conns (fst a) conn)) conn a, Ok ()))))"

text \<open>The client's side; \<open>v\<close> is what \<open>serde_json::to_value\<close> made of the request.\<close>

fun encode_params ::
  "header_lib \<Rightarrow> serde \<Rightarrow> json \<Rightarrow> nat \<Rightarrow> field list \<Rightarrow> string \<Rightarrow> (string, string) result" where
  "encode_params hl sd v i [] s = Ok s"
| "encode_params hl sd v i (f # fs) s =
     (let key = to_camel (hl_case hl) (fl_name f) in
      case jget v key of
        None \<Rightarrow> Err (''key: '' @ key)
      | Some JNull \<Rightarrow> encode_params hl sd v (i + 1) fs s
      | Some value \<Rightarrow>
          encode_params hl sd v (i + 1) fs
            (s @ '', '' @ show_nat i @ hl_encode hl (filter (\<lambda>c. c \<noteq> CHR 0x22) (sd_value sd value))))"

definition encode_header :: "header_lib \<Rightarrow> serde \<Rightarrow> (json, string) result \<Rightarrow> endpoint_schema \<Rightarrow> (string, string) result" where
  "encode_header hl sd v schema =
     result_bind v (\<lambda>v. encode_params hl sd v 1 (ep_parameters schema) (CHR ''0'' # to_ascii_lowercase (ep_name schema)))"

section \<open>What the libraries promise\<close>

definition unreserved :: "char \<Rightarrow> bool" where
  "unreserved c \<longleftrightarrow> is_ascii_alphanumeric c \<or> c \<in> {CHR ''-'', CHR ''_'', CHR ''.'', CHR ''~''}"

text \<open>
  \<open>urlencoding\<close>: the text it writes has unreserved characters and percent escapes only, leaves
  unreserved text alone and reads back.
\<close>

definition urlencoding_laws :: "header_lib \<Rightarrow> bool" where
  "urlencoding_laws hl \<longleftrightarrow>
     (\<forall>s. utf8_valid (str_bytes s) \<longrightarrow> hl_decode hl (hl_encode hl s) = Ok s) \<and>
     (\<forall>s. list_all (\<lambda>c. unreserved c \<or> c = CHR ''%'') (hl_encode hl s)) \<and>
     (\<forall>s. list_all unreserved s \<longrightarrow> hl_encode hl s = s)"

text \<open>\<open>serde_json\<close>: the text of the scalar values, for strings that need no escapes.\<close>

definition unescaped :: "char \<Rightarrow> bool" where
  "unescaped c \<longleftrightarrow> c \<noteq> CHR 0x22 \<and> c \<noteq> CHR 0x5C \<and> 32 \<le> (of_char c :: nat)"

definition json_display :: "serde \<Rightarrow> bool" where
  "json_display sd \<longleftrightarrow>
     (\<forall>i. sd_value sd (JInt i) = show_int i) \<and>
     (\<forall>b. sd_value sd (JBool b) = (if b then ''true'' else ''false'')) \<and>
     (\<forall>s. list_all unescaped s \<longrightarrow> sd_value sd (JStr s) = CHR 0x22 # s @ [CHR 0x22])"

text \<open>
  The values a header carries for a parameter of a type. Only strings are percent-decoded on the
  server's side, so the other textual types must not need it; null is left out and stands for an
  absent optional parameter.
\<close>

definition token_value :: "json \<Rightarrow> bool" where
  "token_value v \<longleftrightarrow> (case v of JStr s \<Rightarrow> list_all unreserved s | _ \<Rightarrow> False)"

fun carries :: "ty \<Rightarrow> json \<Rightarrow> bool" where
  "carries TString v \<longleftrightarrow> (case v of JStr s \<Rightarrow> list_all unescaped s \<and> utf8_valid (str_bytes s) | _ \<Rightarrow> False)"
| "carries Int64 v \<longleftrightarrow> (case v of JInt i \<Rightarrow> - (2 ^ 63) \<le> i \<and> i < 2 ^ 63 | _ \<Rightarrow> False)"
| "carries Boolean v \<longleftrightarrow> (case v of JBool b \<Rightarrow> True | _ \<Rightarrow> False)"
| "carries (Enum n vs) v \<longleftrightarrow> token_value v"
| "carries (EnumRef n p) v \<longleftrightarrow> token_value v"
| "carries UUID v \<longleftrightarrow> token_value v"
| "carries (NanoId n) v \<longleftrightarrow> token_value v"
| "carries BlockchainAddress v \<longleftrightarrow> token_value v"
| "carries (Optional t) v \<longleftrightarrow> v = JNull \<or> carries t v"
| "carries _ v \<longleftrightarrow> False"

section \<open>The round trip\<close>

definition header_key :: "header_lib \<Rightarrow> field \<Rightarrow> string" where
  "header_key hl f = to_camel (hl_case hl) (fl_name f)"

definition header_text :: "header_lib \<Rightarrow> serde \<Rightarrow> json \<Rightarrow> string" where
  "header_text hl sd val = hl_encode hl (filter (\<lambda>c. c \<noteq> CHR 0x22) (sd_value sd val))"

definition carried :: "header_lib \<Rightarrow> json \<Rightarrow> field list \<Rightarrow> bool" where
  "carried hl v fs \<longleftrightarrow> (\<forall>f \<in> set fs. \<exists>val. jget v (header_key hl f) = Some val \<and> carries (fl_ty f) val)"

text \<open>The non-null parameters, as the object the endpoint receives.\<close>

definition present :: "header_lib \<Rightarrow> json \<Rightarrow> field list \<Rightarrow> (string \<times> json) list" where
  "present hl v fs =
     concat (map (\<lambda>f. case jget v (header_key hl f) of
        None \<Rightarrow> [] | Some val \<Rightarrow> if val = JNull then [] else [(header_key hl f, val)]) fs)"

fun header_items :: "header_lib \<Rightarrow> serde \<Rightarrow> json \<Rightarrow> nat \<Rightarrow> field list \<Rightarrow> (nat \<times> string) list" where
  "header_items hl sd v i [] = []"
| "header_items hl sd v i (f # fs) =
     (case jget v (header_key hl f) of
        None \<Rightarrow> [] | Some val \<Rightarrow> if val = JNull then [] else [(i, header_text hl sd val)])
     @ header_items hl sd v (i + 1) fs"

lemma unreserved_simps [simp]: "unreserved c \<Longrightarrow> unescaped c" "unreserved c \<Longrightarrow> graphic c"
  by (auto simp: unreserved_def unescaped_def graphic_def is_ascii_alphanumeric_def is_digit_def less_eq_char_def)

lemma digit_unreserved [simp]: "is_digit c \<Longrightarrow> unreserved c"
  by (simp add: unreserved_def)

lemma show_int_unreserved: "list_all unreserved (show_int i)"
  by (auto simp: show_int_def list_all_iff dest: show_nat_digits) (simp add: unreserved_def)

lemma unescaped_filter: "list_all unescaped s \<Longrightarrow> filter (\<lambda>c. c \<noteq> CHR 0x22) s = s"
  by (induction s) (auto simp: unescaped_def)

lemma unreserved_unescaped: "list_all unreserved s \<Longrightarrow> list_all unescaped s"
  by (auto simp: list_all_iff)

lemma unreserved_literals: "list_all unreserved ''true''" "list_all unreserved ''false''"
  by (simp_all add: unreserved_def is_ascii_alphanumeric_def is_digit_def less_eq_char_def)

lemma header_text_str:
  "json_display sd \<Longrightarrow> list_all unescaped s \<Longrightarrow> header_text hl sd (JStr s) = hl_encode hl s"
  by (simp add: header_text_def json_display_def unescaped_filter)

lemma header_text_unreserved:
  "urlencoding_laws hl \<Longrightarrow> json_display sd \<Longrightarrow> list_all unreserved s \<Longrightarrow> header_text hl sd (JStr s) = s"
  using header_text_str [of sd s hl] unreserved_unescaped by (auto simp: urlencoding_laws_def)

lemma header_text_scalar:
  assumes "urlencoding_laws hl" "json_display sd"
  shows "header_text hl sd (JInt i) = show_int i" "header_text hl sd (JBool b) = (if b then ''true'' else ''false'')"
  using assms unescaped_filter [OF unreserved_unescaped [OF show_int_unreserved [of i]]]
    show_int_unreserved [of i] unreserved_literals
  by (auto simp: header_text_def json_display_def urlencoding_laws_def)

lemma parse_ty_header_text:
  assumes "urlencoding_laws hl" "json_display sd"
  shows "carries t val \<Longrightarrow> val \<noteq> JNull \<Longrightarrow> parse_ty hl t (header_text hl sd val) = Ok val"
  using assms
  by (induction t val rule: carries.induct)
    (auto simp: header_text_unreserved header_text_scalar header_text_str parse_bool_def
      parse_i64_show_int token_value_def split: json.splits, auto simp: urlencoding_laws_def)

lemma header_text_graphic: "urlencoding_laws hl \<Longrightarrow> list_all (\<lambda>c. graphic c \<and> c \<noteq> CHR '','') (header_text hl sd val)"
proof -
  assume "urlencoding_laws hl"
  then have "list_all (\<lambda>c. unreserved c \<or> c = CHR ''%'') (header_text hl sd val)"
    by (simp add: urlencoding_laws_def header_text_def)
  then show ?thesis
    by (rule list.pred_mono_strong)
      (auto simp: graphic_def, auto simp: unreserved_def is_ascii_alphanumeric_def is_digit_def less_eq_char_def)
qed

lemma encode_params_items:
  assumes "carried hl v fs"
  shows "encode_params hl sd v i fs s =
    Ok (s @ concat (map (\<lambda>(k, e). CHR '','' # CHR '' '' # show_nat k @ e) (header_items hl sd v i fs)))"
  using assms
proof (induction fs arbitrary: i s)
  case (Cons f fs)
  then obtain val where "jget v (header_key hl f) = Some val" and "carried hl v fs"
    by (auto simp: carried_def)
  then show ?case
    using Cons.IH by (cases val) (simp_all add: header_key_def header_text_def Let_def)
qed simp

lemma header_items_range:
  "(k, e) \<in> set (header_items hl sd v i fs) \<Longrightarrow> i \<le> k \<and> k < i + length fs \<and> (\<exists>val. e = header_text hl sd val)"
  by (induction fs arbitrary: i) (force split: option.splits if_splits)+

lemma header_items_distinct: "distinct (map fst (header_items hl sd v i fs))"
  by (induction fs arbitrary: i) (auto split: option.splits dest: header_items_range)

lemma header_items_lookup:
  assumes "n < length fs"
  shows "map_of (header_items hl sd v i fs) (i + n) =
    (case jget v (header_key hl (fs ! n)) of
       None \<Rightarrow> None | Some val \<Rightarrow> if val = JNull then None else Some (header_text hl sd val))"
  using assms
proof (induction fs arbitrary: i n)
  case (Cons f fs)
  have later: "map_of (header_items hl sd v (Suc i) fs) i = None"
    by (auto simp: map_of_eq_None_iff dest: header_items_range)
  from Cons.IH [of "n - 1" "Suc i"] Cons.prems show ?case
    by (cases n) (auto simp: later split: option.splits)
qed simp

lemma show_nat_digit: "k < 10 \<Longrightarrow> show_nat k = [digit_char k]"
  by (subst show_nat.simps) simp

lemma graphic_digit_char: "k < 10 \<Longrightarrow> graphic (digit_char k)" "k < 10 \<Longrightarrow> digit_char k \<noteq> CHR '',''"
  by (simp_all add: digit_unreserved) (use is_digit_digit_char in \<open>fastforce simp: is_digit_def less_eq_char_def\<close>)

lemma trim_item:
  assumes "urlencoding_laws hl" and "(k, e) \<in> set (header_items hl sd v i fs)" and "k < 10"
  shows "trim (CHR '' '' # show_nat k @ e) = digit_char k # e" and "CHR '','' \<notin> set (show_nat k @ e)"
proof -
  obtain val where e: "e = header_text hl sd val"
    using header_items_range [OF assms(2)] by blast
  have "graphic (last (digit_char k # e))"
    using header_text_graphic [OF assms(1), of sd val] graphic_digit_char(1) [OF assms(3)]
    by (simp add: e list_all_iff)
  with graphic_digit_char(1) [OF assms(3)] show "trim (CHR '' '' # show_nat k @ e) = digit_char k # e"
    using trim_space [of "digit_char k # e"] by (simp add: show_nat_digit assms(3))
  show "CHR '','' \<notin> set (show_nat k @ e)"
    using header_text_graphic [OF assms(1), of sd val] graphic_digit_char(2) [OF assms(3)]
    by (auto simp: e list_all_iff show_nat_digit assms(3))
qed

text \<open>A name a header can carry: no comma, and nothing that trimming removes.\<close>

definition header_name :: "string \<Rightarrow> bool" where
  "header_name n \<longleftrightarrow> CHR '','' \<notin> set n \<and> (n = [] \<or> graphic (last n))"

lemma trim_method: "header_name n \<Longrightarrow> trim (CHR ''0'' # n) = CHR ''0'' # n"
  by (rule trim_graphic) (auto simp: header_name_def graphic_def)

lemma header_pairs_encoded:
  assumes "urlencoding_laws hl" and "header_name n" and "length fs \<le> 9"
  shows "header_pairs (CHR ''0'' # n @
      concat (map (\<lambda>(k, e). CHR '','' # CHR '' '' # show_nat k @ e) (header_items hl sd v 1 fs))) =
    (''0'', n) # map (\<lambda>(k, e). (show_nat k, e)) (header_items hl sd v 1 fs)"
proof -
  let ?its = "header_items hl sd v 1 fs" and ?piece = "\<lambda>(k, e). CHR '' '' # show_nat k @ e"
  let ?word = "\<lambda>(k, e). digit_char k # e"
  have bound: "k < 10" if "(k, e) \<in> set ?its" for k e
    using header_items_range [OF that] assms(3) by simp
  have "split_char CHR '','' ((CHR ''0'' # n) @ concat (map ((#) CHR '','') (map ?piece ?its))) =
      (CHR ''0'' # n) # map ?piece ?its"
    using assms(2) trim_item(2) [OF assms(1) _ bound] by (intro split_char_parts) (auto simp: header_name_def)
  then have pieces: "split_char CHR '','' (CHR ''0'' # n @ concat (map (\<lambda>(k, e). CHR '','' # CHR '' '' # show_nat k @ e) ?its)) =
      (CHR ''0'' # n) # map ?piece ?its"
    by (simp add: comp_def case_prod_unfold)
  have trims: "map trim (map ?piece ?its) = map ?word ?its"
    using trim_item(1) [OF assms(1) _ bound] by (auto simp: case_prod_unfold)
  have keep: "filter (\<lambda>x. case x of c # _ \<Rightarrow> is_digit c | [] \<Rightarrow> False) (map ?word ?its) = map ?word ?its"
      "filter (\<lambda>x. x \<noteq> []) (map ?word ?its) = map ?word ?its"
    by (rule filter_True, use bound in auto)+
  have pairs: "map (\<lambda>x. (take 1 x, drop 1 x)) (map ?word ?its) = map (\<lambda>(k, e). (show_nat k, e)) ?its"
    using bound by (auto simp: show_nat_digit)
  have digit: "is_digit (CHR ''0'')"
    by (simp add: is_digit_def less_eq_char_def)
  show ?thesis
    unfolding header_pairs_def pieces
    by (simp only: list.map(2) trims trim_method [OF assms(2)] filter.simps keep pairs digit list.case list.distinct
        simp_thms if_True) simp
qed

lemma map_of_header_items:
  "map_of (map (\<lambda>(k, e). (show_nat k, e)) its) (show_nat j) = map_of its j"
  by (induction its) (auto simp: show_nat_inj)

lemma parse_encoded_header:
  assumes "urlencoding_laws hl" and "header_name n" and "length fs \<le> 9" and "carried hl v fs"
    and "encode_params hl sd v 1 fs (CHR ''0'' # n) = Ok h"
  shows "parse_protocol_header h ''0'' = Some n"
    and "i < length fs \<Longrightarrow> parse_protocol_header h (show_nat (1 + i)) =
      (case jget v (header_key hl (fs ! i)) of
         None \<Rightarrow> None | Some val \<Rightarrow> if val = JNull then None else Some (header_text hl sd val))"
proof -
  let ?its = "header_items hl sd v 1 fs"
  let ?m = "map (\<lambda>(k, e). (show_nat k, e)) ?its"
  have zero: "''0'' = show_nat 0"
    by (simp add: show_nat_digit digit_char_def char_of_def bit_0)
  have pairs: "header_pairs h = (''0'', n) # ?m"
    using assms(5) header_pairs_encoded [OF assms(1-3), of sd v] by (auto simp: encode_params_items [OF assms(4)])
  have "distinct (map fst ?m)"
    using header_items_distinct [of hl sd v 1 fs]
    by (simp add: distinct_map inj_on_def show_nat_inj case_prod_unfold flip: map_map [of show_nat fst] image_image)
  then have rev: "map_of (rev ?m) = map_of ?m"
    by (rule map_of_rev)
  have "map_of ?m ''0'' = None"
    unfolding zero map_of_header_items by (auto simp: map_of_eq_None_iff dest: header_items_range)
  then show "parse_protocol_header h ''0'' = Some n"
    by (simp add: parse_protocol_header_def pairs rev map_add_def del: One_nat_def)
  show "parse_protocol_header h (show_nat (1 + i)) =
      (case jget v (header_key hl (fs ! i)) of
         None \<Rightarrow> None | Some val \<Rightarrow> if val = JNull then None else Some (header_text hl sd val))" if "i < length fs"
    using header_items_lookup [OF that, of hl sd v 1]
    by (simp add: parse_protocol_header_def pairs rev map_add_def map_of_header_items zero show_nat_inj
        del: One_nat_def split: option.split)
qed

lemma header_params_present:
  assumes "urlencoding_laws hl" "json_display sd" and "carried hl v fs"
    and "\<forall>n < length fs. splits (show_nat (i + n)) =
      (case jget v (header_key hl (fs ! n)) of
         None \<Rightarrow> None | Some val \<Rightarrow> if val = JNull then None else Some (header_text hl sd val))"
  shows "header_params hl splits i fs acc = Ok (fold (\<lambda>(k, x). obj_insert k x) (present hl v fs) acc)"
  using assms(3,4)
proof (induction fs arbitrary: i acc)
  case (Cons f fs)
  then obtain val where val: "jget v (header_key hl f) = Some val" "carries (fl_ty f) val" and fs: "carried hl v fs"
    by (auto simp: carried_def)
  have rest: "\<forall>n < length fs. splits (show_nat (Suc i + n)) =
      (case jget v (header_key hl (fs ! n)) of
         None \<Rightarrow> None | Some val \<Rightarrow> if val = JNull then None else Some (header_text hl sd val))"
    using Cons.prems(2) by auto
  have here: "splits (show_nat i) = (if val = JNull then None else Some (header_text hl sd val))"
    using Cons.prems(2) [rule_format, of 0] val(1) by simp
  show ?case
  proof (cases "val = JNull")
    case True
    then have "is_optional (fl_ty f)"
      using val(2) by (cases "fl_ty f") (auto simp: token_value_def)
    with True here val(1) Cons.IH [OF fs, of "Suc i"] rest show ?thesis
      by (simp add: present_def)
  next
    case False
    with here val(1) Cons.IH [OF fs, of "Suc i"] rest parse_ty_header_text [OF assms(1,2) val(2)] show ?thesis
      by (simp add: present_def header_key_def)
  qed
qed (simp add: present_def)

text \<open>
  C16. The client's header and the server's reading of it agree. For an auth endpoint of at most nine
  parameters and a request whose values a header can carry, \<open>encode_header\<close> succeeds, and the
  controller that has the endpoint registered hands exactly the non-null values to its sub-controller,
  under their camel-case names, in the context of the connection and the endpoint's code.
\<close>
theorem auth_header_round_trip:
  assumes "urlencoding_laws hl" and "json_display sd"
    and "length (ep_parameters schema) \<le> 9" and "carried hl v (ep_parameters schema)"
    and "header_name (to_ascii_lowercase (ep_name schema))"
  shows "\<exists>h. encode_header hl sd (Ok v) schema = Ok h \<and>
    endpoint_auth hl sd (add_auth_endpoint schema ctl eac) tb h conn a =
      (sub_auth sd tb ctl (jobj (present hl v (ep_parameters schema)))
         (auth_context schema (conns (fst a) conn)) conn a, Ok ())"
proof -
  let ?fs = "ep_parameters schema" and ?n = "to_ascii_lowercase (ep_name schema)"
  obtain h where h: "encode_params hl sd v 1 ?fs (CHR ''0'' # ?n) = Ok h"
    using encode_params_items [OF assms(4)] by blast
  note parsed = parse_encoded_header [OF assms(1,5,3,4) h]
  have "header_params hl (parse_protocol_header h) 1 ?fs [] = Ok (obj_of (present hl v ?fs))"
    using header_params_present [OF assms(1,2,4)] parsed(2) by (auto simp: obj_of_def)
  with parsed(1) h show ?thesis
    by (simp add: encode_header_def endpoint_auth_def add_auth_endpoint_def jobj_def)
qed

lemma header_key_length: "(k, x) \<in> set (header_pairs header) \<Longrightarrow> length k = 1"
  by (auto simp: header_pairs_def Suc_le_eq)

lemma parse_protocol_header_two_digits: "10 \<le> i \<Longrightarrow> parse_protocol_header header (show_nat i) = None"
proof -
  assume "10 \<le> i"
  then have "length (show_nat i) \<noteq> 1"
    by (subst show_nat.simps) simp
  then show ?thesis
    using header_key_length by (fastforce simp: parse_protocol_header_def map_of_eq_None_iff)
qed

lemma header_params_missing:
  "n < length fs \<Longrightarrow> splits (show_nat (i + n)) = None \<Longrightarrow> \<not> is_optional (fl_ty (fs ! n)) \<Longrightarrow>
    \<exists>e. header_params hl splits i fs acc = Err e"
proof (induction fs arbitrary: i n acc)
  case (Cons f fs)
  then show ?case
    using Cons.IH [of "n - 1" "Suc i"] by (cases n) (auto split: option.split result.split)
qed simp

text \<open>
  C40. The header format has room for nine parameters. A key is a single digit, so no header, whoever
  wrote it, can carry a tenth parameter: an endpoint that requires one refuses every connection,
  before its sub-controller is asked and without any effect.
\<close>
theorem tenth_auth_parameter_unreachable:
  assumes "parse_protocol_header header ''0'' = Some m" and "eac m = Some ep"
    and "9 \<le> n" and "n < length (ep_parameters (wa_schema ep))"
    and "\<not> is_optional (fl_ty (ep_parameters (wa_schema ep) ! n))"
  shows "\<exists>e. endpoint_auth hl sd eac tb header conn a = (a, Err e)"
proof -
  have "\<exists>e. header_params hl (parse_protocol_header header) 1 (ep_parameters (wa_schema ep)) [] = Err e"
    using assms(3-5) by (intro header_params_missing [of n]) (simp_all add: parse_protocol_header_two_digits)
  with assms(1,2) show ?thesis
    by (auto simp: endpoint_auth_def)
qed

section \<open>A login over the header\<close>

text \<open>Percent encoding as its standard describes it, and the text of the scalar JSON values.\<close>

definition hex_digit :: "nat \<Rightarrow> char" where
  "hex_digit n = (if n < 10 then char_of (48 + n) else char_of (55 + n))"

definition hex_val :: "char \<Rightarrow> nat" where
  "hex_val c = (if is_digit c then of_char c - 48 else of_char c - 55)"

definition percent_encode :: "string \<Rightarrow> string" where
  "percent_encode s = concat (map (\<lambda>c. if unreserved c then [c]
     else [CHR ''%'', hex_digit (of_char c div 16), hex_digit (of_char c mod 16)]) s)"

function percent_decode :: "string \<Rightarrow> string" where
  "percent_decode [] = []"
| "percent_decode (c # s) =
     (if c = CHR ''%'' \<and> 2 \<le> length s
      then char_of (16 * hex_val (s ! 0) + hex_val (s ! 1)) # percent_decode (drop 2 s)
      else c # percent_decode s)"
  by pat_completeness auto
termination
  by (relation "measure length") auto

fun show_scalar :: "json \<Rightarrow> string" where
  "show_scalar (JInt i) = show_int i"
| "show_scalar (JBool b) = (if b then ''true'' else ''false'')"
| "show_scalar (JStr s) = CHR 0x22 # s @ [CHR 0x22]"
| "show_scalar _ = ''null''"

definition sample_lib :: header_lib where
  "sample_lib = \<lparr>hl_encode = percent_encode, hl_decode = (\<lambda>s. Ok (percent_decode s)), hl_debug = (\<lambda>_. []),
     hl_case = plain_casing\<rparr>"

definition header_serde :: serde where
  "header_serde = sample_serde\<lparr>sd_value := show_scalar\<rparr>"

definition login_schema :: endpoint_schema where
  "login_schema = endpoint_new ''Login'' 1
     [field_new ''token'' TString, field_new ''device'' (Optional Int64), field_new ''admin'' Boolean] []"

definition login_request :: json where
  "login_request = jobj [(''token'', JStr ''a,b c''), (''device'', JNull), (''admin'', JBool True)]"

lemma hex_digit_props: "n < 16 \<Longrightarrow> hex_val (hex_digit n) = n" "n < 16 \<Longrightarrow> unreserved (hex_digit n)"
  by (auto simp: hex_digit_def hex_val_def is_digit_def less_eq_char_def unreserved_def is_ascii_alphanumeric_def)

lemma percent_not_unreserved: "\<not> unreserved (CHR ''%'')"
  by (simp add: unreserved_def is_ascii_alphanumeric_def is_digit_def less_eq_char_def)

lemma byte_nibble [simp]: "(of_char c :: nat) div 16 < 16"
  using nat_of_char_less_256 [of c] by linarith

lemma percent_round_trip: "percent_decode (percent_encode s) = s"
proof (induction s)
  case (Cons c s)
  have "char_of (16 * hex_val (hex_digit (of_char c div 16)) + hex_val (hex_digit (of_char c mod 16))) = c"
    by (simp add: hex_digit_props byte_nibble)
  with Cons show ?case
    using percent_not_unreserved by (auto simp: percent_encode_def)
qed (simp add: percent_encode_def)

lemma sample_lib_laws: "urlencoding_laws sample_lib"
proof -
  have "list_all (\<lambda>c. unreserved c \<or> c = CHR ''%'') (percent_encode s)" for s
    by (induction s) (auto simp: percent_encode_def hex_digit_props(2))
  moreover have "list_all unreserved s \<Longrightarrow> percent_encode s = s" for s
    by (induction s) (auto simp: percent_encode_def)
  ultimately show ?thesis
    by (simp add: urlencoding_laws_def sample_lib_def percent_round_trip)
qed

theorem auth_header_round_trip_witness:
  "\<forall>(ctl :: unit sub_auth_controller) a. \<exists>h. encode_header sample_lib header_serde (Ok login_request) login_schema = Ok h \<and>
    endpoint_auth sample_lib header_serde (add_auth_endpoint login_schema ctl eac_new) toolbox_new h 7 a =
      (sub_auth header_serde toolbox_new ctl (jobj [(''token'', JStr ''a,b c''), (''admin'', JBool True)])
         (auth_context login_schema (conns (fst a) 7)) 7 a, Ok ())"
proof -
  have 1: "json_display header_serde"
    by (simp add: json_display_def header_serde_def)
  have utf8: "utf8_valid (str_bytes ''a,b c'')" "list_all unescaped ''a,b c''"
    by (rule utf8_valid_ascii) (simp_all add: str_bytes_def unescaped_def)
  have 2: "carried sample_lib login_request (ep_parameters login_schema)"
    using utf8 by (simp add: carried_def login_schema_def endpoint_new_def field_new_def login_request_def
        header_key_def sample_lib_def plain_casing_def jget_jobj)
  have 3: "header_name (to_ascii_lowercase (ep_name login_schema))"
    by (simp add: header_name_def login_schema_def endpoint_new_def to_ascii_lowercase_def ascii_lower_def
        less_eq_char_def graphic_def char_of_def bit_0)
  have "present sample_lib login_request (ep_parameters login_schema) =
      [(''token'', JStr ''a,b c''), (''admin'', JBool True)]"
    by (simp add: present_def login_schema_def endpoint_new_def field_new_def login_request_def
        header_key_def sample_lib_def plain_casing_def jget_jobj)
  moreover have "length (ep_parameters login_schema) \<le> 9"
    by (simp add: login_schema_def endpoint_new_def)
  ultimately show ?thesis
    using auth_header_round_trip [OF sample_lib_laws 1 _ 2 3, where eac = "eac_new :: unit endpoint_auth_controller" and tb = toolbox_new and conn = 7]
    by (simp del: split_paired_All)
qed

definition wide_schema :: endpoint_schema where
  "wide_schema = endpoint_new ''Wide'' 2 (replicate 10 (field_new ''x'' TString)) []"

definition wide_controller :: "unit ws_auth_controller" where
  "wide_controller = \<lparr>wa_schema = wide_schema, wa_handler =
     \<lparr>sa_from_value = Ok, sa_error_path = (\<lambda>_. None), sa_auth = (\<lambda>ctx v conn a. (a, Ok (Some v)))\<rparr>\<rparr>"

theorem tenth_auth_parameter_unreachable_witness:
  "\<forall>a. \<exists>e. endpoint_auth sample_lib header_serde [''w'' \<mapsto> wide_controller] toolbox_new ''0w, 1a, 10b'' 7 a = (a, Err e)"
proof (rule allI, rule tenth_auth_parameter_unreachable [where n = 9 and ep = wide_controller and m = "''w''"])
  show "parse_protocol_header ''0w, 1a, 10b'' ''0'' = Some ''w''"
    by (simp add: parse_protocol_header_def header_pairs_def trim_space trim_graphic graphic_def is_digit_def
        less_eq_char_def)
qed (simp_all add: wide_controller_def wide_schema_def endpoint_new_def field_new_def)

end
