(* ===== verification/Upgrader.thy ===== *)
theory Upgrader
  imports Headers
begin

text \<open>
  \<open>src/libs/ws/tungstenite/upgrader.rs\<close>, the HTTP side of a connection, with the traits it
  implements (\<open>src/libs/ws/traits.rs\<close>) and its callers in \<open>src/libs/ws/server.rs\<close>. The socket is the
  list of what its reads return, in order, and what a write answers; an exhausted list is a read that
  never returns. The HTTP parser and the response builders of \<open>nago_wss\<close> are the fields of
  \<open>nago_wss\<close>, its errors a type parameter.
\<close>

section \<open>The code\<close>

datatype http_method = MGet | MHead | MOptions | MOther string

type_synonym headers = "(string \<times> string) list"

record upgrade_request =
  ur_method :: http_method
  ur_path :: string
  ur_headers :: headers
  ur_key :: string
  ur_protocols :: "string list"

datatype parsed = Plain upgrade_request | Upgrade upgrade_request

record 'e nago_wss =
  nw_head_end :: "bytes \<Rightarrow> nat option"
  nw_max_head :: nat
  nw_parse :: "bytes \<Rightarrow> (parsed, 'e) result"
  nw_too_large :: 'e
  nw_response :: "string \<Rightarrow> string option \<Rightarrow> headers \<Rightarrow> bytes"
  nw_rejection :: "'e \<Rightarrow> headers \<Rightarrow> bytes"

text \<open>What the build fixes: \<open>WS_SERVER_NAME\<close> and the version of the crate.\<close>

record build_env =
  be_server_name :: "string option"
  be_version :: string

definition ALLOWED_METHODS :: string where "ALLOWED_METHODS = ''GET, HEAD, OPTIONS''"

definition DEFAULT_ALLOW_HEADERS :: string where
  "DEFAULT_ALLOW_HEADERS = ''Content-Type, Authorization, Sec-WebSocket-Key, '' @
     ''Sec-WebSocket-Version, Sec-WebSocket-Extensions, Sec-WebSocket-Protocol''"

definition is_safe_header_value :: "string \<Rightarrow> bool" where
  "is_safe_header_value v \<longleftrightarrow>
     v \<noteq> [] \<and> list_all (\<lambda>c. (of_char c :: nat) = 9 \<or> 0x20 \<le> (of_char c :: nat) \<and> (of_char c :: nat) < 0x7F) v"

definition request_header :: "upgrade_request \<Rightarrow> string \<Rightarrow> string option" where
  "request_header req name =
     map_option snd (find (\<lambda>(had, _). to_ascii_lowercase had = to_ascii_lowercase name) (ur_headers req))"

record response_headers =
  rh_server :: string
  rh_cors :: headers

definition headers_new :: "build_env \<Rightarrow> ws_server_config \<Rightarrow> string option \<Rightarrow> string option \<Rightarrow> response_headers" where
  "headers_new be cfg origin requested =
     (let app = (case be_server_name be of Some n \<Rightarrow> n | None \<Rightarrow> server_name cfg);
          server = app @ '' endpointlibs/'' @ be_version be;
          allow_headers = (case requested of
            Some v \<Rightarrow> if is_safe_header_value v then v else DEFAULT_ALLOW_HEADERS
          | None \<Rightarrow> DEFAULT_ALLOW_HEADERS) in
      case allow_cors_urls cfg of
        None \<Rightarrow>
          \<lparr>rh_server = server, rh_cors =
             [(''Access-Control-Allow-Origin'', ''*''), (''Timing-Allow-Origin'', ''*''),
              (''Access-Control-Allow-Methods'', ALLOWED_METHODS),
              (''Access-Control-Allow-Headers'', allow_headers), (''Access-Control-Max-Age'', ''86400'')]\<rparr>
      | Some domains \<Rightarrow>
          (case origin of
             None \<Rightarrow> \<lparr>rh_server = server, rh_cors = []\<rparr>
           | Some origin \<Rightarrow>
               if \<not> list_ex (\<lambda>d. d = origin) domains then \<lparr>rh_server = server, rh_cors = []\<rparr>
               else
                 \<lparr>rh_server = server, rh_cors =
                    [(''Access-Control-Allow-Origin'', origin), (''Timing-Allow-Origin'', origin),
                     (''Vary'', ''Origin''), (''Access-Control-Allow-Credentials'', ''true''),
                     (''Access-Control-Allow-Methods'', ALLOWED_METHODS),
                     (''Access-Control-Allow-Headers'', allow_headers), (''Access-Control-Max-Age'', ''86400'')]\<rparr>))"

definition headers_from_request :: "build_env \<Rightarrow> ws_server_config \<Rightarrow> upgrade_request \<Rightarrow> response_headers" where
  "headers_from_request be cfg req =
     headers_new be cfg (request_header req ''origin'') (request_header req ''access-control-request-headers'')"

definition ok_extra :: "response_headers \<Rightarrow> headers" where
  "ok_extra h = [(''Server'', rh_server h), (''X-Content-Type-Options'', ''nosniff'')] @ rh_cors h"

definition error_extra :: "response_headers \<Rightarrow> headers" where
  "error_extra h = ok_extra h @ [(''Cache-Control'', ''no-store'')]"

definition crlf :: string where "crlf = [CHR 0x0D, CHR 0x0A]"

definition plain_response :: "string \<Rightarrow> headers \<Rightarrow> bytes" where
  "plain_response status extra =
     str_bytes (''HTTP/1.1 '' @ status @ crlf @ ''Connection: close'' @ crlf @ ''Content-Length: 0'' @ crlf @
       concat (map (\<lambda>(name, value). name @ '': '' @ value @ crlf) extra) @ crlf)"

datatype head_outcome = HeadRead bytes bytes | HeadEof | HeadTooLarge

text \<open>\<open>None\<close> is a head that never completes: the peer neither finishes nor closes.\<close>

fun read_head ::
  "'e nago_wss \<Rightarrow> bytes \<Rightarrow> (bytes, string) result list \<Rightarrow> (head_outcome, string) result option" where
  "read_head nw buffer reads =
     (case nw_head_end nw buffer of
        Some e \<Rightarrow> Some (Ok (HeadRead (take e buffer) (drop e buffer)))
      | None \<Rightarrow>
          if length buffer > nw_max_head nw then Some (Ok HeadTooLarge)
          else
            (case reads of
               [] \<Rightarrow> None
             | Err err # _ \<Rightarrow> Some (Err (''reading the request head: '' @ err))
             | Ok chunk # reads \<Rightarrow>
                 if chunk = [] then Some (Ok HeadEof) else read_head nw (buffer @ chunk) reads))"

declare read_head.simps [simp del]

definition upgrade_write :: "(unit, string) result \<Rightarrow> (unit, string) result" where
  "upgrade_write r = result_map_err (\<lambda>err. ''writing the handshake response: '' @ err) r"

text \<open>\<open>ue_buffered\<close> is what the connection starts with, \<open>ue_limits\<close> its frame and message limits, if configured.\<close>

record upgrade_event =
  ue_buffered :: bytes
  ue_limits :: "(u64 \<times> usize) option"
  ue_protocol :: string

definition join_protocols :: "string list \<Rightarrow> string" where
  "join_protocols ps = (case ps of [] \<Rightarrow> [] | p # ps \<Rightarrow> p @ concat (map (\<lambda>q. CHR '','' # CHR '' '' # q) ps))"

text \<open>The answer to a request that is not an upgrade.\<close>

definition plain_answer :: "build_env \<Rightarrow> ws_server_config \<Rightarrow> upgrade_request \<Rightarrow> bytes" where
  "plain_answer be cfg req =
     (let headers = headers_from_request be cfg req in
      case ur_method req of
        MOther _ \<Rightarrow>
          plain_response ''405 Method Not Allowed'' (error_extra headers @ [(''Allow'', ALLOWED_METHODS)])
      | _ \<Rightarrow> plain_response ''200 OK'' (ok_extra headers))"

text \<open>The bytes written, at most one response, and the result; \<open>wrote\<close> is what the socket says to it.\<close>

definition upgrade_inner ::
  "'e nago_wss \<Rightarrow> build_env \<Rightarrow> ws_server_config \<Rightarrow> (bytes, string) result list \<Rightarrow> (unit, string) result
    \<Rightarrow> (bytes list \<times> (upgrade_event option, string) result) option" where
  "upgrade_inner nw be cfg reads wrote =
     (case read_head nw [] reads of
        None \<Rightarrow> None
      | Some (Err e) \<Rightarrow> Some ([], Err e)
      | Some (Ok HeadEof) \<Rightarrow> Some ([], Ok None)
      | Some (Ok HeadTooLarge) \<Rightarrow>
          Some ([nw_rejection nw (nw_too_large nw) (error_extra (headers_new be cfg None None))],
                result_map (\<lambda>_. None) (upgrade_write wrote))
      | Some (Ok (HeadRead head rest)) \<Rightarrow>
          (case nw_parse nw head of
             Err error \<Rightarrow>
               Some ([nw_rejection nw error (error_extra (headers_new be cfg None None))], Ok None)
           | Ok (Plain req) \<Rightarrow>
               Some ([plain_answer be cfg req], result_map (\<lambda>_. None) (upgrade_write wrote))
           | Ok (Upgrade req) \<Rightarrow>
               Some ([nw_response nw (ur_key req) (case ur_protocols req of [] \<Rightarrow> None | p # _ \<Rightarrow> Some p)
                        (ok_extra (headers_from_request be cfg req))],
                     result_map (\<lambda>_. Some
                       \<lparr>ue_buffered = rest,
                        ue_limits = map_option (\<lambda>mx. (mx, mx)) (max_message_bytes cfg),
                        ue_protocol = join_protocols (ur_protocols req)\<rparr>) (upgrade_write wrote))))"

text \<open>With the deadline: \<open>late\<close> says that it passes first.\<close>

definition upgrade_stream ::
  "'e nago_wss \<Rightarrow> build_env \<Rightarrow> ws_server_config \<Rightarrow> bool \<Rightarrow> (bytes, string) result list \<Rightarrow> (unit, string) result
    \<Rightarrow> (upgrade_event option, string) result option" where
  "upgrade_stream nw be cfg late reads wrote =
     (case handshake_timeout cfg of
        Some _ \<Rightarrow>
          if late then Some (Err ''HTTP upgrade deadline exceeded'')
          else map_option snd (upgrade_inner nw be cfg reads wrote)
      | None \<Rightarrow> map_option snd (upgrade_inner nw be cfg reads wrote))"

section \<open>The upgraded connection as a message stream\<close>

text \<open>The errors of \<open>nago_wss::conn\<close>, with their texts.\<close>

datatype conn_error = UnexpectedEof | FrameError string | ProtocolViolation string | MaskingViolation string | OtherConnError string

fun map_err :: "conn_error \<Rightarrow> stream_error" where
  "map_err UnexpectedEof = StreamClosed"
| "map_err (FrameError t) = Protocol t"
| "map_err (ProtocolViolation t) = Protocol t"
| "map_err (MaskingViolation t) = Protocol t"
| "map_err (OtherConnError t) = StreamOther t"

definition nago_recv ::
  "('c \<Rightarrow> u16) \<Rightarrow> ('c nago_message option, conn_error) result \<Rightarrow> (wire_message, stream_error) result option" where
  "nago_recv of_code r =
     (case r of
        Ok (Some m) \<Rightarrow> Some (Ok (from_nago of_code m))
      | Ok None \<Rightarrow> None
      | Err e \<Rightarrow> Some (Err (map_err e)))"

definition nago_send :: "(u16 \<Rightarrow> 'c) \<Rightarrow> ('c nago_message \<Rightarrow> (unit, conn_error) result) \<Rightarrow> wire_message \<Rightarrow> (unit, stream_error) result" where
  "nago_send to_code wr msg = result_map_err map_err (wr (into_nago to_code msg))"

section \<open>From the socket to the session\<close>

definition post_upgrade_connection ::
  "'u web_server \<Rightarrow> conn_refs \<Rightarrow> socket_addr \<Rightarrow> string \<Rightarrow> ('u site \<Rightarrow> 'u site) option \<Rightarrow> nat
    \<Rightarrow> 'u event list \<Rightarrow> bool \<Rightarrow> 'u srv \<Rightarrow> 'u srv" where
  "post_upgrade_connection sv cr addr protocol = serve_connection sv cr (Network addr) (Some protocol)"

text \<open>\<open>upgraded\<close> is what the upgrader returns, \<open>None\<close> when it never does, \<open>upgrade_late\<close> whether its deadline passes.\<close>

definition handle_ws_handshake_and_connection ::
  "'u web_server \<Rightarrow> conn_refs \<Rightarrow> socket_addr \<Rightarrow> bool \<Rightarrow> (upgrade_event option, string) result option
    \<Rightarrow> ('u site \<Rightarrow> 'u site) option \<Rightarrow> nat \<Rightarrow> 'u event list \<Rightarrow> bool \<Rightarrow> 'u srv \<Rightarrow> 'u srv \<times> (unit, string) result option" where
  "handle_ws_handshake_and_connection sv cr addr upgrade_late upgraded late now evs reactor_ok s =
     (if \<not> server_upgrader sv
      then (s, Some (Err ''No WS backend configured; call set_upgrader() before listen()''))
      else
        (case with_deadline (handshake_timeout (server_config sv)) upgrade_late upgraded of
           Err e \<Rightarrow> (s, Some (Err e))
         | Ok None \<Rightarrow> (s, None)
         | Ok (Some (Err e)) \<Rightarrow> (s, Some (Err e))
         | Ok (Some (Ok None)) \<Rightarrow> (s, Some (Ok ()))
         | Ok (Some (Ok (Some ev))) \<Rightarrow>
             (post_upgrade_connection sv cr addr (ue_protocol ev) late now evs reactor_ok s, Some (Ok ()))))"

text \<open>The future a shard keeps for one accepted socket: the listener's handshake, then the connection.\<close>

definition shard_connection ::
  "'u web_server \<Rightarrow> conn_refs \<Rightarrow> socket_addr \<Rightarrow> bool \<Rightarrow> (unit, string) result \<Rightarrow> bool
    \<Rightarrow> (upgrade_event option, string) result option \<Rightarrow> ('u site \<Rightarrow> 'u site) option \<Rightarrow> nat \<Rightarrow> 'u event list \<Rightarrow> bool \<Rightarrow> 'u srv \<Rightarrow> 'u srv" where
  "shard_connection sv cr addr handshake_late handshake upgrade_late upgraded late now evs reactor_ok s =
     (case result_bind (with_deadline (handshake_timeout (server_config sv)) handshake_late handshake) id of
        Err _ \<Rightarrow> s
      | Ok _ \<Rightarrow> fst (handle_ws_handshake_and_connection sv cr addr upgrade_late upgraded late now evs reactor_ok s))"

definition handle_session_connection ::
  "'u web_server \<Rightarrow> conn_refs \<Rightarrow> nat \<Rightarrow> 'u event list \<Rightarrow> bool \<Rightarrow> 'u srv \<Rightarrow> 'u srv" where
  "handle_session_connection sv cr now evs reactor_ok s =
     cleanup_dispatch sv (cr_id cr) (wc_peer (conns (srv_world s) (cr_conn cr))) reactor_ok
       (run_session_connection sv cr now evs s)"

section \<open>Reading the head\<close>

text \<open>
  What \<open>head_end\<close> promises: the position it finds lies in the buffer and depends only on the bytes
  before it.
\<close>

definition head_end_law :: "'e nago_wss \<Rightarrow> bool" where
  "head_end_law nw \<longleftrightarrow>
     (\<forall>b e. nw_head_end nw b = Some e \<longrightarrow> e \<le> length b \<and> (\<forall>x. nw_head_end nw (take e b @ x) = Some e))"

lemma head_end_prefix:
  assumes "head_end_law nw" and "nw_head_end nw (p @ q) = Some e"
  shows "nw_head_end nw p = (if e \<le> length p then Some e else None)"
proof (cases "e \<le> length p")
  case True
  then have "p = take e (p @ q) @ drop e p"
    by simp
  with assms True show ?thesis
    unfolding head_end_law_def by metis
next
  case False
  have "e' = e" if "nw_head_end nw p = Some e'" for e'
  proof -
    have "e' \<le> length p"
      using assms(1) that by (simp add: head_end_law_def)
    then have "p @ q = take e' p @ (drop e' p @ q)"
      by simp
    with assms that show ?thesis
      unfolding head_end_law_def by (metis option.inject)
  qed
  with False assms(1) show ?thesis
    by (cases "nw_head_end nw p") (auto simp: head_end_law_def)
qed

lemma read_head_complete:
  assumes "head_end_law nw" and "list_all (\<lambda>c. c \<noteq> []) cs"
    and "nw_head_end nw (buf @ concat cs) = Some e" and "e \<le> nw_max_head nw"
  shows "\<exists>rest k. read_head nw buf (map Ok cs @ reads) = Some (Ok (HeadRead (take e (buf @ concat cs)) rest)) \<and>
    rest @ concat (drop k cs) = drop e (buf @ concat cs)"
  using assms(2,3)
proof (induction cs arbitrary: buf)
  case Nil
  with assms(1) show ?case
    by (subst read_head.simps) (auto simp: head_end_law_def)
next
  case (Cons c cs)
  note here = head_end_prefix [OF assms(1) Cons.prems(2)]
  show ?case
  proof (cases "e \<le> length buf")
    case True
    with here show ?thesis
      by (subst read_head.simps) (auto intro!: exI [of _ 0])
  next
    case False
    obtain rest k where "read_head nw (buf @ c) (map Ok cs @ reads) =
        Some (Ok (HeadRead (take e ((buf @ c) @ concat cs)) rest))" "rest @ concat (drop k cs) = drop e ((buf @ c) @ concat cs)"
      using Cons.IH [of "buf @ c"] Cons.prems by auto
    with False here assms(4) Cons.prems(1) show ?thesis
      by (subst read_head.simps) (auto intro!: exI [of _ "Suc k"])
  qed
qed

lemma read_head_bounded:
  assumes "\<forall>c. Ok c \<in> set reads \<longrightarrow> length c \<le> n" and "length buf \<le> nw_max_head nw + n"
    and "read_head nw buf reads = Some (Ok (HeadRead h r))"
  shows "length h + length r \<le> nw_max_head nw + n"
  using assms
proof (induction reads arbitrary: buf)
  case Nil
  from Nil.prems(3) Nil.prems(2) show ?case
    by (subst (asm) read_head.simps) (auto split: option.splits if_splits)
next
  case (Cons x reads)
  from Cons.prems(3) Cons.prems(1,2) Cons.IH [of "buf @ (case x of Ok c \<Rightarrow> c | Err _ \<Rightarrow> [])"] show ?case
    by (subst (asm) read_head.simps) (auto split: option.splits if_splits result.splits)
qed

lemma head_end_extend:
  assumes "head_end_law nw" and "nw_head_end nw p = Some e"
  shows "nw_head_end nw (p @ q) = Some e"
proof -
  have "p @ q = take e p @ (drop e p @ q)" by simp
  with assms show ?thesis unfolding head_end_law_def by metis
qed

lemma read_head_too_large:
  assumes "head_end_law nw" and "list_all (\<lambda>c. c \<noteq> []) cs"
  shows "read_head nw buf (map Ok cs) = Some (Ok HeadTooLarge) \<longleftrightarrow>
    (\<exists>k. nw_head_end nw (buf @ concat (take k cs)) = None \<and> nw_max_head nw < length (buf @ concat (take k cs)))"
  using assms(2)
proof (induction cs arbitrary: buf)
  case Nil
  show ?case by (subst read_head.simps) (simp split: option.split)
next
  case (Cons c cs)
  show ?case
  proof (cases "nw_head_end nw buf = None \<and> length buf \<le> nw_max_head nw")
    case True
    have "(\<exists>k. P (buf @ concat (take k (c # cs)))) \<longleftrightarrow> (\<exists>k. P ((buf @ c) @ concat (take k cs)))"
      if "\<not> P buf" for P
    proof
      assume "\<exists>k. P (buf @ concat (take k (c # cs)))"
      then obtain k where k: "P (buf @ concat (take k (c # cs)))" by blast
      with that show "\<exists>k. P ((buf @ c) @ concat (take k cs))" by (cases k) auto
    next
      assume "\<exists>k. P ((buf @ c) @ concat (take k cs))"
      then obtain k where "P ((buf @ c) @ concat (take k cs))" ..
      then show "\<exists>k. P (buf @ concat (take k (c # cs)))" by (intro exI [of _ "Suc k"]) simp
    qed
    from this [of "\<lambda>x. nw_head_end nw x = None \<and> nw_max_head nw < length x"] True Cons show ?thesis
      by (subst read_head.simps) (simp add: add.assoc)
  next
    case False
    then show ?thesis
      using head_end_extend [OF assms(1), of buf]
      by (subst read_head.simps) (auto split: option.split intro: exI [of _ 0])
  qed
qed

lemma read_head_waits:
  assumes "head_end_law nw" and "list_all (\<lambda>c. c \<noteq> []) cs"
  shows "read_head nw buf (map Ok cs) = None \<longleftrightarrow>
    nw_head_end nw (buf @ concat cs) = None \<and> length (buf @ concat cs) \<le> nw_max_head nw"
  using assms(2)
proof (induction cs arbitrary: buf)
  case (Cons c cs)
  then show ?case
    using head_end_extend [OF assms(1), of buf] by (subst read_head.simps) (auto split: option.split)
qed (subst read_head.simps, simp split: option.split)

lemma read_head_whole:
  assumes "head_end_law nw" and "read_head nw buf (map Ok cs) = Some (Ok (HeadRead h r))"
  shows "\<exists>e. nw_head_end nw (buf @ concat cs) = Some e \<and> h = take e (buf @ concat cs)"
  using assms(2)
proof (induction cs arbitrary: buf)
  case Nil
  then show ?case by (subst (asm) read_head.simps) (auto split: option.splits if_splits)
next
  case (Cons c cs)
  show ?case
  proof (cases "nw_head_end nw buf")
    case None
    with Cons.prems have "read_head nw (buf @ c) (map Ok cs) = Some (Ok (HeadRead h r))"
      by (subst (asm) read_head.simps) (auto split: if_splits)
    from Cons.IH [OF this] show ?thesis by simp
  next
    case (Some e)
    with Cons.prems have "h = take e buf" by (subst (asm) read_head.simps) simp
    moreover have "e \<le> length buf" using assms(1) Some by (simp add: head_end_law_def)
    ultimately show ?thesis using head_end_extend [OF assms(1) Some] by simp
  qed
qed

text \<open>
  C19. The request head is read whole, whatever packets it comes in. If the bytes the peer sends contain
  a head of \<open>e\<close> bytes within the limit, then for every way they are cut into reads exactly those
  \<open>e\<close> bytes become the head, and everything after them is kept for the WebSocket connection or still
  in the socket; the buffer never exceeds the limit by more than one read. Nothing but a complete head is ever
  taken for one. The head is refused as too large exactly when some of the reads together exceed the limit and
  still have no end; so a peer that sends more than the limit without finishing a head gets the rejection of
  a large head, and no session. Only a peer within the limit who has not finished is waited for.
\<close>
theorem request_head_chunking:
  assumes "head_end_law nw" and "list_all (\<lambda>c. c \<noteq> [] \<and> length c \<le> n) cs"
  shows "(\<forall>e. nw_head_end nw (concat cs) = Some e \<and> e \<le> nw_max_head nw \<longrightarrow>
      (\<exists>rest k. read_head nw [] (map Ok cs) = Some (Ok (HeadRead (take e (concat cs)) rest)) \<and>
        rest @ concat (drop k cs) = drop e (concat cs) \<and> e + length rest \<le> nw_max_head nw + n)) \<and>
    (\<forall>h r. read_head nw [] (map Ok cs) = Some (Ok (HeadRead h r)) \<longrightarrow>
      (\<exists>e. nw_head_end nw (concat cs) = Some e \<and> h = take e (concat cs))) \<and>
    (read_head nw [] (map Ok cs) = Some (Ok HeadTooLarge) \<longleftrightarrow>
      (\<exists>k. nw_head_end nw (concat (take k cs)) = None \<and> nw_max_head nw < length (concat (take k cs)))) \<and>
    (nw_head_end nw (concat cs) = None \<and> nw_max_head nw < length (concat cs) \<longrightarrow>
      upgrade_inner nw be cfg (map Ok cs) wrote =
        Some ([nw_rejection nw (nw_too_large nw) (error_extra (headers_new be cfg None None))],
              result_map (\<lambda>_. None) (upgrade_write wrote))) \<and>
    (read_head nw [] (map Ok cs) = None \<longleftrightarrow>
      nw_head_end nw (concat cs) = None \<and> length (concat cs) \<le> nw_max_head nw)"
proof -
  have ne: "list_all (\<lambda>c. c \<noteq> []) cs"
    using assms(2) by (simp add: list_all_iff)
  have small: "\<forall>c. Ok c \<in> set (map Ok cs :: (bytes, string) result list) \<longrightarrow> length c \<le> n"
    using assms(2) by (auto simp: list_all_iff)
  have "\<exists>rest k. read_head nw [] (map Ok cs) = Some (Ok (HeadRead (take e (concat cs)) rest)) \<and>
        rest @ concat (drop k cs) = drop e (concat cs) \<and> e + length rest \<le> nw_max_head nw + n"
    if e: "nw_head_end nw (concat cs) = Some e" "e \<le> nw_max_head nw" for e
  proof -
    obtain rest k where r: "read_head nw [] (map Ok cs) = Some (Ok (HeadRead (take e (concat cs)) rest))"
      "rest @ concat (drop k cs) = drop e (concat cs)"
      using read_head_complete [OF assms(1) ne, of "[]" e "[]"] e by auto
    moreover have "e \<le> length (concat cs)"
      using assms(1) e(1) by (simp add: head_end_law_def)
    ultimately show ?thesis
      using read_head_bounded [OF small _ r(1)] by (intro exI [of _ rest] exI [of _ k]) (auto simp: min_def split: if_splits)
  qed
  moreover note large = read_head_too_large [OF assms(1) ne, of "[]", simplified]
  moreover have "upgrade_inner nw be cfg (map Ok cs) wrote =
      Some ([nw_rejection nw (nw_too_large nw) (error_extra (headers_new be cfg None None))],
            result_map (\<lambda>_. None) (upgrade_write wrote))"
    if "nw_head_end nw (concat cs) = None" "nw_max_head nw < length (concat cs)"
  proof -
    have "read_head nw [] (map Ok cs) = Some (Ok HeadTooLarge)"
      using that unfolding large by (intro exI [of _ "length cs"]) simp
    then show ?thesis by (simp add: upgrade_inner_def)
  qed
  moreover note read_head_waits [OF assms(1) ne, of "[]", simplified] read_head_whole [OF assms(1), of "[]" cs, simplified]
  ultimately show ?thesis by blast
qed

section \<open>Cross-origin requests\<close>

text \<open>No line break: the only bytes that could end a header line early.\<close>

definition one_line :: "string \<Rightarrow> bool" where
  "one_line v \<longleftrightarrow> list_all (\<lambda>c. c \<noteq> CHR 0x0D \<and> c \<noteq> CHR 0x0A) v"

lemma safe_one_line: "is_safe_header_value v \<Longrightarrow> one_line v"
  by (auto simp: is_safe_header_value_def one_line_def list_all_iff)

lemma one_line_simps [simp]:
  "one_line []" "one_line (c # v) \<longleftrightarrow> c \<noteq> CHR 0x0D \<and> c \<noteq> CHR 0x0A \<and> one_line v"
  "one_line (v @ w) \<longleftrightarrow> one_line v \<and> one_line w"
  by (auto simp: one_line_def)

lemma one_line_constants [simp]: "one_line ALLOWED_METHODS" "one_line DEFAULT_ALLOW_HEADERS"
  by (simp_all add: ALLOWED_METHODS_def DEFAULT_ALLOW_HEADERS_def)

lemma headers_one_line:
  assumes "one_line (server_name cfg)" and "\<forall>n. be_server_name be = Some n \<longrightarrow> one_line n" and "one_line (be_version be)"
    and "\<forall>ds. allow_cors_urls cfg = Some ds \<longrightarrow> list_all one_line ds"
  shows "list_all (\<lambda>(n, v). one_line v) (error_extra (headers_new be cfg origin requested))"
  using assms
  by (auto simp: headers_new_def error_extra_def ok_extra_def Let_def list_ex_iff list_all_iff safe_one_line
      split: option.splits)

lemma map_of_ok_extra_cors:
  "k \<noteq> ''Server'' \<Longrightarrow> k \<noteq> ''X-Content-Type-Options'' \<Longrightarrow> map_of (ok_extra h) k = map_of (rh_cors h) k"
  by (simp add: ok_extra_def)

text \<open>
  C18. The cross-origin policy. Without an allow list every origin may read, but never with
  credentials. With an allow list, the response names an origin exactly when the request came from
  an origin on the list, and names that one; credentials are allowed exactly then, and a cache is
  told that the answer depends on the origin. Whatever the request's headers contain, no header of a
  response contains a line break, so a client cannot split the response.
\<close>
theorem cors_policy:
  assumes "one_line (server_name cfg)" and "\<forall>n. be_server_name be = Some n \<longrightarrow> one_line n" and "one_line (be_version be)"
    and "\<forall>ds. allow_cors_urls cfg = Some ds \<longrightarrow> list_all one_line ds"
  shows "(case allow_cors_urls cfg of
      None \<Rightarrow>
        map_of (ok_extra (headers_from_request be cfg req)) ''Access-Control-Allow-Origin'' = Some ''*'' \<and>
        map_of (ok_extra (headers_from_request be cfg req)) ''Access-Control-Allow-Credentials'' = None
    | Some ds \<Rightarrow>
        (let origin = request_header req ''origin''; allowed = (\<exists>d \<in> set ds. origin = Some d);
             extra = ok_extra (headers_from_request be cfg req) in
         map_of extra ''Access-Control-Allow-Origin'' = (if allowed then origin else None) \<and>
         (map_of extra ''Access-Control-Allow-Credentials'' = Some ''true'' \<longleftrightarrow> allowed) \<and>
         (map_of extra ''Vary'' = Some ''Origin'' \<longleftrightarrow> allowed))) \<and>
    list_all (\<lambda>(n, v). one_line v) (error_extra (headers_from_request be cfg req))"
proof -
  let ?h = "headers_from_request be cfg req"
  have lines: "list_all (\<lambda>(n, v). one_line v) (error_extra ?h)"
    unfolding headers_from_request_def using assms by (rule headers_one_line)
  show ?thesis
  proof (cases "allow_cors_urls cfg")
    case None
    with lines show ?thesis
      by (simp add: map_of_ok_extra_cors headers_from_request_def headers_new_def)
  next
    case (Some ds)
    then have "rh_cors ?h = [] \<or> (\<exists>d \<in> set ds. request_header req ''origin'' = Some d)"
      by (auto simp: headers_from_request_def headers_new_def list_ex_iff Let_def split: option.split)
    with Some lines show ?thesis
      by (auto simp: map_of_ok_extra_cors headers_from_request_def headers_new_def list_ex_iff Let_def
          split: option.splits if_splits)
  qed
qed

section \<open>The offered protocols\<close>

text \<open>The pieces of a comma separated header, and \<open>Sec-WebSocket-Protocol\<close> as \<open>nago_wss\<close> reads it.\<close>

definition comma_list :: "string \<Rightarrow> string list" where
  "comma_list h = filter (\<lambda>x. x \<noteq> []) (map trim (split_char CHR '','' h))"

definition protocol_law :: "'e nago_wss \<Rightarrow> bool" where
  "protocol_law nw \<longleftrightarrow> (\<forall>head req. nw_parse nw head = Ok (Upgrade req) \<longrightarrow>
     ur_protocols req =
       (case request_header req ''sec-websocket-protocol'' of Some h \<Rightarrow> comma_list h | None \<Rightarrow> []))"

lemma header_pairs_comma_list:
  "header_pairs h = map (\<lambda>x. (take 1 x, drop 1 x)) (filter (\<lambda>x. case x of c # _ \<Rightarrow> is_digit c | [] \<Rightarrow> False) (comma_list h))"
  by (simp add: header_pairs_def comma_list_def)

lemma comma_list_mem: "p \<in> set (comma_list h) \<Longrightarrow> p \<noteq> [] \<and> trim p = p \<and> CHR '','' \<notin> set p"
  using split_char_no_sep set_trim by (fastforce simp: comma_list_def)

lemma comma_list_join:
  assumes "\<forall>p \<in> set ps. p \<noteq> [] \<and> trim p = p \<and> CHR '','' \<notin> set p"
  shows "comma_list (join_protocols ps) = ps"
proof (cases ps)
  case Nil
  then show ?thesis
    by (simp add: join_protocols_def comma_list_def trim_def trim_start_def trim_end_def)
next
  case (Cons p qs)
  have "split_char CHR '','' (p @ concat (map ((#) CHR '','') (map ((#) CHR '' '') qs))) = p # map ((#) CHR '' '') qs"
    using assms Cons by (intro split_char_parts) auto
  moreover have "concat (map ((#) CHR '','') (map ((#) CHR '' '') qs)) = concat (map (\<lambda>q. CHR '','' # CHR '' '' # q) qs)"
    by (simp add: comp_def)
  moreover have "map trim (map ((#) CHR '' '') qs) = qs"
    using assms Cons by (simp add: trim_space_trimmed map_idI)
  ultimately show ?thesis
    using assms Cons by (simp add: join_protocols_def comma_list_def filter_id_conv)
qed

lemma parse_join_comma_list: "parse_protocol_header (join_protocols (comma_list h)) = parse_protocol_header h"
  using comma_list_join [of "comma_list h"] comma_list_mem
  by (simp add: parse_protocol_header_def header_pairs_comma_list)

lemma endpoint_auth_cong:
  "parse_protocol_header h = parse_protocol_header h' \<Longrightarrow>
    endpoint_auth hl sd eac tb h conn a = endpoint_auth hl sd eac tb h' conn a"
  by (simp add: endpoint_auth_def)

text \<open>
  C17. The credentials a client offers reach authentication unchanged. When the upgrade succeeds, the
  protocol string handed on is read by the endpoint controller exactly as the client's own
  \<open>Sec-WebSocket-Protocol\<close> header would be, however it was spaced; a request that is answered in HTTP,
  or fails, gives no session: no connection is registered and nothing is run for it.
\<close>
theorem offered_protocols_reach_auth:
  assumes "protocol_law nw" and "upgrade_stream nw be cfg late reads wrote = Some r"
  shows "(\<forall>ev. r = Ok (Some ev) \<longrightarrow>
      (\<exists>head rest req. read_head nw [] reads = Some (Ok (HeadRead head rest)) \<and>
        nw_parse nw head = Ok (Upgrade req) \<and> ue_buffered ev = rest \<and>
        (\<forall>h. request_header req ''sec-websocket-protocol'' = Some h \<longrightarrow>
          endpoint_auth hl sd eac tb (ue_protocol ev) conn a = endpoint_auth hl sd eac tb h conn a))) \<and>
    ((\<forall>ev. r \<noteq> Ok (Some ev)) \<longrightarrow>
      shard_connection sv cr addr hs_late hs up_late (Some r) auth_late now evs reactor_ok s = s)"
proof (intro conjI allI impI)
  fix ev
  assume "r = Ok (Some ev)"
  then obtain out where "upgrade_inner nw be cfg reads wrote = Some (out, Ok (Some ev))"
    using assms(2) by (auto simp: upgrade_stream_def split: option.splits if_splits)
  then obtain head rest req where req: "read_head nw [] reads = Some (Ok (HeadRead head rest))"
      "nw_parse nw head = Ok (Upgrade req)" "ue_buffered ev = rest" "ue_protocol ev = join_protocols (ur_protocols req)"
    by (auto simp: upgrade_inner_def split: option.splits result.splits head_outcome.splits parsed.splits)
  have "endpoint_auth hl sd eac tb (ue_protocol ev) conn a = endpoint_auth hl sd eac tb h conn a"
    if "request_header req ''sec-websocket-protocol'' = Some h" for h
    using assms(1) req(2,4) that
    by (intro endpoint_auth_cong) (auto simp: protocol_law_def parse_join_comma_list)
  with req show "\<exists>head rest req. read_head nw [] reads = Some (Ok (HeadRead head rest)) \<and>
        nw_parse nw head = Ok (Upgrade req) \<and> ue_buffered ev = rest \<and>
        (\<forall>h. request_header req ''sec-websocket-protocol'' = Some h \<longrightarrow>
          endpoint_auth hl sd eac tb (ue_protocol ev) conn a = endpoint_auth hl sd eac tb h conn a)"
    by blast
next
  assume "\<forall>ev. r \<noteq> Ok (Some ev)"
  then show "shard_connection sv cr addr hs_late hs up_late (Some r) auth_late now evs reactor_ok s = s"
    by (auto simp: shard_connection_def handle_ws_handshake_and_connection_def with_deadline_def
        split: result.splits option.splits)
qed

section \<open>A sample handshake\<close>

text \<open>A head of four bytes; every head asks for an upgrade with one protocol list.\<close>

definition sample_request :: upgrade_request where
  "sample_request = \<lparr>ur_method = MGet, ur_path = ''/'',
     ur_headers = [(''Origin'', ''https://a''), (''Sec-WebSocket-Protocol'', ''0login,1x'')],
     ur_key = ''k'', ur_protocols = [''0login'', ''1x'']\<rparr>"

definition sample_wss :: "unit nago_wss" where
  "sample_wss = \<lparr>nw_head_end = (\<lambda>b. if 4 \<le> length b then Some 4 else None), nw_max_head = 16,
     nw_parse = (\<lambda>_. Ok (Upgrade sample_request)), nw_too_large = (),
     nw_response = (\<lambda>_ _ _. [1]), nw_rejection = (\<lambda>_ _. [0])\<rparr>"

definition sample_env :: build_env where
  "sample_env = \<lparr>be_server_name = None, be_version = ''3.0''\<rparr>"

definition cors_config :: ws_server_config where
  "cors_config = default_config\<lparr>allow_cors_urls := Some [''https://a'']\<rparr>"

text \<open>A head in three packets, and a peer whose head never ends.\<close>

definition endless_wss :: "unit nago_wss" where
  "endless_wss = sample_wss\<lparr>nw_head_end := (\<lambda>_. None)\<rparr>"

theorem request_head_chunking_witness:
  "(\<exists>rest k. read_head sample_wss [] (map Ok [[1, 2], [3], [4, 5], [6]]) = Some (Ok (HeadRead [1, 2, 3, 4] rest)) \<and>
     rest @ concat (drop k [[1, 2], [3], [4, 5], [6]]) = [5, 6] \<and> 4 + length rest \<le> 18) \<and>
   (\<exists>ev. upgrade_inner endless_wss sample_env cors_config (map Ok (replicate 17 [0])) (Ok ()) = Some ([[0]], ev))"
proof -
  have 1: "head_end_law sample_wss" "head_end_law endless_wss"
    by (auto simp: head_end_law_def sample_wss_def endless_wss_def)
  have 2: "list_all (\<lambda>c. c \<noteq> [] \<and> length c \<le> 2) [[1, 2], [3], [4, 5], [6 :: u8]]"
    "list_all (\<lambda>c. c \<noteq> [] \<and> length c \<le> 1) (replicate 17 [0 :: u8])"
    by (simp_all add: list_all_iff)
  have "length (concat (replicate 17 [0 :: u8])) = 17" "nw_max_head endless_wss = 16" "nw_head_end endless_wss b = None" for b
    by (simp_all add: endless_wss_def sample_wss_def numeral_eq_Suc)
  with request_head_chunking [OF 1(1) 2(1)]
    request_head_chunking [OF 1(2) 2(2), of sample_env cors_config "Ok ()"] show ?thesis
    by (simp add: sample_wss_def endless_wss_def)
qed

lemma sample_origin: "request_header sample_request ''origin'' = Some ''https://a''"
  by (simp add: request_header_def sample_request_def to_ascii_lowercase_def ascii_lower_def less_eq_char_def
      char_of_def bit_0)

theorem cors_policy_witness:
  "map_of (ok_extra (headers_from_request sample_env cors_config sample_request)) ''Access-Control-Allow-Origin'' =
     Some ''https://a''"
proof -
  have "one_line (server_name cors_config)" "one_line (be_version sample_env)"
    by (simp_all add: cors_config_def default_config_def default_server_name_def sample_env_def)
  from cors_policy [OF this(1) _ this(2), of sample_request] show ?thesis
    by (simp add: cors_config_def sample_env_def sample_origin Let_def)
qed

lemma sample_protocols: "request_header sample_request ''sec-websocket-protocol'' = Some ''0login,1x''"
  by (simp add: request_header_def sample_request_def to_ascii_lowercase_def ascii_lower_def less_eq_char_def
      char_of_def bit_0)

lemma sample_protocol_law: "protocol_law sample_wss"
  by (simp add: protocol_law_def sample_wss_def sample_protocols comma_list_def trim_graphic graphic_def)
    (simp add: sample_request_def)

lemma sample_parse: "nw_parse sample_wss head = Ok (Upgrade sample_request)"
  by (simp add: sample_wss_def)

theorem offered_protocols_reach_auth_witness:
  "\<exists>ev. upgrade_stream sample_wss sample_env cors_config False [Ok [1, 2, 3, 4, 5]] (Ok ()) = Some (Ok (Some ev)) \<and>
     (\<forall>(eac :: unit endpoint_auth_controller) a.
       endpoint_auth sample_lib header_serde eac toolbox_new (ue_protocol ev) 7 a =
       endpoint_auth sample_lib header_serde eac toolbox_new ''0login,1x'' 7 a)"
proof -
  have head: "read_head sample_wss [] [Ok [1, 2, 3, 4, 5]] = Some (Ok (HeadRead [1, 2, 3, 4] [5]))"
    by (simp add: read_head.simps sample_wss_def)
  then have "\<exists>ev. upgrade_stream sample_wss sample_env cors_config False [Ok [1, 2, 3, 4, 5]] (Ok ()) =
      Some (Ok (Some ev))"
    by (simp add: upgrade_stream_def upgrade_inner_def sample_parse upgrade_write_def split: option.split)
  then obtain ev where up: "upgrade_stream sample_wss sample_env cors_config False [Ok [1, 2, 3, 4, 5]] (Ok ()) =
      Some (Ok (Some ev))"
    by blast
  have "endpoint_auth sample_lib header_serde eac toolbox_new (ue_protocol ev) 7 a =
      endpoint_auth sample_lib header_serde eac toolbox_new ''0login,1x'' 7 a" for eac :: "unit endpoint_auth_controller" and a
    using offered_protocols_reach_auth [OF sample_protocol_law up, of sample_lib header_serde eac toolbox_new 7 a] head
    by (auto simp: sample_parse sample_protocols)
  with up show ?thesis
    by blast
qed

end
