(* ===== verification/Client.thy ===== *)
theory Client
  imports Upgrader
begin

text \<open>
  \<open>src/libs/ws/client.rs\<close>: the client. Its transport is what each read returns and what it answers to
  a write; the URL parser, the resolver, TLS and the client side of the handshake are \<open>nago_wss\<close> and
  come as their results. A value of the response type stands for the JSON it is read from, so \<open>de\<close>
  is the derived deserialisation of a response frame and fails where the response type's own does.
  Sequence numbers wrap as they do in a release build.
\<close>

section \<open>The connection\<close>

datatype client_backend = PlainConn | SecureConn | MessageConn

text \<open>\<open>cl_out\<close> and \<open>cl_logged\<close> only observe: the messages written and the log lines of the server repeated.\<close>

record ws_client =
  cl_backend :: client_backend
  cl_seq :: u32
  cl_out :: "wire_message list"
  cl_logged :: "(log_level \<times> u64 \<times> string) list"

definition from_stream :: ws_client where
  "from_stream = \<lparr>cl_backend = MessageConn, cl_seq = 0, cl_out = [], cl_logged = []\<rparr>"

text \<open>One read of the transport: of a WebSocket, with the answer to the pong it may write, or of a message stream.\<close>

datatype 'c client_read =
    NagoRead "('c nago_message option, string) result" "(unit, string) result"
  | StreamRead "(wire_message, string) result option"

text \<open>The client's own copies of the conversions at the backend's edge.\<close>

fun client_from_nago :: "('c \<Rightarrow> u16) \<Rightarrow> 'c nago_message \<Rightarrow> wire_message" where
  "client_from_nago of_code (NText payload) = Text (Utf8Bytes payload)"
| "client_from_nago of_code (NBinary payload) = Binary payload"
| "client_from_nago of_code (NPing payload) = Ping payload"
| "client_from_nago of_code (NPong payload) = Pong payload"
| "client_from_nago of_code (NClose frame) =
     Close (map_option (\<lambda>f. \<lparr>cf_code = of_code (ncf_code f), cf_reason = Utf8Bytes (ncf_reason f)\<rparr>) frame)"

fun client_into_nago :: "(u16 \<Rightarrow> 'c) \<Rightarrow> wire_message \<Rightarrow> 'c nago_message" where
  "client_into_nago to_code (Text t) = NText (utf8_as_bytes t)"
| "client_into_nago to_code (Binary payload) = NBinary payload"
| "client_into_nago to_code (Ping payload) = NPing payload"
| "client_into_nago to_code (Pong payload) = NPong payload"
| "client_into_nago to_code (Close frame) =
     NClose (map_option (\<lambda>f. \<lparr>ncf_code = to_code (cf_code f), ncf_reason = utf8_as_bytes (cf_reason f)\<rparr>) frame)"

definition client_write :: "wire_message \<Rightarrow> ws_client \<Rightarrow> ws_client" where
  "client_write msg cl = cl\<lparr>cl_out := cl_out cl @ [msg]\<rparr>"

definition stream_send :: "(unit, string) result \<Rightarrow> wire_message \<Rightarrow> ws_client \<Rightarrow> ws_client \<times> (unit, string) result" where
  "stream_send wrote msg cl =
     (case wrote of
        Ok _ \<Rightarrow> (client_write msg cl, Ok ())
      | Err err \<Rightarrow>
          (cl, Err ((case cl_backend cl of MessageConn \<Rightarrow> ''message stream send failed: '' | _ \<Rightarrow> ''websocket write failed: '')
             @ err)))"

fun stream_next :: "('c \<Rightarrow> u16) \<Rightarrow> 'c client_read \<Rightarrow> ws_client \<Rightarrow> ws_client \<times> (wire_message, string) result option" where
  "stream_next of_code (NagoRead (Ok None) pong) cl = (cl, None)"
| "stream_next of_code (NagoRead (Ok (Some m)) pong) cl =
     (case m of
        NPing payload \<Rightarrow>
          (case pong of
             Err err \<Rightarrow> (cl, Some (Err (''failed to answer ping: '' @ err)))
           | Ok _ \<Rightarrow> (client_write (Pong payload) cl, Some (Ok (Ping payload))))
      | other \<Rightarrow> (cl, Some (Ok (client_from_nago of_code other))))"
| "stream_next of_code (NagoRead (Err err) pong) cl = (cl, Some (Err (''websocket read failed: '' @ err)))"
| "stream_next of_code (StreamRead r) cl =
     (cl, map_option (result_map_err (\<lambda>err. ''message stream recv failed: '' @ err)) r)"

definition stream_close :: "(unit, string) result \<Rightarrow> ws_client \<Rightarrow> ws_client \<times> (unit, string) result" where
  "stream_close wrote cl =
     (case cl_backend cl of
        MessageConn \<Rightarrow> (case wrote of Ok _ \<Rightarrow> client_write (Close None) cl | Err _ \<Rightarrow> cl, Ok ())
      | _ \<Rightarrow>
          (case wrote of
             Ok _ \<Rightarrow> (client_write (Close None) cl, Ok ())
           | Err err \<Rightarrow> (cl, Err (''websocket close failed: '' @ err))))"

section \<open>Requests\<close>

text \<open>\<open>ser\<close> is the derived serialisation of a request.\<close>

definition send_req ::
  "(ws_request_value \<Rightarrow> (string, string) result) \<Rightarrow> (unit, string) result \<Rightarrow> u32 \<Rightarrow> json \<Rightarrow> ws_client
    \<Rightarrow> ws_client \<times> (unit, string) result" where
  "send_req ser wrote method params cl =
     (let cl = cl\<lparr>cl_seq := cl_seq cl + 1\<rparr> in
      case ser \<lparr>rq_method = method, rq_seq = cl_seq cl, rq_params = params\<rparr> of
        Err err \<Rightarrow> (cl, Err err)
      | Ok req \<Rightarrow> stream_send wrote (wire_from_string req) cl)"

definition client_send_raw ::
  "(unit, string) result \<Rightarrow> bytes \<Rightarrow> ws_client \<Rightarrow> ws_client \<times> (unit, string) result" where
  "client_send_raw wrote request cl =
     (if utf8_valid request then stream_send wrote (wire_from_string (bytes_str request)) cl
      else (cl, Err ''Invalid UTF-8 in request bytes''))"

definition message_kind :: "wire_message \<Rightarrow> string" where
  "message_kind m =
     (case m of Text _ \<Rightarrow> ''text'' | Binary _ \<Rightarrow> ''binary'' | Ping _ \<Rightarrow> ''ping'' | Pong _ \<Rightarrow> ''pong'' | Close _ \<Rightarrow> ''close'')"

definition recv_raw ::
  "('c \<Rightarrow> u16) \<Rightarrow> (bytes \<Rightarrow> (json, string) result) \<Rightarrow> 'c client_read \<Rightarrow> ws_client \<Rightarrow> ws_client \<times> (json, string) result" where
  "recv_raw of_code parse r cl =
     (case stream_next of_code r cl of
        (cl, None) \<Rightarrow> (cl, Err ''Connection closed'')
      | (cl, Some (Err err)) \<Rightarrow> (cl, Err err)
      | (cl, Some (Ok (Text t))) \<Rightarrow> (cl, parse (utf8_as_bytes t))
      | (cl, Some (Ok other)) \<Rightarrow> (cl, Err (''Expected text message, got '' @ message_kind other)))"

text \<open>A log line of the server, at the level it is repeated with.\<close>

definition relog :: "ws_log_response \<Rightarrow> ws_client \<Rightarrow> ws_client" where
  "relog l cl =
     (case lr_level l of
        Off_Level \<Rightarrow> cl
      | Detail_Level \<Rightarrow> cl\<lparr>cl_logged := cl_logged cl @ [(Trace_Level, lr_log_id l, lr_message l)]\<rparr>
      | level \<Rightarrow> cl\<lparr>cl_logged := cl_logged cl @ [(level, lr_log_id l, lr_message l)]\<rparr>)"

text \<open>
  One turn of \<open>recv_resp\<close>: \<open>None\<close> goes round again. \<open>dbg\<close> is the derived \<open>Debug\<close> of a JSON value, \<open>wrote\<close>
  the transport's answer should a close be sent.
\<close>

definition recv_turn ::
  "('c \<Rightarrow> u16) \<Rightarrow> (bytes \<Rightarrow> (ws_response_value, string) result) \<Rightarrow> (json \<Rightarrow> string) \<Rightarrow> (unit, string) result
    \<Rightarrow> 'c client_read \<Rightarrow> ws_client \<Rightarrow> ws_client \<times> (json, string) result option" where
  "recv_turn of_code de dbg wrote r cl =
     (case stream_next of_code r cl of
        (cl, None) \<Rightarrow> (cl, Some (Err ''Connection closed''))
      | (cl, Some (Err err)) \<Rightarrow> (cl, Some (Err err))
      | (cl, Some (Ok msg)) \<Rightarrow>
          (case msg of
             Text t \<Rightarrow>
               (case de (utf8_as_bytes t) of
                  Err err \<Rightarrow> (cl, Some (Err err))
                | Ok (Immediate resp) \<Rightarrow>
                    if sr_seq resp = cl_seq cl then (cl, Some (Ok (sr_params resp)))
                    else (cl, Some (Err (''Seq mismatch this: '' @ show_nat (unat (cl_seq cl)) @ '' got: ''
                           @ show_nat (unat (sr_seq resp)))))
                | Ok (Stream _) \<Rightarrow> (cl, None)
                | Ok (Forwarded _ _) \<Rightarrow> (cl, None)
                | Ok CloseResponse \<Rightarrow> (cl, Some (Err ''unreachable''))
                | Ok (LogResponse l) \<Rightarrow> (relog l cl, None)
                | Ok (ErrorResponse e) \<Rightarrow>
                    (cl, Some (Err (''Error: '' @ show_nat (unat (re_code e)) @ '' '' @ dbg (re_params e)))))
           | Close _ \<Rightarrow>
               (case stream_close wrote cl of
                  (cl, Ok _) \<Rightarrow> (cl, Some (Err ''Connection closed''))
                | (cl, Err err) \<Rightarrow> (cl, Some (Err err)))
           | _ \<Rightarrow> (cl, None)))"

text \<open>\<open>None\<close> waits for more.\<close>

fun recv_resp ::
  "('c \<Rightarrow> u16) \<Rightarrow> (bytes \<Rightarrow> (ws_response_value, string) result) \<Rightarrow> (json \<Rightarrow> string) \<Rightarrow> (unit, string) result
    \<Rightarrow> 'c client_read list \<Rightarrow> ws_client \<Rightarrow> ws_client \<times> (json, string) result option" where
  "recv_resp of_code de dbg wrote [] cl = (cl, None)"
| "recv_resp of_code de dbg wrote (r # rs) cl =
     (case recv_turn of_code de dbg wrote r cl of
        (cl, Some res) \<Rightarrow> (cl, Some res)
      | (cl, None) \<Rightarrow> recv_resp of_code de dbg wrote rs cl)"

definition request ::
  "('c \<Rightarrow> u16) \<Rightarrow> (ws_request_value \<Rightarrow> (string, string) result) \<Rightarrow> (bytes \<Rightarrow> (ws_response_value, string) result)
    \<Rightarrow> (json \<Rightarrow> string) \<Rightarrow> (unit, string) result \<Rightarrow> (unit, string) result \<Rightarrow> u32 \<Rightarrow> json \<Rightarrow> 'c client_read list \<Rightarrow> ws_client
    \<Rightarrow> ws_client \<times> (json, string) result option" where
  "request of_code ser de dbg sent_ok wrote method params rs cl =
     (case send_req ser sent_ok method params cl of
        (cl, Err err) \<Rightarrow> (cl, Some (Err err))
      | (cl, Ok _) \<Rightarrow> recv_resp of_code de dbg wrote rs cl)"

definition client_close :: "(unit, string) result \<Rightarrow> ws_client \<Rightarrow> ws_client \<times> (unit, string) result" where
  "client_close wrote cl = stream_close wrote cl"

section \<open>Connecting\<close>

text \<open>A URL as \<open>nago_wss\<close> parses it.\<close>

record ws_url =
  url_secure :: bool
  url_host :: string
  url_port :: u16
  url_host_header :: string
  url_path :: string

record ws_target =
  tg_secure :: bool
  tg_host :: string
  tg_host_header :: string
  tg_path :: string
  tg_addrs :: "string list"

text \<open>\<open>tls\<close> is whether the crate is built with \<open>ws-client-tls\<close>.\<close>

definition resolve_target ::
  "bool \<Rightarrow> (string \<Rightarrow> (ws_url, string) result) \<Rightarrow> (string \<Rightarrow> u16 \<Rightarrow> (string list, string) result) \<Rightarrow> string
    \<Rightarrow> (ws_target, string) result" where
  "resolve_target tls parse lookup url =
     (case parse url of
        Err err \<Rightarrow> Err (''invalid WebSocket URL '' @ url @ '': '' @ err)
      | Ok u \<Rightarrow>
          if \<not> tls \<and> url_secure u
          then Err (''wss:// needs the `ws-client-tls` feature; this build speaks plain ws:// only '' @
                    ''(the fleet terminates TLS at the edge)'')
          else
            (case lookup (url_host u) (url_port u) of
               Err err \<Rightarrow> Err (''DNS resolution failed for '' @ url_host u @ '': '' @ err)
             | Ok addrs \<Rightarrow>
                 Ok \<lparr>tg_secure = url_secure u, tg_host = url_host u, tg_host_header = url_host_header u,
                     tg_path = url_path u, tg_addrs = addrs\<rparr>))"

definition is_secure :: "ws_target \<Rightarrow> bool" where "is_secure t = tg_secure t"

datatype ws_version_mode = Http1Only | Http2Only | Auto

record ws_client_builder =
  cb_tls_config :: "nat option"
  cb_protocol_header :: string
  cb_headers :: headers
  cb_danger :: bool

definition builder_new :: ws_client_builder where
  "builder_new = \<lparr>cb_tls_config = None, cb_protocol_header = [], cb_headers = [], cb_danger = False\<rparr>"

definition builder_mode :: "ws_version_mode \<Rightarrow> ws_client_builder \<Rightarrow> ws_client_builder" where
  "builder_mode mode b = b"

definition builder_protocol_header :: "string \<Rightarrow> ws_client_builder \<Rightarrow> ws_client_builder" where
  "builder_protocol_header p b = b\<lparr>cb_protocol_header := p\<rparr>"

definition builder_header :: "string \<Rightarrow> string \<Rightarrow> ws_client_builder \<Rightarrow> ws_client_builder" where
  "builder_header k v b = b\<lparr>cb_headers := cb_headers b @ [(k, v)]\<rparr>"

definition builder_headers :: "headers \<Rightarrow> ws_client_builder \<Rightarrow> ws_client_builder" where
  "builder_headers hs b = b\<lparr>cb_headers := cb_headers b @ hs\<rparr>"

definition danger_accept_invalid_certs :: "ws_client_builder \<Rightarrow> ws_client_builder" where
  "danger_accept_invalid_certs b = b\<lparr>cb_danger := True\<rparr>"

definition builder_tls_config :: "nat \<Rightarrow> ws_client_builder \<Rightarrow> ws_client_builder" where
  "builder_tls_config c b = b\<lparr>cb_tls_config := Some c\<rparr>"

record ws_connect_response =
  wr_status :: u16
  wr_headers :: headers
  wr_protocol :: "string option"

definition connect_response :: "string option \<Rightarrow> ws_connect_response" where
  "connect_response protocol =
     \<lparr>wr_status = 101,
      wr_headers = (case protocol of Some p \<Rightarrow> [(''sec-websocket-protocol'', p)] | None \<Rightarrow> []),
      wr_protocol = protocol\<rparr>"

text \<open>Which certificates a TLS session accepts.\<close>

datatype tls_policy = ExplicitPolicy nat | AcceptAll | DefaultRoots

text \<open>
  What the outside answers while dialling: TCP, the server name, the TLS session and its handshake
  under a policy, and the WebSocket handshake with the protocol it selects.
\<close>

record dial =
  di_tcp :: "(unit, string) result"
  di_name_ok :: bool
  di_session :: "tls_policy \<Rightarrow> (unit, string) result"
  di_tls :: "tls_policy \<Rightarrow> (unit, string) result"
  di_upgrade :: "string \<Rightarrow> string \<Rightarrow> string list \<Rightarrow> headers \<Rightarrow> (string option, string) result"
  di_show_addrs :: "string list \<Rightarrow> string"

definition tcp_connect :: "dial \<Rightarrow> ws_target \<Rightarrow> (unit, string) result" where
  "tcp_connect di tg =
     result_map_err (\<lambda>err. ''TCP connect failed for '' @ di_show_addrs di (tg_addrs tg) @ '': '' @ err) (di_tcp di)"

definition ws_upgrade ::
  "dial \<Rightarrow> ws_target \<Rightarrow> client_backend \<Rightarrow> string list \<Rightarrow> headers \<Rightarrow> (ws_client \<times> ws_connect_response, string) result" where
  "ws_upgrade di tg backend protocols headers =
     result_map (\<lambda>protocol.
         (\<lparr>cl_backend = backend, cl_seq = 0, cl_out = [], cl_logged = []\<rparr>, connect_response protocol))
       (result_map_err (\<lambda>err. ''WebSocket upgrade failed: '' @ err)
         (di_upgrade di (tg_path tg) (tg_host_header tg) protocols headers))"

definition connect_secure ::
  "dial \<Rightarrow> ws_target \<Rightarrow> string list \<Rightarrow> headers \<Rightarrow> bool \<Rightarrow> nat option
    \<Rightarrow> (tls_policy \<times> ws_client \<times> ws_connect_response, string) result" where
  "connect_secure di tg protocols headers danger tls_config =
     (if danger \<and> tls_config \<noteq> None then Err ''explicit TLS policy cannot accept invalid certificates''
      else
        result_bind (tcp_connect di tg) (\<lambda>_.
        let policy = (case tls_config of Some c \<Rightarrow> ExplicitPolicy c | None \<Rightarrow> if danger then AcceptAll else DefaultRoots) in
        if \<not> di_name_ok di then Err (''invalid TLS server name: '' @ tg_host tg)
        else
          result_bind (result_map_err (\<lambda>err. ''TLS session setup failed: '' @ err) (di_session di policy)) (\<lambda>_.
          result_bind (result_map_err (\<lambda>err. ''TLS handshake failed: '' @ err) (di_tls di policy)) (\<lambda>_.
          result_map (Pair policy) (ws_upgrade di tg SecureConn protocols headers)))))"

text \<open>The policy of the TLS session, if there is one, with the client.\<close>

definition connect ::
  "bool \<Rightarrow> dial \<Rightarrow> ws_target \<Rightarrow> ws_client_builder
    \<Rightarrow> (tls_policy option \<times> ws_client \<times> ws_connect_response, string) result" where
  "connect tls di tg b =
     (let protocols = (if cb_protocol_header b = [] then [] else [cb_protocol_header b]) in
      if tg_secure tg then
        (if tls
         then result_map (map_prod Some id) (connect_secure di tg protocols (cb_headers b) (cb_danger b) (cb_tls_config b))
         else Err ''wss:// needs the `ws-client-tls` feature'')
      else
        result_bind (tcp_connect di tg) (\<lambda>_.
        result_map (Pair None) (ws_upgrade di tg PlainConn protocols (cb_headers b))))"

definition client_build ::
  "bool \<Rightarrow> (string \<Rightarrow> (ws_url, string) result) \<Rightarrow> (string \<Rightarrow> u16 \<Rightarrow> (string list, string) result) \<Rightarrow> dial \<Rightarrow> string
    \<Rightarrow> ws_client_builder \<Rightarrow> (tls_policy option \<times> ws_client \<times> ws_connect_response, string) result" where
  "client_build tls parse lookup di addr b =
     result_bind (resolve_target tls parse lookup addr) (\<lambda>tg. connect tls di tg b)"

definition client_new ::
  "bool \<Rightarrow> (string \<Rightarrow> (ws_url, string) result) \<Rightarrow> (string \<Rightarrow> u16 \<Rightarrow> (string list, string) result) \<Rightarrow> dial \<Rightarrow> string
    \<Rightarrow> string \<Rightarrow> headers option \<Rightarrow> (tls_policy option \<times> ws_client \<times> ws_connect_response, string) result" where
  "client_new tls parse lookup di addr protocol_header headers =
     (let b = builder_protocol_header protocol_header builder_new;
          b = (case headers of Some hs \<Rightarrow> builder_headers hs b | None \<Rightarrow> b) in
      client_build tls parse lookup di addr b)"

text \<open>The native byte order is little-endian.\<close>

definition ne_bytes :: "u64 \<Rightarrow> bytes" where
  "ne_bytes w = map (\<lambda>i. ucast (drop_bit (8 * i) w)) [0 ..< 8]"

definition handshake_entropy :: "u64 \<Rightarrow> u64 \<Rightarrow> u64 \<Rightarrow> bytes" where
  "handshake_entropy nanos counted addr = ne_bytes nanos @ ne_bytes (xor counted addr)"

section \<open>Which frame answers a request\<close>

text \<open>What a read delivers; the frames \<open>recv_resp\<close> passes over; the pongs a list of reads is owed.\<close>

definition delivers :: "('c \<Rightarrow> u16) \<Rightarrow> 'c client_read \<Rightarrow> (wire_message, string) result option" where
  "delivers of_code r = snd (stream_next of_code r from_stream)"

fun passed_over :: "(bytes \<Rightarrow> (ws_response_value, string) result) \<Rightarrow> wire_message \<Rightarrow> bool" where
  "passed_over de (Text t) \<longleftrightarrow>
     (case de (utf8_as_bytes t) of
        Ok (Stream _) \<Rightarrow> True | Ok (Forwarded _ _) \<Rightarrow> True | Ok (LogResponse _) \<Rightarrow> True | _ \<Rightarrow> False)"
| "passed_over de (Close f) \<longleftrightarrow> False"
| "passed_over de m \<longleftrightarrow> True"

definition skips :: "('c \<Rightarrow> u16) \<Rightarrow> (bytes \<Rightarrow> (ws_response_value, string) result) \<Rightarrow> 'c client_read \<Rightarrow> bool" where
  "skips of_code de r \<longleftrightarrow> (\<exists>m. delivers of_code r = Some (Ok m) \<and> passed_over de m)"

fun pongs :: "'c client_read list \<Rightarrow> wire_message list" where
  "pongs [] = []"
| "pongs (NagoRead (Ok (Some (NPing p))) (Ok u) # rs) = Pong p # pongs rs"
| "pongs (_ # rs) = pongs rs"

text \<open>They agree with those of the server's side, so the two ends translate alike.\<close>

lemma client_conversions_agree: "client_from_nago = from_nago" "client_into_nago = into_nago"
proof -
  have "client_from_nago c m = from_nago c m" for c :: "'a \<Rightarrow> u16" and m
    by (cases m) simp_all
  then show "client_from_nago = (from_nago :: ('a \<Rightarrow> u16) \<Rightarrow> _)"
    by (intro ext)
  have "client_into_nago c m = into_nago c m" for c :: "u16 \<Rightarrow> 'b" and m
    by (cases m) simp_all
  then show "client_into_nago = (into_nago :: (u16 \<Rightarrow> 'b) \<Rightarrow> _)"
    by (intro ext)
qed

lemma stream_next_delivers: "snd (stream_next of_code r cl) = delivers of_code r"
  by (cases "(of_code, r, cl)" rule: stream_next.cases)
    (auto simp: delivers_def split: nago_message.split result.split)

lemma stream_next_state:
  "cl_seq (fst (stream_next of_code r cl)) = cl_seq cl"
  "cl_out (fst (stream_next of_code r cl)) = cl_out cl @ pongs [r]"
  by (cases "(of_code, r, cl)" rule: stream_next.cases;
      auto simp: client_write_def split: nago_message.split result.split)+

lemma pongs_Cons: "pongs (r # rs) = pongs [r] @ pongs rs"
  by (cases "[r]" rule: pongs.cases) auto

lemma relog_state [simp]: "cl_seq (relog l cl) = cl_seq cl" "cl_out (relog l cl) = cl_out cl"
  by (simp_all add: relog_def split: log_level.split)

lemma recv_turn_skip:
  assumes "skips of_code de r"
  shows "\<exists>cl'. recv_turn of_code de dbg wrote r cl = (cl', None) \<and> cl_seq cl' = cl_seq cl \<and>
    cl_out cl' = cl_out cl @ pongs [r]"
proof -
  obtain m cl1 where m: "stream_next of_code r cl = (cl1, Some (Ok m))" "passed_over de m"
    using assms stream_next_delivers [of of_code r cl] by (cases "stream_next of_code r cl") (auto simp: skips_def)
  then have "cl_seq cl1 = cl_seq cl" "cl_out cl1 = cl_out cl @ pongs [r]"
    using stream_next_state [of of_code r cl] by auto
  with m show ?thesis
    by (cases m) (auto simp: recv_turn_def split: result.splits ws_response_value.splits)
qed

lemma recv_resp_skip:
  assumes "list_all (skips of_code de) ps"
  shows "\<exists>cl'. recv_resp of_code de dbg wrote (ps @ rs) cl = recv_resp of_code de dbg wrote rs cl' \<and>
    cl_seq cl' = cl_seq cl \<and> cl_out cl' = cl_out cl @ pongs ps"
  using assms
proof (induction ps arbitrary: cl)
  case (Cons r ps)
  then obtain cl1 where "recv_turn of_code de dbg wrote r cl = (cl1, None)" "cl_seq cl1 = cl_seq cl"
      "cl_out cl1 = cl_out cl @ pongs [r]"
    using recv_turn_skip by fastforce
  then show ?case
    using Cons.IH [of cl1] Cons.prems by (auto simp: pongs_Cons [of r ps])
qed auto

text \<open>A turn that ends the wait ends it with the value of the matching response, or with an error.\<close>

lemma recv_turn_value:
  "snd (recv_turn of_code de dbg wrote r cl) = Some (Ok v) \<longleftrightarrow>
     (\<exists>t resp. delivers of_code r = Some (Ok (Text t)) \<and> de (utf8_as_bytes t) = Ok (Immediate resp) \<and>
        sr_seq resp = cl_seq cl \<and> sr_params resp = v)"
proof -
  obtain cl1 d where d: "stream_next of_code r cl = (cl1, d)"
    by fastforce
  then have "cl_seq cl1 = cl_seq cl" "delivers of_code r = d"
    using stream_next_state(1) [of of_code r cl] stream_next_delivers [of of_code r cl] by auto
  with d show ?thesis
    by (auto simp: recv_turn_def split: option.splits result.splits wire_message.splits ws_response_value.splits prod.splits)
qed

lemma recv_turn_None: "snd (recv_turn of_code de dbg wrote r cl) = None \<longleftrightarrow> skips of_code de r"
proof -
  obtain cl1 d where d: "stream_next of_code r cl = (cl1, d)"
    by fastforce
  then have "delivers of_code r = d"
    using stream_next_delivers [of of_code r cl] by auto
  with d show ?thesis
    by (auto simp: recv_turn_def skips_def split: option.splits result.splits wire_message.splits
        ws_response_value.splits prod.splits)
qed

lemma recv_resp_value:
  "snd (recv_resp of_code de dbg wrote rs cl) = Some (Ok v) \<longleftrightarrow>
     (\<exists>ps r qs t resp. rs = ps @ r # qs \<and> list_all (skips of_code de) ps \<and>
        delivers of_code r = Some (Ok (Text t)) \<and> de (utf8_as_bytes t) = Ok (Immediate resp) \<and>
        sr_seq resp = cl_seq cl \<and> sr_params resp = v)" (is "?lhs \<longleftrightarrow> ?rhs")
proof
  show "?lhs \<Longrightarrow> ?rhs"
  proof (induction rs arbitrary: cl)
    case (Cons r rs)
    obtain cl1 o1 where turn: "recv_turn of_code de dbg wrote r cl = (cl1, o1)"
      by fastforce
    show ?case
    proof (cases o1)
      case None
      then have skip: "skips of_code de r"
        using turn recv_turn_None [of of_code de dbg wrote r cl] by simp
      then have seq: "cl_seq cl1 = cl_seq cl"
        using recv_turn_skip [OF skip, of dbg wrote cl] turn by auto
      have "snd (recv_resp of_code de dbg wrote rs cl1) = Some (Ok v)"
        using Cons.prems turn None by simp
      from Cons.IH [OF this] obtain ps q qs t resp where
        "rs = ps @ q # qs" "list_all (skips of_code de) ps" "delivers of_code q = Some (Ok (Text t))"
        "de (utf8_as_bytes t) = Ok (Immediate resp)" "sr_seq resp = cl_seq cl1" "sr_params resp = v"
        by blast
      with skip seq show ?thesis
        by (intro exI [of _ "r # ps"] exI [of _ q] exI [of _ qs] exI [of _ t] exI [of _ resp]) simp
    next
      case (Some res)
      then have "snd (recv_turn of_code de dbg wrote r cl) = Some (Ok v)"
        using Cons.prems turn by simp
      then obtain t resp where "delivers of_code r = Some (Ok (Text t))" "de (utf8_as_bytes t) = Ok (Immediate resp)"
          "sr_seq resp = cl_seq cl" "sr_params resp = v"
        unfolding recv_turn_value by blast
      then show ?thesis
        by (intro exI [of _ "[]"]) auto
    qed
  qed simp
next
  assume ?rhs
  then obtain ps r qs t resp where rs: "rs = ps @ r # qs" "list_all (skips of_code de) ps" and
      resp: "delivers of_code r = Some (Ok (Text t))" "de (utf8_as_bytes t) = Ok (Immediate resp)"
        "sr_seq resp = cl_seq cl" "sr_params resp = v"
    by blast
  obtain cl' where cl': "recv_resp of_code de dbg wrote rs cl = recv_resp of_code de dbg wrote (r # qs) cl'" "cl_seq cl' = cl_seq cl"
    using recv_resp_skip [OF rs(2), of dbg wrote "r # qs" cl] rs(1) by auto
  then have "snd (recv_turn of_code de dbg wrote r cl') = Some (Ok v)"
    unfolding recv_turn_value using resp by auto
  with cl'(1) show ?lhs
    by (cases "recv_turn of_code de dbg wrote r cl'") simp
qed

text \<open>
  C20. A request is answered by its own response and nothing else. \<open>request\<close> returns a value exactly
  when, after frames it may pass over (stream, forwarded and log frames, binary messages, pings and
  pongs), a response with the number of this request arrives, and then it is that response's value;
  a response with another number is an error. Meanwhile every ping is answered, in order, with its
  own payload.
\<close>
theorem client_response_correlation:
  assumes "send_req ser sent_ok method params cl = (cl1, Ok ())"
  shows "(snd (request of_code ser de dbg sent_ok wrote method params rs cl) = Some (Ok v) \<longleftrightarrow>
      (\<exists>ps r qs t resp. rs = ps @ r # qs \<and> list_all (skips of_code de) ps \<and>
        delivers of_code r = Some (Ok (Text t)) \<and> de (utf8_as_bytes t) = Ok (Immediate resp) \<and>
        sr_seq resp = cl_seq cl + 1 \<and> sr_params resp = v)) \<and>
    (\<forall>ps r qs t resp. rs = ps @ r # qs \<and> list_all (skips of_code de) ps \<and>
        delivers of_code r = Some (Ok (Text t)) \<and> de (utf8_as_bytes t) = Ok (Immediate resp) \<and>
        sr_seq resp \<noteq> cl_seq cl + 1 \<longrightarrow>
      (\<exists>e. snd (request of_code ser de dbg sent_ok wrote method params rs cl) = Some (Err e))) \<and>
    (list_all (skips of_code de) rs \<longrightarrow>
      snd (request of_code ser de dbg sent_ok wrote method params rs cl) = None \<and>
      cl_out (fst (request of_code ser de dbg sent_ok wrote method params rs cl)) = cl_out cl1 @ pongs rs)"
proof -
  have seq: "cl_seq cl1 = cl_seq cl + 1"
    using assms by (auto simp: send_req_def stream_send_def client_write_def Let_def split: result.splits)
  have req: "request of_code ser de dbg sent_ok wrote method params rs cl = recv_resp of_code de dbg wrote rs cl1"
    using assms by (simp add: request_def)
  have "\<exists>e. snd (recv_resp of_code de dbg wrote rs cl1) = Some (Err e)"
    if rs: "rs = ps @ r # qs" "list_all (skips of_code de) ps"
      and resp: "delivers of_code r = Some (Ok (Text t))" "de (utf8_as_bytes t) = Ok (Immediate resp)"
        "sr_seq resp \<noteq> cl_seq cl + 1" for ps r qs t resp
  proof -
    obtain cl' where cl': "recv_resp of_code de dbg wrote rs cl1 = recv_resp of_code de dbg wrote (r # qs) cl'"
        "cl_seq cl' = cl_seq cl1"
      using recv_resp_skip [OF rs(2), of dbg wrote "r # qs" cl1] rs(1) by auto
    obtain cl2 where "stream_next of_code r cl' = (cl2, Some (Ok (Text t)))" "cl_seq cl2 = cl_seq cl'"
      using stream_next_delivers [of of_code r cl'] stream_next_state(1) [of of_code r cl'] resp(1)
      by (cases "stream_next of_code r cl'") auto
    with cl' resp seq show ?thesis
      by (auto simp: recv_turn_def)
  qed
  moreover have "snd (recv_resp of_code de dbg wrote rs cl1) = None \<and>
      cl_out (fst (recv_resp of_code de dbg wrote rs cl1)) = cl_out cl1 @ pongs rs" if "list_all (skips of_code de) rs"
    using recv_resp_skip [OF that, of dbg wrote "[]" cl1] by auto
  ultimately show ?thesis
    unfolding req recv_resp_value seq by blast
qed

text \<open>
  C21. A client never weakens the security it was asked for. A \<open>wss\<close> target is reached over TLS or not at
  all, whatever the build; certificates go unchecked only if the caller said so and gave no policy
  of his own, and a policy of his own is the one used. The subprotocol header goes out as one value,
  as written, and a new connection starts counting requests at zero.
\<close>
theorem client_tls_policy:
  assumes "client_build tls parse lookup di addr b = Ok (pol, cl, resp)"
  shows "\<exists>u. parse addr = Ok u \<and> (url_secure u \<longleftrightarrow> pol \<noteq> None) \<and> (url_secure u \<longleftrightarrow> cl_backend cl = SecureConn) \<and>
    (url_secure u \<longrightarrow> tls \<and> pol = Some (case cb_tls_config b of
       Some c \<Rightarrow> ExplicitPolicy c | None \<Rightarrow> if cb_danger b then AcceptAll else DefaultRoots)) \<and>
    (pol = Some AcceptAll \<longrightarrow> cb_danger b \<and> cb_tls_config b = None) \<and>
    di_upgrade di (url_path u) (url_host_header u)
      (if cb_protocol_header b = [] then [] else [cb_protocol_header b]) (cb_headers b) = Ok (wr_protocol resp) \<and>
    cl_seq cl = 0"
proof -
  obtain tg where tg: "resolve_target tls parse lookup addr = Ok tg" "connect tls di tg b = Ok (pol, cl, resp)"
    using assms by (auto simp: client_build_def)
  obtain u where u: "parse addr = Ok u" "tg_secure tg = url_secure u" "tg_path tg = url_path u"
      "tg_host_header tg = url_host_header u"
    using tg(1) by (auto simp: resolve_target_def split: result.splits if_splits)
  have "(url_secure u \<longleftrightarrow> pol \<noteq> None) \<and> (url_secure u \<longleftrightarrow> cl_backend cl = SecureConn) \<and>
    (url_secure u \<longrightarrow> tls \<and> pol = Some (case cb_tls_config b of
       Some c \<Rightarrow> ExplicitPolicy c | None \<Rightarrow> if cb_danger b then AcceptAll else DefaultRoots)) \<and>
    di_upgrade di (url_path u) (url_host_header u)
      (if cb_protocol_header b = [] then [] else [cb_protocol_header b]) (cb_headers b) = Ok (wr_protocol resp) \<and>
    cl_seq cl = 0"
    using tg(2) u by (auto simp: connect_def connect_secure_def ws_upgrade_def connect_response_def Let_def split: if_splits)
  with u(1) show ?thesis
    by (auto split: option.splits if_splits)
qed

section \<open>The handshake key\<close>

lemma ne_bytes_inj: "ne_bytes v = ne_bytes w \<Longrightarrow> v = w"
proof (rule bit_word_eqI)
  fix n
  assume eq: "ne_bytes v = ne_bytes w" and n: "n < LENGTH(64)"
  then have i: "n div 8 < 8"
    by simp
  with eq have "(ucast (drop_bit (8 * (n div 8)) v) :: u8) = ucast (drop_bit (8 * (n div 8)) w)"
    unfolding ne_bytes_def by (metis (no_types, lifting) add_0 length_upt map_nth nth_map nth_upt diff_zero)
  then have "bit (ucast (drop_bit (8 * (n div 8)) v) :: u8) (n mod 8) = bit (ucast (drop_bit (8 * (n div 8)) w) :: u8) (n mod 8)"
    by simp
  then show "bit v n = bit w n"
    by (simp add: bit_unsigned_iff bit_drop_bit_eq comp_def)
qed

text \<open>
  No two handshakes of a process use the same key: with the counter at \<open>i\<close> and \<open>j\<close>, less than
  \<open>2 ^ 64\<close> calls apart, the sixteen bytes differ when the call is made from the same place, even in
  the same nanosecond.
\<close>
theorem handshake_keys_distinct:
  assumes "handshake_entropy nanos (word_of_nat i) addr = handshake_entropy nanos' (word_of_nat j) addr"
    and "i < 2 ^ 64" and "j < 2 ^ 64"
  shows "i = j \<and> nanos = nanos' \<and> length (handshake_entropy nanos (word_of_nat i) addr) = 16"
proof -
  have len: "length (ne_bytes w) = 8" for w
    by (simp add: ne_bytes_def)
  have "nanos = nanos'" and x: "xor (word_of_nat i) addr = xor (word_of_nat j :: u64) addr"
    using assms(1) by (auto simp: handshake_entropy_def len dest!: ne_bytes_inj)
  have "(word_of_nat i :: u64) = word_of_nat j"
    using arg_cong [OF x, of "\<lambda>w. xor w addr"] by (simp add: xor.assoc)
  then have "unat (word_of_nat i :: u64) = unat (word_of_nat j :: u64)"
    by simp
  then have "i = j"
    using assms(2,3) by (simp add: unsigned_of_nat take_bit_nat_eq_self)
  with \<open>nanos = nanos'\<close> show ?thesis
    by (simp add: handshake_entropy_def len)
qed

section \<open>Sample calls\<close>

definition echo_ser :: "ws_request_value \<Rightarrow> (string, string) result" where
  "echo_ser r = Ok (show_nat (unat (rq_seq r)))"

text \<open>A text frame \<open>n\<close> is the response number \<open>n\<close>, the empty one a log line.\<close>

definition echo_de :: "bytes \<Rightarrow> (ws_response_value, string) result" where
  "echo_de b = (if b = [] then Ok (LogResponse \<lparr>lr_seq = 0, lr_log_id = 0, lr_level = Detail_Level, lr_message = []\<rparr>)
     else Ok (Immediate \<lparr>sr_method = 0, sr_seq = word_of_nat (unat (hd b)), sr_params = JBool True\<rparr>))"

theorem client_response_correlation_witness:
  "snd (request (\<lambda>c :: u16. c) echo_ser echo_de (\<lambda>_. []) (Ok ()) (Ok ()) 7 JNull
     [NagoRead (Ok (Some (NPing [9]))) (Ok ()), NagoRead (Ok (Some (NText []))) (Ok ()),
      NagoRead (Ok (Some (NText [1]))) (Ok ())] from_stream) = Some (Ok (JBool True))"
proof -
  let ?ps = "[NagoRead (Ok (Some (NPing [9]))) (Ok ()), NagoRead (Ok (Some (NText []))) (Ok ())] :: u16 client_read list"
  have "\<exists>cl1. send_req echo_ser (Ok ()) 7 JNull from_stream = (cl1, Ok ())"
    by (simp add: send_req_def echo_ser_def stream_send_def from_stream_def)
  then obtain cl1 where 1: "send_req echo_ser (Ok ()) 7 JNull from_stream = (cl1, Ok ())"
    by blast
  let ?r = "NagoRead (Ok (Some (NText [1]))) (Ok ()) :: u16 client_read"
  have "list_all (skips (\<lambda>c. c) echo_de) ?ps"
    by (simp add: skips_def delivers_def echo_de_def)
  then have "\<exists>ps r qs t resp. ?ps @ [?r] = ps @ r # qs \<and> list_all (skips (\<lambda>c. c) echo_de) ps \<and>
      delivers (\<lambda>c. c) r = Some (Ok (Text t)) \<and> echo_de (utf8_as_bytes t) = Ok (Immediate resp) \<and>
      sr_seq resp = cl_seq from_stream + 1 \<and> sr_params resp = JBool True"
    by (intro exI [of _ ?ps] exI [of _ ?r] exI [of _ "[]"] exI [of _ "Utf8Bytes [1]"])
      (simp add: delivers_def echo_de_def from_stream_def)
  with client_response_correlation [OF 1, THEN conjunct1, THEN iffD2] show ?thesis
    by simp
qed

definition sample_dial :: dial where
  "sample_dial = \<lparr>di_tcp = Ok (), di_name_ok = True, di_session = (\<lambda>_. Ok ()), di_tls = (\<lambda>_. Ok ()),
     di_upgrade = (\<lambda>_ _ ps _. Ok (case ps of p # _ \<Rightarrow> Some p | [] \<Rightarrow> None)), di_show_addrs = concat\<rparr>"

definition sample_url :: ws_url where
  "sample_url = \<lparr>url_secure = True, url_host = ''h'', url_port = 443, url_host_header = ''h'', url_path = ''/''\<rparr>"

theorem client_tls_policy_witness:
  "\<exists>cl resp. client_build True (\<lambda>_. Ok sample_url) (\<lambda>_ _. Ok []) sample_dial ''wss://h/''
       (builder_protocol_header ''0login, 1x'' builder_new) = Ok (Some DefaultRoots, cl, resp) \<and>
     cl_backend cl = SecureConn \<and> wr_protocol resp = Some ''0login, 1x''"
proof -
  have "\<exists>pol cl resp. client_build True (\<lambda>_. Ok sample_url) (\<lambda>_ _. Ok []) sample_dial ''wss://h/''
       (builder_protocol_header ''0login, 1x'' builder_new) = Ok (pol, cl, resp)"
    by (simp add: client_build_def resolve_target_def connect_def connect_secure_def ws_upgrade_def sample_url_def
        sample_dial_def tcp_connect_def builder_protocol_header_def builder_new_def)
  then obtain pol cl resp where 1: "client_build True (\<lambda>_. Ok sample_url) (\<lambda>_ _. Ok []) sample_dial ''wss://h/''
       (builder_protocol_header ''0login, 1x'' builder_new) = Ok (pol, cl, resp)"
    by blast
  from client_tls_policy [OF 1] 1 show ?thesis
    by (simp add: sample_url_def sample_dial_def builder_protocol_header_def builder_new_def)
qed

theorem handshake_keys_distinct_witness:
  "handshake_entropy 5 (word_of_nat 3) 0 = handshake_entropy 5 (word_of_nat 3) 0 \<and>
   length (handshake_entropy 5 (word_of_nat 3) 0) = 16"
  using handshake_keys_distinct [of 5 3 0 5 3] by simp

end
