(* ===== verification/Mcp_Wire.thy ===== *)
theory Mcp_Wire
  imports Mcp
begin

text \<open>
  \<open>src/libs/ws/mcp_wire.rs\<close>: the JSON-RPC types of the client side. The \<open>to_value\<close> functions are the
  derived serialisation: fields in their order, an absent optional field left out where the attribute
  says so, an absent identifier of a response written as null. Reading is \<open>serde_json\<close>'s: \<open>parse_text\<close>
  and \<open>decode\<close> are parameters.
\<close>

section \<open>The code\<close>

definition JSONRPC_VERSION :: string where "JSONRPC_VERSION = ''2.0''"

definition WIRE_PROTOCOL_VERSION :: string where "WIRE_PROTOCOL_VERSION = ''2025-06-18''"

definition PARSE_ERROR :: int where "PARSE_ERROR = - 32700"

definition INVALID_REQUEST :: int where "INVALID_REQUEST = - 32600"

definition METHOD_NOT_FOUND :: int where "METHOD_NOT_FOUND = - 32601"

definition INVALID_PARAMS :: int where "INVALID_PARAMS = - 32602"

definition INTERNAL_RPC_ERROR :: int where "INTERNAL_RPC_ERROR = - 32603"

datatype wire_id = Number int | String string

record wire_request =
  wr_jsonrpc :: string
  wr_id :: "wire_id option"
  wr_method :: string
  wr_params :: "json option"

record wire_error =
  we_code :: int
  we_message :: string
  we_data :: "json option"

record wire_response =
  wp_jsonrpc :: string
  wp_id :: "wire_id option"
  wp_result :: "json option"
  wp_error :: "wire_error option"

datatype wire_rpc_message = Request wire_request | Response wire_response

definition call :: "wire_id \<Rightarrow> string \<Rightarrow> json \<Rightarrow> wire_request" where
  "call i method params =
     \<lparr>wr_jsonrpc = JSONRPC_VERSION, wr_id = Some i, wr_method = method, wr_params = Some params\<rparr>"

definition notification :: "string \<Rightarrow> json \<Rightarrow> wire_request" where
  "notification method params =
     \<lparr>wr_jsonrpc = JSONRPC_VERSION, wr_id = None, wr_method = method, wr_params = Some params\<rparr>"

definition wire_is_notification :: "wire_request \<Rightarrow> bool" where
  "wire_is_notification r \<longleftrightarrow> wr_id r = None"

definition wire_error_new :: "int \<Rightarrow> string \<Rightarrow> wire_error" where
  "wire_error_new code message = \<lparr>we_code = code, we_message = message, we_data = None\<rparr>"

definition wire_with_data :: "json \<Rightarrow> wire_error \<Rightarrow> wire_error" where
  "wire_with_data data e = e\<lparr>we_data := Some data\<rparr>"

definition response_result :: "wire_id option \<Rightarrow> json \<Rightarrow> wire_response" where
  "response_result i r = \<lparr>wp_jsonrpc = JSONRPC_VERSION, wp_id = i, wp_result = Some r, wp_error = None\<rparr>"

definition response_error :: "wire_id option \<Rightarrow> wire_error \<Rightarrow> wire_response" where
  "response_error i e = \<lparr>wp_jsonrpc = JSONRPC_VERSION, wp_id = i, wp_result = None, wp_error = Some e\<rparr>"

definition wire_parse ::
  "(string \<Rightarrow> (json, string) result) \<Rightarrow> (json \<Rightarrow> (wire_rpc_message, string) result) \<Rightarrow> string
    \<Rightarrow> (wire_rpc_message, wire_error) result" where
  "wire_parse parse_text decode payload =
     (case parse_text payload of
        Err e \<Rightarrow> Err (wire_error_new PARSE_ERROR (''Parse error: '' @ e))
      | Ok v \<Rightarrow>
          if Option.bind (jget v ''jsonrpc'') as_str \<noteq> Some JSONRPC_VERSION
          then Err (wire_error_new INVALID_REQUEST ''Invalid Request'')
          else result_map_err (\<lambda>e. wire_error_new INVALID_REQUEST (''Invalid Request: '' @ e)) (decode v))"

section \<open>The derived serialisation\<close>

definition optional :: "string \<Rightarrow> json option \<Rightarrow> (string \<times> json) list" where
  "optional k v = (case v of Some j \<Rightarrow> [(k, j)] | None \<Rightarrow> [])"

fun wire_id_value :: "wire_id \<Rightarrow> json" where
  "wire_id_value (Number n) = JInt n"
| "wire_id_value (String s) = JStr s"

definition wire_request_value :: "wire_request \<Rightarrow> json" where
  "wire_request_value r =
     jobj ([(''jsonrpc'', JStr (wr_jsonrpc r))] @ optional ''id'' (map_option wire_id_value (wr_id r)) @
       [(''method'', JStr (wr_method r))] @ optional ''params'' (wr_params r))"

definition wire_error_value :: "wire_error \<Rightarrow> json" where
  "wire_error_value e =
     jobj ([(''code'', JInt (we_code e)), (''message'', JStr (we_message e))] @ optional ''data'' (we_data e))"

definition wire_response_value :: "wire_response \<Rightarrow> json" where
  "wire_response_value r =
     jobj ([(''jsonrpc'', JStr (wp_jsonrpc r)),
            (''id'', case wp_id r of Some i \<Rightarrow> wire_id_value i | None \<Rightarrow> JNull)] @
       optional ''result'' (wp_result r) @ optional ''error'' (map_option wire_error_value (wp_error r)))"

section \<open>The two sides\<close>

fun wire_id_of :: "jsonrpc_id \<Rightarrow> wire_id" where
  "wire_id_of (IdNum n) = Number n"
| "wire_id_of (IdStr s) = String s"

definition wire_error_of :: "jsonrpc_error_obj \<Rightarrow> wire_error" where
  "wire_error_of e = \<lparr>we_code = je_code e, we_message = je_message e, we_data = je_data e\<rparr>"

lemma id_to_value_wire: "id_to_value i = (case map_option wire_id_of i of Some w \<Rightarrow> wire_id_value w | None \<Rightarrow> JNull)"
  by (cases i rule: id_to_value.cases) auto

lemma error_to_json_wire: "error_to_json e = wire_error_value (wire_error_of e)"
  by (cases "je_data e") (simp_all add: error_to_json_def wire_error_value_def wire_error_of_def optional_def)

lemma result_map_err_Err_iff: "result_map_err f r = Err e \<longleftrightarrow> (\<exists>e'. r = Err e' \<and> e = f e')"
  by (cases r) auto

lemma rpc_version_of_request: "Option.bind (jget (wire_request_value r) ''jsonrpc'') as_str = Some (wr_jsonrpc r)"
  by (simp add: wire_request_value_def jget_jobj optional_def map_add_def split: option.split)

text \<open>
  C31. The two sides of the MCP adapter write the same JSON. A result and an error of the server are
  exactly what the client's response type serialises to, for every identifier, data and absent
  identifier included. A request the
  client builds is recognised by the server as JSON-RPC and never falls through to the legacy protocol,
  whatever its method; and what the client cannot read is reported as a parse error only if it is not
  JSON, else as an invalid request.
\<close>
theorem mcp_sides_agree:
  "jsonrpc_result i r = wire_response_value (response_result (map_option wire_id_of i) r) \<and>
   jsonrpc_error i e = wire_response_value (response_error (map_option wire_id_of i) (wire_error_of e)) \<and>
   (\<forall>req \<in> {call wi m ps, notification m ps}.
      try_parse_jsonrpc (\<lambda>_. Some (wire_request_value req)) dec txt0 \<noteq> None) \<and>
   (\<forall>err. wire_parse parse_text decode payload = Err err \<longrightarrow>
      (if is_ok (parse_text payload) then we_code err = INVALID_REQUEST else we_code err = PARSE_ERROR))"
proof (intro conjI)
  show "jsonrpc_result i r = wire_response_value (response_result (map_option wire_id_of i) r)"
    by (simp add: jsonrpc_result_def wire_response_value_def response_result_def id_to_value_wire optional_def
        JSONRPC_VERSION_def)
  show "jsonrpc_error i e = wire_response_value (response_error (map_option wire_id_of i) (wire_error_of e))"
    by (simp add: jsonrpc_error_def wire_response_value_def response_error_def id_to_value_wire optional_def
        error_to_json_wire JSONRPC_VERSION_def)
  show "\<forall>req \<in> {call wi m ps, notification m ps}.
      try_parse_jsonrpc (\<lambda>_. Some (wire_request_value req)) dec txt0 \<noteq> None"
    by (auto simp: try_parse_jsonrpc_def rpc_version_of_request call_def notification_def JSONRPC_VERSION_def
        split: result.split)
  show "\<forall>err. wire_parse parse_text decode payload = Err err \<longrightarrow>
      (if is_ok (parse_text payload) then we_code err = INVALID_REQUEST else we_code err = PARSE_ERROR)"
    by (auto simp: wire_parse_def wire_error_new_def result_map_err_Err_iff split: result.splits if_splits)
qed

theorem mcp_sides_agree_witness:
  "jsonrpc_result (Some (IdNum 7)) JNull = wire_response_value (response_result (Some (Number 7)) JNull) \<and>
   we_code (case wire_parse (\<lambda>_. Err ''x'') (\<lambda>_. Err ''y'') ''{'' of Err e \<Rightarrow> e) = PARSE_ERROR \<and>
   try_parse_jsonrpc (\<lambda>_. Some (wire_request_value (notification ''m'' JNull))) (\<lambda>_. Err ''y'') ''t'' \<noteq> None"
  using mcp_sides_agree [of "Some (IdNum 7)" JNull "rpc_error_new 0 []" "Number 7" "''m''" JNull "\<lambda>_. Err ''y''" "''t''"
      "\<lambda>_. Err ''x''" "\<lambda>_. Err ''y''" "''{''"]
  by (simp add: wire_parse_def)

end
