(* ===== verification/Streams.thy ===== *)
theory Streams
  imports Framed Session
begin

text \<open>
  The seams between byte streams, transports and sessions: \<open>StreamError\<close> and \<open>RawStream\<close> of
  \<open>src/libs/ws/traits.rs\<close>, \<open>TransportStream\<close> of \<open>src/libs/ws/transport.rs\<close> and \<open>NagoyaStream\<close> of
  \<open>src/libs/ws/transport/nagoya.rs\<close>. The stream of the runtime is a parameter: an operation on its state
  with an operating-system error number. A read fills at most the buffer; what it returns are the bytes.
\<close>

section \<open>Errors\<close>

fun stream_error_display :: "stream_error \<Rightarrow> string" where
  "stream_error_display StreamClosed = ''connection closed''"
| "stream_error_display WriteBufferFull = ''write buffer full''"
| "stream_error_display (Protocol s) = ''protocol error: '' @ s"
| "stream_error_display (StreamOther e) = e"

fun stream_error_source :: "stream_error \<Rightarrow> string option" where
  "stream_error_source (StreamOther e) = Some e"
| "stream_error_source _ = None"

definition libc_eio :: nat where "libc_eio = 5"

section \<open>Boxed byte streams\<close>

type_synonym ('s, 'a, 'r, 'e) io_op = "'s \<Rightarrow> 'a \<Rightarrow> 's \<times> ('r, 'e) result"

definition op_map_err :: "('e \<Rightarrow> 'f) \<Rightarrow> ('s, 'a, 'r, 'e) io_op \<Rightarrow> ('s, 'a, 'r, 'f) io_op" where
  "op_map_err f run s a = (case run s a of (s', r) \<Rightarrow> (s', result_map_err f r))"

text \<open>The blanket implementation: errors become text. \<open>show_err\<close> is the text of an error number.\<close>

definition raw_read :: "(nat \<Rightarrow> string) \<Rightarrow> ('s, nat, bytes, nat) io_op \<Rightarrow> ('s, nat, bytes, stream_error) io_op" where
  "raw_read show_err read = op_map_err (\<lambda>e. StreamOther (show_err e)) read"

definition raw_write_all :: "(nat \<Rightarrow> string) \<Rightarrow> ('s, bytes, unit, nat) io_op \<Rightarrow> ('s, bytes, unit, stream_error) io_op" where
  "raw_write_all show_err write = op_map_err (\<lambda>e. StreamOther (show_err e)) write"

text \<open>A boxed stream as a stream of the runtime again: the number that is left is \<open>EIO\<close>.\<close>

definition boxed_read :: "(nat \<Rightarrow> string) \<Rightarrow> ('s, nat, bytes, nat) io_op \<Rightarrow> ('s, nat, bytes, nat) io_op" where
  "boxed_read show_err read = op_map_err (\<lambda>_. libc_eio) (raw_read show_err read)"

definition boxed_write_all :: "(nat \<Rightarrow> string) \<Rightarrow> ('s, bytes, unit, nat) io_op \<Rightarrow> ('s, bytes, unit, nat) io_op" where
  "boxed_write_all show_err write = op_map_err (\<lambda>_. libc_eio) (raw_write_all show_err write)"

lemma op_map_err_comp: "op_map_err f (op_map_err g run) = op_map_err (f \<circ> g) run"
proof (intro ext)
  fix s a
  show "op_map_err f (op_map_err g run) s a = op_map_err (f \<circ> g) run s a"
    by (cases "run s a"; cases "snd (run s a)") (simp_all add: op_map_err_def)
qed

text \<open>
  However often a stream is boxed on its way to the upgrade, its bytes, its end and its state are the
  socket's own; only the number of an error is lost, after the first box already.
\<close>

lemma boxed_read_eq: "boxed_read show_err read = op_map_err (\<lambda>_. libc_eio) read"
  by (simp add: boxed_read_def raw_read_def op_map_err_comp comp_def)

lemma boxed_write_all_eq: "boxed_write_all show_err write = op_map_err (\<lambda>_. libc_eio) write"
  by (simp add: boxed_write_all_def raw_write_all_def op_map_err_comp comp_def)

lemma boxed_read_nested: "(boxed_read show_err ^^ Suc n) read = boxed_read show_err read"
  by (induction n) (simp_all add: boxed_read_eq op_map_err_comp comp_def)

lemma boxed_read_transparent:
  "run s a = (s', Ok bs) \<Longrightarrow> boxed_read show_err run s a = (s', Ok bs)"
  "run s a = (s', Err e) \<Longrightarrow> boxed_read show_err run s a = (s', Err libc_eio)"
  by (simp_all add: boxed_read_eq op_map_err_def)

section \<open>The socket as a futures stream\<close>

definition io_error_of :: "nat \<Rightarrow> io_error" where "io_error_of n = OsError n"

definition nagoya_poll_read :: "(bytes, nat) result poll \<Rightarrow> io_read" where
  "nagoya_poll_read r =
     (case r of
        Ready (Ok bs) \<Rightarrow> ReadBytes bs
      | Ready (Err n) \<Rightarrow> ReadErr (io_error_of n)
      | Pending \<Rightarrow> ReadPending)"

definition nagoya_poll_write :: "(nat, nat) result poll \<Rightarrow> io_write" where
  "nagoya_poll_write r =
     (case r of
        Ready (Ok n) \<Rightarrow> Wrote n
      | Ready (Err n) \<Rightarrow> WriteErr (io_error_of n)
      | Pending \<Rightarrow> WritePending)"

definition nagoya_poll_flush :: "(unit, nat) result poll \<Rightarrow> io_done" where
  "nagoya_poll_flush r =
     (case r of
        Ready (Ok _) \<Rightarrow> IoDone
      | Ready (Err n) \<Rightarrow> IoDoneErr (io_error_of n)
      | Pending \<Rightarrow> IoDonePending)"

definition nagoya_poll_close :: "(unit, nat) result poll \<Rightarrow> io_done" where
  "nagoya_poll_close r = nagoya_poll_flush r"

section \<open>A transport as a message stream\<close>

text \<open>
  \<open>sink_send\<close> and \<open>stream_next\<close> are the operations of the transport, awaited; \<open>show_err\<close> the text of its
  errors.
\<close>

definition transport_send ::
  "('e \<Rightarrow> string) \<Rightarrow> ('t, wire_message, unit, 'e) io_op \<Rightarrow> ('t, wire_message, unit, stream_error) io_op" where
  "transport_send show_err sink_send = op_map_err (\<lambda>e. StreamOther (show_err e)) sink_send"

definition transport_recv ::
  "('e \<Rightarrow> string) \<Rightarrow> ('t \<Rightarrow> 't \<times> (wire_message, 'e) result option) \<Rightarrow> 't \<Rightarrow> 't \<times> (wire_message, stream_error) result option" where
  "transport_recv show_err stream_next t =
     (case stream_next t of (t', r) \<Rightarrow> (t', map_option (result_map_err (\<lambda>e. StreamOther (show_err e))) r))"

text \<open>Every message and the end of the stream come through as they are, and no error becomes an end.\<close>

lemma transport_recv_spec:
  assumes "stream_next t = (t', r)"
  shows "transport_recv show_err stream_next t = (t', None) \<longleftrightarrow> r = None"
    "transport_recv show_err stream_next t = (t', Some (Ok m)) \<longleftrightarrow> r = Some (Ok m)"
    "transport_recv show_err stream_next t \<noteq> (t', Some (Err StreamClosed))"
proof -
  have "result_map_err (\<lambda>e. StreamOther (show_err e)) x \<noteq> Err StreamClosed" for x
    by (cases x) auto
  then show "transport_recv show_err stream_next t = (t', None) \<longleftrightarrow> r = None"
    "transport_recv show_err stream_next t = (t', Some (Ok m)) \<longleftrightarrow> r = Some (Ok m)"
    "transport_recv show_err stream_next t \<noteq> (t', Some (Err StreamClosed))"
    using assms by (auto simp: transport_recv_def)
qed

end
