(* ===== verification/Listener.thy ===== *)
theory Listener
  imports Prelude
begin

text \<open>
  \<open>src/libs/ws/listener.rs\<close>: addresses and binding. The reactor of the \<open>nagoya\<close> crate is a parameter:
  \<open>bind\<close> asks the kernel, whose state is \<open>'k\<close>, for a listener on an address; \<open>accept\<close> of a listener
  yields a stream and the address of its peer. An IP address is its octets.
\<close>

section \<open>The code\<close>

datatype addr = AddrV4 bytes u16 | AddrV6 bytes u16 | AddrV6Scoped bytes u16 u32 | AddrPath string

text \<open>The address type of the standard library: octets, port, and for IPv6 flow information and scope.\<close>

datatype std_socket_addr = SocketV4 bytes u16 | SocketV6 bytes u16 u32 u32

fun socket_addr :: "addr \<Rightarrow> (std_socket_addr, string) result" where
  "socket_addr (AddrV4 octets port) = Ok (SocketV4 octets port)"
| "socket_addr (AddrV6 octets port) = Ok (SocketV6 octets port 0 0)"
| "socket_addr (AddrV6Scoped octets port scope_id) = Ok (SocketV6 octets port 0 scope_id)"
| "socket_addr (AddrPath _) = Err ''a Unix-domain peer has no SocketAddr; serve it through SessionListener''"

fun nagoya_addr :: "std_socket_addr \<Rightarrow> addr" where
  "nagoya_addr (SocketV4 octets port) = AddrV4 octets port"
| "nagoya_addr (SocketV6 octets port flowinfo scope_id) = AddrV6 octets port"

datatype 'e bind_error = NoAddress | NoneBound "addr list" 'e

type_synonym ('k, 'l, 'e) bind_fn = "addr \<Rightarrow> 'k \<Rightarrow> 'k \<times> ('l, 'e) result"

primrec bind_each ::
  "('k, 'l, 'e) bind_fn \<Rightarrow> addr list \<Rightarrow> addr list \<Rightarrow> 'e option \<Rightarrow> 'k \<Rightarrow> 'k \<times> ('l, 'e bind_error) result" where
  "bind_each bind addrs [] last_err k =
     (k, case last_err of Some err \<Rightarrow> Err (NoneBound addrs err) | None \<Rightarrow> Err NoAddress)"
| "bind_each bind addrs (a # rest) last_err k =
     (case bind a k of
        (k', Ok listener) \<Rightarrow> (k', Ok listener)
      | (k', Err err) \<Rightarrow> bind_each bind addrs rest (Some err) k')"

definition bind_any_with ::
  "('k, 'l, 'e) bind_fn \<Rightarrow> addr list \<Rightarrow> 'k \<Rightarrow> 'k \<times> ('l, 'e bind_error) result" where
  "bind_any_with bind addrs k = bind_each bind addrs addrs None k"

text \<open>The two ways to bind: with \<open>SO_REUSEPORT\<close> (\<open>shared\<close>) and without.\<close>

definition bind_any ::
  "(bool \<Rightarrow> ('k, 'l, 'e) bind_fn) \<Rightarrow> addr list \<Rightarrow> 'k \<Rightarrow> 'k \<times> ('l, 'e bind_error) result" where
  "bind_any bind addrs k = bind_any_with (bind False) addrs k"

definition bind_any_shared ::
  "(bool \<Rightarrow> ('k, 'l, 'e) bind_fn) \<Rightarrow> addr list \<Rightarrow> 'k \<Rightarrow> 'k \<times> ('l, 'e bind_error) result" where
  "bind_any_shared bind addrs k = bind_any_with (bind True) addrs k"

definition tcp_accept ::
  "('k \<Rightarrow> 'k \<times> ('s \<times> addr, string) result) \<Rightarrow> 'k \<Rightarrow> 'k \<times> ('s \<times> std_socket_addr, string) result" where
  "tcp_accept accept k =
     (case accept k of
        (k', Err e) \<Rightarrow> (k', Err e)
      | (k', Ok (stream, a)) \<Rightarrow> (k', result_map (Pair stream) (socket_addr a)))"

section \<open>Addresses\<close>

text \<open>
  An address with a scope does not survive the way through the standard type: the way back is not the
  inverse that its documentation promises.
\<close>

theorem addr_round_trip:
  "(\<forall>s. socket_addr a = Ok s \<longrightarrow>
      (nagoya_addr s = a \<longleftrightarrow> (\<forall>octets port scope. a \<noteq> AddrV6Scoped octets port scope))) \<and>
   (socket_addr (nagoya_addr s) = Ok s \<longleftrightarrow>
      (\<forall>octets port flow scope. s = SocketV6 octets port flow scope \<longrightarrow> flow = 0 \<and> scope = 0))"
  by (cases a; cases s) auto

theorem addr_round_trip_witness:
  "socket_addr (AddrV6Scoped (replicate 16 0) 80 3) = Ok (SocketV6 (replicate 16 0) 80 0 3) \<and>
   nagoya_addr (SocketV6 (replicate 16 0) 80 0 3) \<noteq> AddrV6Scoped (replicate 16 0) 80 3"
  using addr_round_trip [of "AddrV6Scoped (replicate 16 0) 80 3" "SocketV4 [] 0"] by simp

section \<open>Binding\<close>

text \<open>The kernel after failing to bind each of the addresses, and whether each failed.\<close>

primrec tried :: "('k, 'l, 'e) bind_fn \<Rightarrow> addr list \<Rightarrow> 'k \<Rightarrow> ('k \<times> 'e list) option" where
  "tried bind [] k = Some (k, [])"
| "tried bind (a # rest) k =
     (case bind a k of
        (k', Ok _) \<Rightarrow> None
      | (k', Err e) \<Rightarrow> map_option (\<lambda>(k'', es). (k'', e # es)) (tried bind rest k'))"

lemma bind_each_skip:
  "tried bind pre k = Some (k', es) \<Longrightarrow>
     bind_each bind addrs (pre @ rest) l k =
       bind_each bind addrs rest (if es = [] then l else Some (last es)) k'"
  by (induction pre arbitrary: k l es) (auto split: prod.splits result.splits)

lemma tried_or_bound:
  "(\<exists>k' es. tried bind addrs k = Some (k', es) \<and> length es = length addrs) \<or>
   (\<exists>pre a post k1 es k' l. addrs = pre @ a # post \<and> tried bind pre k = Some (k1, es) \<and> bind a k1 = (k', Ok l))"
proof (induction addrs arbitrary: k)
  case (Cons a rest)
  show ?case
  proof (cases "bind a k")
    case (Pair k1 r)
    show ?thesis
    proof (cases r)
      case (Ok l)
      with Pair show ?thesis
        by (intro disjI2 exI [of _ "[]"] exI [of _ a] exI [of _ rest]) simp
    next
      case (Err e)
      from Cons.IH [of k1] show ?thesis
      proof (elim disjE exE conjE)
        fix pre b post k2 es k' l
        assume "rest = pre @ b # post" "tried bind pre k1 = Some (k2, es)" "bind b k2 = (k', Ok l)"
        with Pair Err show ?thesis
          by (intro disjI2 exI [of _ "a # pre"] exI [of _ b] exI [of _ post]) simp
      qed (use Pair Err in simp)
    qed
  qed
qed simp

text \<open>
  A server binds the first of its addresses that the kernel gives it: every address before it was
  tried and failed, and none after it is tried. When all fail the error carries the last failure and
  the whole list; an empty list is an error of its own.
\<close>
theorem bind_any_first_bindable:
  "(\<exists>pre a post k1 es k' l. addrs = pre @ a # post \<and> tried bind pre k = Some (k1, es) \<and> bind a k1 = (k', Ok l) \<and>
      bind_any_with bind addrs k = (k', Ok l)) \<or>
   (\<exists>k' es. tried bind addrs k = Some (k', es) \<and> length es = length addrs \<and>
      bind_any_with bind addrs k = (k', Err (if addrs = [] then NoAddress else NoneBound addrs (last es))))"
proof -
  have "bind_any_with bind addrs k = (k', Ok l)"
    if "addrs = pre @ a # post" "tried bind pre k = Some (k1, es)" "bind a k1 = (k', Ok l)" for pre a post k1 es k' l
    using bind_each_skip [OF that(2), of addrs "a # post" None] that by (simp add: bind_any_with_def)
  moreover have "bind_any_with bind addrs k = (k', Err (if addrs = [] then NoAddress else NoneBound addrs (last es)))"
    if "tried bind addrs k = Some (k', es)" "length es = length addrs" for k' es
    using bind_each_skip [OF that(1), of addrs "[]" None] that by (auto simp: bind_any_with_def)
  ultimately show ?thesis
    using tried_or_bound [of bind addrs k] by blast
qed

end
