(* ===== verification/Shards.thy ===== *)
theory Shards
  imports Server Listener
begin

text \<open>
  \<open>listen_on\<close> of \<open>src/libs/ws/server.rs\<close>: starting a server and running it on several threads. What a shard
  does with its connections is in \<open>Server\<close>; here a shard serves until it is told to stop or fails.
  The threads and the first shard are interleaved step by step; the shutdown flag between them is that of
  \<open>Signal\<close>, which no waiter misses, so a serving shard may return once it is raised. Resolver, reactor,
  kernel and thread start are parameters: they answer with a value or an error.
\<close>

section \<open>Starting\<close>

datatype 'e listen_error =
    StartError string
  | ResolveError string 'e
  | ReactorError 'e
  | BindError "'e bind_error"
  | AddrError 'e

record ('k, 'l, 'e) platform =
  pf_resolve :: "string \<Rightarrow> u16 \<Rightarrow> (addr list, 'e) result"
  pf_reactor :: "(unit, 'e) result"
  pf_bind :: "bool \<Rightarrow> ('k, 'l, 'e) bind_fn"
  pf_local_addr :: "'l \<Rightarrow> (addr, 'e) result"

text \<open>
  A server that is ready to serve: the prepared server with its table of connections, the listener of the
  first shard, and for several shards their number and the address they all bind.
\<close>

record ('u, 'l) listening =
  ln_server :: "'u web_server"
  ln_listener :: 'l
  ln_others :: "(nat \<times> addr) option"

definition listen_prepare ::
  "('k, 'l, 'e) platform \<Rightarrow> nat \<Rightarrow> 'u web_server \<Rightarrow> 'k \<Rightarrow> 'k \<times> (('u, 'l) listening, 'e listen_error) result" where
  "listen_prepare pf shards sv k =
     (case listen_start sv of
        Err e \<Rightarrow> (k, Err (StartError e))
      | Ok (host, port) \<Rightarrow>
     (case pf_resolve pf host port of
        Err e \<Rightarrow> (k, Err (ResolveError (''Failed to lookup host to bind: '' @ address (server_config sv)) e))
      | Ok addrs \<Rightarrow>
     (case pf_reactor pf of
        Err e \<Rightarrow> (k, Err (ReactorError e))
      | Ok _ \<Rightarrow>
     (if shards \<le> 1 then
        (case bind_any (pf_bind pf) addrs k of
           (k', Err e) \<Rightarrow> (k', Err (BindError e))
         | (k', Ok l) \<Rightarrow> (k', Ok \<lparr>ln_server = prepare sv, ln_listener = l, ln_others = None\<rparr>))
      else
        (case bind_any_shared (pf_bind pf) addrs k of
           (k', Err e) \<Rightarrow> (k', Err (BindError e))
         | (k', Ok l) \<Rightarrow>
             (case pf_local_addr pf l of
                Err e \<Rightarrow> (k', Err (AddrError e))
              | Ok a \<Rightarrow> (k', Ok \<lparr>ln_server = prepare sv, ln_listener = l, ln_others = Some (shards, a)\<rparr>)))))))"

section \<open>Running\<close>

text \<open>A shard's thread: started, bound and serving, returned, or ended by a panic.\<close>

datatype shard_thread = Unstarted | Started | Serving | Returned_Shard "(unit, string) result" | Panicked

text \<open>
  The calling thread: starting the next shard, serving as the first shard, joining the threads from a number
  on with the result it will return, or returned.
\<close>

datatype main_thread =
    Starting nat
  | MainServing
  | Joining nat "(unit, string) result"
  | Listened "(unit, string) result"

record shards_state =
  sh_count :: nat
  sh_started :: nat
  sh_threads :: "nat \<Rightarrow> shard_thread"
  sh_main :: main_thread
  sh_cancelled :: bool

definition shards_init :: "nat \<Rightarrow> shards_state" where
  "shards_init n =
     \<lparr>sh_count = max n 1, sh_started = 1, sh_threads = (\<lambda>_. Unstarted), sh_main = Starting 1, sh_cancelled = False\<rparr>"

fun joinable :: "shard_thread \<Rightarrow> bool" where
  "joinable (Returned_Shard _) = True"
| "joinable Panicked = True"
| "joinable _ = False"

definition set_thread :: "nat \<Rightarrow> shard_thread \<Rightarrow> shards_state \<Rightarrow> shards_state" where
  "set_thread i t s = s\<lparr>sh_threads := (sh_threads s)(i := t)\<rparr>"

text \<open>The steps of the calling thread.\<close>

definition spawn_shard :: "nat \<Rightarrow> shards_state \<Rightarrow> shards_state" where
  "spawn_shard i s = (set_thread i Started s)\<lparr>sh_started := Suc i, sh_main := Starting (Suc i)\<rparr>"

definition spawn_failed :: "nat \<Rightarrow> string \<Rightarrow> shards_state \<Rightarrow> shards_state" where
  "spawn_failed i err s =
     s\<lparr>sh_cancelled := True, sh_main := Joining 1 (Err (''failed to start shard '' @ show_nat i @ '': '' @ err))\<rparr>"

definition main_stopped :: "(unit, string) result \<Rightarrow> shards_state \<Rightarrow> shards_state" where
  "main_stopped served s = s\<lparr>sh_cancelled := True, sh_main := Joining 1 served\<rparr>"

inductive shards_step :: "shards_state \<Rightarrow> shards_state \<Rightarrow> bool" where
  Spawn: "sh_main s = Starting i \<Longrightarrow> i < sh_count s \<Longrightarrow> shards_step s (spawn_shard i s)"
| Spawn_Err: "sh_main s = Starting i \<Longrightarrow> i < sh_count s \<Longrightarrow> shards_step s (spawn_failed i err s)"
| All_Started: "sh_main s = Starting i \<Longrightarrow> i \<ge> sh_count s \<Longrightarrow> shards_step s (s\<lparr>sh_main := MainServing\<rparr>)"
| Main_Stop: "sh_main s = MainServing \<Longrightarrow> shards_step s (main_stopped served s)"
| Join: "sh_main s = Joining i served \<Longrightarrow> i < sh_started s \<Longrightarrow> joinable (sh_threads s i) \<Longrightarrow>
    shards_step s (s\<lparr>sh_main := Joining (Suc i) served\<rparr>)"
| Joined: "sh_main s = Joining i served \<Longrightarrow> i \<ge> sh_started s \<Longrightarrow> shards_step s (s\<lparr>sh_main := Listened served\<rparr>)"
| Bind_Err: "sh_threads s i = Started \<Longrightarrow> shards_step s (set_thread i (Returned_Shard (Err e)) s)"
| Bound: "sh_threads s i = Started \<Longrightarrow> shards_step s (set_thread i Serving s)"
| Shard_Err: "sh_threads s i = Serving \<Longrightarrow> shards_step s (set_thread i (Returned_Shard (Err e)) s)"
| Shard_Stop: "sh_threads s i = Serving \<Longrightarrow> sh_cancelled s \<Longrightarrow> shards_step s (set_thread i (Returned_Shard (Ok ())) s)"
| Panic: "sh_threads s i \<in> {Started, Serving} \<Longrightarrow> shards_step s (set_thread i Panicked s)"

inductive_cases shards_step_cases: "shards_step s s'"

lemmas shards_defs = set_thread_def spawn_shard_def spawn_failed_def main_stopped_def

section \<open>Invariant\<close>

text \<open>
  Threads exist for the shards from one up to those started; while the calling thread joins, those before
  its position have ended; when it has returned, all have. The flag is raised exactly when it stopped
  serving.
\<close>

definition shards_inv :: "shards_state \<Rightarrow> bool" where
  "shards_inv s \<longleftrightarrow>
     1 \<le> sh_count s \<and> 1 \<le> sh_started s \<and> sh_started s \<le> sh_count s \<and>
     (\<forall>i. sh_threads s i = Unstarted \<longleftrightarrow> i = 0 \<or> sh_started s \<le> i) \<and>
     (case sh_main s of
        Starting i \<Rightarrow> i = sh_started s \<and> \<not> sh_cancelled s
      | MainServing \<Rightarrow> sh_started s = sh_count s \<and> \<not> sh_cancelled s
      | Joining i _ \<Rightarrow> sh_cancelled s \<and> 1 \<le> i \<and> i \<le> sh_started s \<and> (\<forall>j. 1 \<le> j \<and> j < i \<longrightarrow> joinable (sh_threads s j))
      | Listened _ \<Rightarrow> sh_cancelled s \<and> (\<forall>j. 1 \<le> j \<and> j < sh_started s \<longrightarrow> joinable (sh_threads s j)))"

lemma shards_inv_init: "shards_inv (shards_init n)"
  by (auto simp: shards_inv_def shards_init_def)

text \<open>A step of a thread keeps what is known of the others.\<close>

lemma shards_inv_thread:
  assumes "shards_inv s" and "sh_threads s i \<in> {Started, Serving}" and "t \<noteq> Unstarted"
  shows "shards_inv (set_thread i t s)"
proof -
  have same: "(sh_threads (set_thread i t s) j = Unstarted) = (sh_threads s j = Unstarted)" for j
    using assms(2,3) by (auto simp: set_thread_def)
  have keep: "joinable (sh_threads s j) \<Longrightarrow> joinable (sh_threads (set_thread i t s) j)" for j
    using assms(2) by (cases "j = i") (auto simp: set_thread_def)
  have fields: "sh_count (set_thread i t s) = sh_count s" "sh_started (set_thread i t s) = sh_started s"
    "sh_main (set_thread i t s) = sh_main s" "sh_cancelled (set_thread i t s) = sh_cancelled s"
    by (simp_all add: set_thread_def)
  show ?thesis
    using assms(1) keep unfolding shards_inv_def fields same by (cases "sh_main s") simp_all
qed

lemma shards_inv_step: "shards_step s s' \<Longrightarrow> shards_inv s \<Longrightarrow> shards_inv s'"
proof (induction rule: shards_step.induct)
  case (Spawn s i)
  then have "1 \<le> i" "i = sh_started s" "\<And>j. sh_threads s j = Unstarted \<longleftrightarrow> j = 0 \<or> i \<le> j" "\<not> sh_cancelled s"
    by (simp_all add: shards_inv_def)
  then show ?case
    using Spawn(2) by (simp add: shards_inv_def shards_defs) linarith
next
  case (Join s i served)
  then show ?case
    by (auto simp: shards_inv_def less_Suc_eq)
qed (simp_all add: shards_inv_thread, simp_all add: shards_inv_def shards_defs)

lemma shards_inv_reachable: "shards_step\<^sup>*\<^sup>* (shards_init n) s \<Longrightarrow> shards_inv s"
  by (induction rule: rtranclp_induct) (auto intro: shards_inv_init shards_inv_step)

section \<open>Stopping\<close>

text \<open>How far a thread and the calling thread are from their ends once the flag is raised.\<close>

fun thread_rank :: "shard_thread \<Rightarrow> nat" where
  "thread_rank Started = 2"
| "thread_rank Serving = 1"
| "thread_rank _ = 0"

fun main_rank :: "nat \<Rightarrow> main_thread \<Rightarrow> nat" where
  "main_rank started (Joining i _) = Suc started - i"
| "main_rank started _ = 0"

definition shards_rank :: "shards_state \<Rightarrow> nat" where
  "shards_rank s = (\<Sum>i < sh_count s. thread_rank (sh_threads s i)) + main_rank (sh_started s) (sh_main s)"

lemma shards_rank_thread:
  assumes "shards_inv s" and "thread_rank t < thread_rank (sh_threads s i)"
  shows "shards_rank (set_thread i t s) < shards_rank s"
proof -
  have "sh_threads s i \<noteq> Unstarted" using assms(2) by auto
  then have i: "i < sh_count s" using assms(1) by (auto simp: shards_inv_def)
  have split: "(\<Sum>j < sh_count s. f j) = f i + (\<Sum>j \<in> {..< sh_count s} - {i}. f j)" for f :: "nat \<Rightarrow> nat"
    using i by (simp add: sum.remove)
  have "(\<Sum>j \<in> {..< sh_count s} - {i}. thread_rank (((sh_threads s)(i := t)) j)) =
      (\<Sum>j \<in> {..< sh_count s} - {i}. thread_rank (sh_threads s j))"
    by (rule sum.cong) auto
  then show ?thesis
    using assms(2) by (simp add: shards_rank_def set_thread_def split)
qed

lemma shards_rank_step:
  assumes "shards_step s s'" and "shards_inv s" and "sh_cancelled s"
  shows "shards_rank s' < shards_rank s \<and> sh_cancelled s'"
  using assms
proof (induction rule: shards_step.induct)
  case (Join s i served)
  then show ?case by (simp add: shards_rank_def Suc_diff_le)
next
  case (Joined s i served)
  then show ?case by (simp add: shards_rank_def shards_inv_def)
next
  case (Panic s i)
  then have "0 < thread_rank (sh_threads s i)" by auto
  with Panic show ?case by (simp add: shards_rank_thread) (simp add: set_thread_def)
qed (simp_all add: shards_rank_thread, simp_all add: shards_inv_def set_thread_def)

lemma shards_progress:
  assumes "shards_inv s" and "sh_cancelled s" and "\<nexists>s'. shards_step s s'"
  shows "\<exists>r. sh_main s = Listened r"
proof (cases "sh_main s")
  case (Joining i r)
  show ?thesis
  proof (cases "i < sh_started s")
    case True
    then have "\<not> joinable (sh_threads s i)"
      using assms(3) Joining Join by blast
    moreover have "sh_threads s i \<noteq> Unstarted"
      using assms(1) Joining True by (simp add: shards_inv_def)
    ultimately have "sh_threads s i = Started \<or> sh_threads s i = Serving"
      by (cases "sh_threads s i") auto
    then show ?thesis
      using assms(2,3) Bound Shard_Stop by blast
  next
    case False
    then show ?thesis
      using assms(3) Joining Joined [OF Joining] by fastforce
  qed
qed (use assms in \<open>auto simp: shards_inv_def\<close>)

lemma shards_rank_bound:
  assumes "shards_inv s" shows "shards_rank s \<le> 3 * sh_count s"
proof -
  have "thread_rank t \<le> 2" for t
    by (cases t) auto
  then have "(\<Sum>i < sh_count s. thread_rank (sh_threads s i)) \<le> 2 * sh_count s"
    using sum_bounded_above [of "{..< sh_count s}" "\<lambda>i. thread_rank (sh_threads s i)" 2] by (simp add: mult.commute)
  moreover have "main_rank (sh_started s) (sh_main s) \<le> sh_count s"
    using assms by (cases "sh_main s") (auto simp: shards_inv_def)
  ultimately show ?thesis by (simp add: shards_rank_def)
qed

text \<open>
  C14. The shards of a server stop together. The flag that stops them is raised when the first shard stops
  serving, for whatever reason, or when a thread cannot be started - and only then: a shard that fails
  or panics on its own does not raise it. Once it is raised every step, in any interleaving, brings the
  server closer to its end, at most three steps per shard remain, and it cannot get stuck before
  \<open>listen\<close> has returned. And when \<open>listen\<close> has returned, every thread it ever started has ended.
\<close>
theorem shards_stop_together:
  assumes "shards_step\<^sup>*\<^sup>* (shards_init n) s"
  shows "(sh_cancelled s \<longleftrightarrow> (\<exists>i r. sh_main s = Joining i r) \<or> (\<exists>r. sh_main s = Listened r)) \<and>
    (sh_cancelled s \<longrightarrow> shards_rank s \<le> 3 * sh_count s \<and>
       (\<forall>s'. shards_step s s' \<longrightarrow> shards_rank s' < shards_rank s \<and> sh_cancelled s') \<and>
       ((\<nexists>s'. shards_step s s') \<longrightarrow> (\<exists>r. sh_main s = Listened r))) \<and>
    (\<forall>r i. sh_main s = Listened r \<longrightarrow> sh_threads s i = Unstarted \<or> joinable (sh_threads s i))"
proof -
  note inv = shards_inv_reachable [OF assms]
  have "sh_cancelled s \<longleftrightarrow> (\<exists>i r. sh_main s = Joining i r) \<or> (\<exists>r. sh_main s = Listened r)"
    using inv by (cases "sh_main s") (auto simp: shards_inv_def)
  moreover have "sh_threads s i = Unstarted \<or> joinable (sh_threads s i)" if "sh_main s = Listened r" for r i
  proof (cases "i = 0 \<or> sh_started s \<le> i")
    case False
    then show ?thesis using inv that by (auto simp: shards_inv_def)
  qed (use inv in \<open>simp add: shards_inv_def\<close>)
  ultimately show ?thesis
    using shards_rank_bound [OF inv] shards_rank_step [OF _ inv] shards_progress [OF inv] by blast
qed

text \<open>Two shards; the second cannot bind, the first stops, and \<open>listen\<close> returns.\<close>

theorem shards_stop_together_witness:
  "\<exists>s. shards_step\<^sup>*\<^sup>* (shards_init 2) s \<and> sh_main s = Joining 1 (Ok ()) \<and> sh_cancelled s \<and> shards_rank s \<le> 6 \<and>
     (\<forall>s'. shards_step s s' \<longrightarrow> shards_rank s' < shards_rank s)"
proof -
  let ?s0 = "shards_init 2"
  let ?s1 = "spawn_shard 1 ?s0"
  let ?s2 = "set_thread 1 (Returned_Shard (Err ''address in use'')) ?s1"
  let ?s3 = "?s2\<lparr>sh_main := MainServing\<rparr>"
  let ?s4 = "main_stopped (Ok ()) ?s3"
  have "shards_step ?s0 ?s1"
    by (rule Spawn) (simp_all add: shards_init_def)
  moreover have "shards_step ?s1 ?s2"
    by (rule Bind_Err) (simp add: shards_defs shards_init_def)
  moreover have "shards_step ?s2 ?s3"
    by (rule All_Started [where i = 2]) (simp_all add: shards_defs shards_init_def)
  moreover have "shards_step ?s3 ?s4"
    by (rule Main_Stop) simp
  ultimately have reach: "shards_step\<^sup>*\<^sup>* ?s0 ?s4"
    by (meson converse_rtranclp_into_rtranclp rtranclp.rtrancl_refl)
  have "sh_main ?s4 = Joining 1 (Ok ())" "sh_cancelled ?s4" "sh_count ?s4 = 2"
    by (simp_all add: shards_defs shards_init_def)
  with shards_stop_together [OF reach] reach show ?thesis
    by (intro exI [of _ ?s4]) simp
qed

section \<open>The address of the shards\<close>

text \<open>
  With several shards the first listener is bound with \<open>SO_REUSEPORT\<close> and the others bind exactly its
  address; with one shard it is bound alone. Nothing is bound for a server that expects TLS or whose
  modes contradict each other.
\<close>

lemma listen_prepare_start_error:
  "listen_start sv = Err e \<Longrightarrow> listen_prepare pf shards sv k = (k, Err (StartError e))"
  by (simp add: listen_prepare_def)

lemma listen_prepare_others:
  assumes "listen_prepare pf shards sv k = (k', Ok ln)"
  shows "(ln_others ln = None \<longleftrightarrow> shards \<le> 1) \<and> ln_server ln = prepare sv \<and>
    (\<forall>m a. ln_others ln = Some (m, a) \<longrightarrow> m = shards \<and> pf_local_addr pf (ln_listener ln) = Ok a)"
  using assms by (auto simp: listen_prepare_def split: result.splits prod.splits if_splits)

end
