(* ===== verification/Scalars.thy ===== *)
theory Scalars
  imports Prelude
begin

text \<open>
  \<open>src/libs/types.rs\<close> and \<open>src/libs/utils.rs\<close>: addresses, hashes and 256-bit integers as text, and
  connection numbers. The \<open>hex\<close> crate is a pair of parameters, \<open>enc\<close> and \<open>dec\<close>. A value of type
  \<open>[u8; n]\<close> is a list of that length, \<open>[u64; 4]\<close> a list of four words. A panic is \<open>None\<close>. The types are
  those of a build without the feature \<open>blockchain\<close>, which takes them from another crate.
\<close>

section \<open>Bytes of an integer\<close>

primrec be_bytes :: "nat \<Rightarrow> nat \<Rightarrow> bytes" where
  "be_bytes 0 n = []"
| "be_bytes (Suc k) n = be_bytes k (n div 256) @ [word_of_nat (n mod 256)]"

definition of_be :: "bytes \<Rightarrow> nat" where
  "of_be bs = foldl (\<lambda>a b. a * 256 + unat b) 0 bs"

lemma of_be_simps [simp]: "of_be [] = 0" "of_be (bs @ [b]) = of_be bs * 256 + unat b"
  by (simp_all add: of_be_def)

lemma length_be_bytes [simp]: "length (be_bytes k n) = k"
  by (induction k arbitrary: n) auto

lemma of_be_less: "of_be bs < 256 ^ length bs"
proof (induction bs rule: rev_induct)
  case (snoc b bs)
  then have "Suc (of_be bs) * 256 \<le> 256 ^ length bs * 256"
    by (intro mult_le_mono1) simp
  then have "of_be bs * 256 + unat b < 256 ^ length bs * 256"
    using unat_byte_less [of b] unfolding mult_Suc by linarith
  then show ?case
    by (simp add: mult.commute)
qed simp

lemma be_bytes_of_be: "be_bytes (length bs) (of_be bs) = bs"
  by (induction bs rule: rev_induct) (simp_all add: mult.commute [of _ 256])

lemma of_be_be_bytes: "n < 256 ^ k \<Longrightarrow> of_be (be_bytes k n) = n"
proof (induction k arbitrary: n)
  case (Suc k)
  then have "n div 256 < 256 ^ k"
    by (simp add: div_less_iff_less_mult mult.commute)
  then show ?case
    using Suc.IH by (simp add: unat_byte_of_nat)
qed simp

definition to_be64 :: "u64 \<Rightarrow> bytes" where "to_be64 w = be_bytes 8 (unat w)"

definition from_be64 :: "bytes \<Rightarrow> u64" where "from_be64 bs = word_of_nat (of_be bs)"

lemma length_to_be64 [simp]: "length (to_be64 w) = 8"
  by (simp add: to_be64_def)

lemma from_be64_to_be64 [simp]: "from_be64 (to_be64 w) = w"
proof -
  have "unat w < 256 ^ 8"
    by (rule order.strict_trans2 [OF unsigned_less]) simp
  then show ?thesis
    by (simp add: from_be64_def to_be64_def of_be_be_bytes)
qed

lemma to_be64_from_be64: "length bs = 8 \<Longrightarrow> to_be64 (from_be64 bs) = bs"
  using of_be_less [of bs] be_bytes_of_be [of bs]
  by (simp add: from_be64_def to_be64_def unsigned_of_nat take_bit_nat_eq_self)

section \<open>The code\<close>

definition decode_scalar :: "(string \<Rightarrow> (bytes, string) result) \<Rightarrow> string \<Rightarrow> nat \<Rightarrow> (bytes, string) result" where
  "decode_scalar dec val digits =
     (if length val \<noteq> digits * 2 + 2 \<or> \<not> starts_with val ''0x''
      then Err (''expected 0x followed by exactly '' @ show_nat (digits * 2) @ '' hexadecimal digits'')
      else dec (drop 2 val))"

text \<open>The macro \<open>byte_scalar\<close>; \<open>copy_from_slice\<close> panics unless the lengths agree.\<close>

definition scalar_display :: "(bytes \<Rightarrow> string) \<Rightarrow> bytes \<Rightarrow> string" where
  "scalar_display enc a = ''0x'' @ enc a"

definition scalar_from_str ::
  "nat \<Rightarrow> (string \<Rightarrow> (bytes, string) result) \<Rightarrow> string \<Rightarrow> (bytes, string) result option" where
  "scalar_from_str len dec val =
     (case decode_scalar dec val len of
        Err e \<Rightarrow> Some (Err e)
      | Ok bs \<Rightarrow> if length bs = len then Some (Ok bs) else None)"

definition address_from_str :: "(string \<Rightarrow> (bytes, string) result) \<Rightarrow> string \<Rightarrow> (bytes, string) result option" where
  "address_from_str dec val = scalar_from_str 20 dec val"

definition h256_from_str :: "(string \<Rightarrow> (bytes, string) result) \<Rightarrow> string \<Rightarrow> (bytes, string) result option" where
  "h256_from_str dec val = scalar_from_str 32 dec val"

text \<open>The memory of the four words: the bytes of each in the order of the machine, \<open>le\<close> for little-endian.\<close>

definition u256_deref :: "bool \<Rightarrow> u64 list \<Rightarrow> bytes" where
  "u256_deref le ws = concat (map (\<lambda>w. if le then rev (to_be64 w) else to_be64 w) ws)"

definition u256_display :: "bool \<Rightarrow> (bytes \<Rightarrow> string) \<Rightarrow> u64 list \<Rightarrow> string" where
  "u256_display le enc ws = ''0x'' @ enc (u256_deref le ws)"

function chunks_exact :: "nat \<Rightarrow> 'a list \<Rightarrow> 'a list list" where
  "chunks_exact n xs = (if n = 0 \<or> length xs < n then [] else take n xs # chunks_exact n (drop n xs))"
  by auto
termination by (relation "measure (\<lambda>(n, xs). length xs)") auto

declare chunks_exact.simps [simp del]

text \<open>Four words are written, the rest stays zero; a fifth would be out of bounds.\<close>

definition u256_from_str :: "(string \<Rightarrow> (bytes, string) result) \<Rightarrow> string \<Rightarrow> (u64 list, string) result option" where
  "u256_from_str dec val =
     (case decode_scalar dec val 32 of
        Err e \<Rightarrow> Some (Err e)
      | Ok bs \<Rightarrow>
          (let ws = map from_be64 (chunks_exact 8 bs) in
           if length ws \<le> 4 then Some (Ok (ws @ replicate (4 - length ws) 0)) else None))"

definition scalar_serialize :: "(bytes \<Rightarrow> string) \<Rightarrow> bytes \<Rightarrow> string" where
  "scalar_serialize enc a = scalar_display enc a"

definition scalar_deserialize ::
  "nat \<Rightarrow> (string \<Rightarrow> 'e) \<Rightarrow> (string \<Rightarrow> (bytes, string) result) \<Rightarrow> string \<Rightarrow> (bytes, 'e) result option" where
  "scalar_deserialize len custom dec val = map_option (result_map_err custom) (scalar_from_str len dec val)"

definition u256_serialize :: "bool \<Rightarrow> (bytes \<Rightarrow> string) \<Rightarrow> u64 list \<Rightarrow> string" where
  "u256_serialize le enc ws = u256_display le enc ws"

definition u256_deserialize ::
  "(string \<Rightarrow> 'e) \<Rightarrow> (string \<Rightarrow> (bytes, string) result) \<Rightarrow> string \<Rightarrow> (u64 list, 'e) result option" where
  "u256_deserialize custom dec val = map_option (result_map_err custom) (u256_from_str dec val)"

text \<open>
  The wrappers of the wire: the length is checked again, the value printed by \<open>Debug\<close>. \<open>custom\<close> makes an
  error of the deserialiser.
\<close>

definition parse_blockchain_scalar ::
  "(string \<Rightarrow> 'e) \<Rightarrow> (string \<Rightarrow> ('a, string) result option) \<Rightarrow> string \<Rightarrow> nat \<Rightarrow> ('a, 'e) result option" where
  "parse_blockchain_scalar custom from_str val digits =
     (if length val \<noteq> digits + 2 \<or> \<not> starts_with val ''0x''
      then Some (Err (custom (''expected 0x followed by exactly '' @ show_nat digits @ '' hexadecimal digits'')))
      else map_option (result_map_err custom) (from_str val))"

definition address_serialize :: "(bytes \<Rightarrow> string) \<Rightarrow> bytes \<Rightarrow> string" where
  "address_serialize enc a = scalar_display enc a"

definition address_deserialize ::
  "(string \<Rightarrow> 'e) \<Rightarrow> (string \<Rightarrow> (bytes, string) result) \<Rightarrow> string \<Rightarrow> (bytes, 'e) result option" where
  "address_deserialize custom dec val = parse_blockchain_scalar custom (address_from_str dec) val 40"

definition hash_serialize :: "(bytes \<Rightarrow> string) \<Rightarrow> bytes \<Rightarrow> string" where
  "hash_serialize enc a = scalar_display enc a"

definition hash_deserialize ::
  "(string \<Rightarrow> 'e) \<Rightarrow> (string \<Rightarrow> (bytes, string) result) \<Rightarrow> string \<Rightarrow> (bytes, 'e) result option" where
  "hash_deserialize custom dec val = parse_blockchain_scalar custom (h256_from_str dec) val 64"

definition hex_decode :: "(string \<Rightarrow> (bytes, string) result) \<Rightarrow> string \<Rightarrow> (bytes, string) result" where
  "hex_decode dec s = (if starts_with s ''0x'' then dec (drop 2 s) else dec s)"

text \<open>\<open>num_str\<close> is the number as it is printed.\<close>

definition count_dp :: "string \<Rightarrow> nat" where
  "count_dp num_str =
     (case split_once num_str ''.'' of
        Some (before, _) \<Rightarrow> length num_str - length before - 1
      | None \<Rightarrow> 0)"

text \<open>
  The counter behind \<open>get_conn_id\<close>: unset before the first call, then an \<open>AtomicU32\<close> whose \<open>fetch_add\<close>
  wraps. \<open>now\<close> is the clock in microseconds.
\<close>

text \<open>
  \<open>align_precision\<close> prints the number of decimal places and reads it back before it uses it; the text of a
  number, with as many places as it needs or with a given number of them, is the standard library's.
\<close>

definition align_precision ::
  "('f \<Rightarrow> string) \<Rightarrow> (nat \<Rightarrow> 'f \<Rightarrow> string) \<Rightarrow> (string \<Rightarrow> 'f option) \<Rightarrow> 'f \<Rightarrow> 'f \<Rightarrow> 'f option" where
  "align_precision shown fmt parse a b =
     (let precision_b = count_dp (shown b);
          precision_a = show_nat precision_b in
      Option.bind (parse_unsigned (2 ^ 64 - 1) precision_a) (\<lambda>p. parse (fmt p a)))"

definition get_conn_id :: "int \<Rightarrow> u32 option \<Rightarrow> u32 \<times> u32 option" where
  "get_conn_id now next =
     (let v = (case next of Some v \<Rightarrow> v | None \<Rightarrow> word_of_int now) in (v, Some (v + 1)))"

primrec conn_ids :: "int list \<Rightarrow> u32 option \<Rightarrow> u32 list" where
  "conn_ids [] next = []"
| "conn_ids (now # nows) next = (case get_conn_id now next of (v, next') \<Rightarrow> v # conn_ids nows next')"

section \<open>Text forms\<close>

text \<open>What is relied on of the \<open>hex\<close> crate.\<close>

definition hex_laws :: "(bytes \<Rightarrow> string) \<Rightarrow> (string \<Rightarrow> (bytes, string) result) \<Rightarrow> bool" where
  "hex_laws enc dec \<longleftrightarrow>
     (\<forall>bs. dec (enc bs) = Ok bs) \<and> (\<forall>s bs. dec s = Ok bs \<longrightarrow> length s = 2 * length bs)"

lemma length_enc: "hex_laws enc dec \<Longrightarrow> length (enc bs) = 2 * length bs"
  unfolding hex_laws_def by blast

lemma decode_scalar_display:
  "hex_laws enc dec \<Longrightarrow> length a = len \<Longrightarrow> decode_scalar dec (scalar_display enc a) len = Ok a"
  using length_enc [of enc dec a]
  by (simp add: decode_scalar_def scalar_display_def starts_with_def hex_laws_def)

lemma decode_scalar_Ok:
  assumes "hex_laws enc dec" and "decode_scalar dec val len = Ok bs"
  shows "length bs = len"
proof -
  have "dec (drop 2 val) = Ok bs" "length val = 2 * len + 2"
    using assms(2) by (auto simp: decode_scalar_def split: if_splits)
  moreover from this(1) assms(1) have "length (drop 2 val) = 2 * length bs"
    unfolding hex_laws_def by blast
  ultimately show ?thesis by simp
qed

text \<open>
  Addresses and hashes are read back from their text, as such and through the wire wrappers. Reading
  never panics, and accepts only \<open>0x\<close> followed by exactly twice as many characters as there are bytes.
\<close>
theorem scalar_text_round_trip:
  assumes "hex_laws enc dec"
  shows "(length a = len \<longrightarrow> scalar_deserialize len custom dec (scalar_serialize enc a) = Some (Ok a)) \<and>
    (length a = 20 \<longrightarrow> address_deserialize custom dec (address_serialize enc a) = Some (Ok a)) \<and>
    (length a = 32 \<longrightarrow> hash_deserialize custom dec (hash_serialize enc a) = Some (Ok a)) \<and>
    scalar_from_str len dec val \<noteq> None \<and>
    (scalar_from_str len dec val = Some (Ok a) \<longleftrightarrow>
       length a = len \<and> (\<exists>digits. val = ''0x'' @ digits \<and> length digits = 2 * len \<and> dec digits = Ok a))"
proof -
  have inv: "scalar_from_str (length b) dec (scalar_display enc b) = Some (Ok b)" for b
    using decode_scalar_display [OF assms refl, of b] by (simp add: scalar_from_str_def)
  have total: "scalar_from_str len dec val \<noteq> None"
    using decode_scalar_Ok [OF assms, of val len] by (auto simp: scalar_from_str_def split: result.split)
  have "scalar_from_str len dec val = Some (Ok a) \<longleftrightarrow> decode_scalar dec val len = Ok a"
    using decode_scalar_Ok [OF assms, of val len] by (auto simp: scalar_from_str_def split: result.split)
  also have "\<dots> \<longleftrightarrow> length a = len \<and> (\<exists>digits. val = ''0x'' @ digits \<and> length digits = 2 * len \<and> dec digits = Ok a)"
    using decode_scalar_Ok [OF assms, of val len a]
    by (auto simp: decode_scalar_def starts_with_iff)
  finally show ?thesis
    using total inv [of a] length_enc [OF assms, of a]
    by (auto simp: scalar_serialize_def scalar_deserialize_def address_deserialize_def address_serialize_def hash_deserialize_def hash_serialize_def
        parse_blockchain_scalar_def address_from_str_def h256_from_str_def scalar_display_def starts_with_def)
qed

text \<open>A \<open>hex\<close> in lower case.\<close>

definition hex_char :: "nat \<Rightarrow> char" where "hex_char n = ''0123456789abcdef'' ! n"

definition hex_val :: "char \<Rightarrow> nat option" where
  "hex_val c = find (\<lambda>n. hex_char n = c) [0 ..< 16]"

definition sample_enc :: "bytes \<Rightarrow> string" where
  "sample_enc bs = concat (map (\<lambda>b. [hex_char (unat b div 16), hex_char (unat b mod 16)]) bs)"

fun sample_dec :: "string \<Rightarrow> (bytes, string) result" where
  "sample_dec [] = Ok []"
| "sample_dec [c] = Err ''Odd number of digits''"
| "sample_dec (c # d # s) =
     (case (hex_val c, hex_val d) of
        (Some h, Some l) \<Rightarrow> result_map ((#) (word_of_nat (16 * h + l))) (sample_dec s)
      | _ \<Rightarrow> Err ''Invalid character'')"

lemma hex_val_hex_char: "n < 16 \<Longrightarrow> hex_val (hex_char n) = Some n"
proof -
  have "\<forall>n \<in> set [0 ..< 16]. hex_val (hex_char n) = Some n"
    by (simp add: hex_val_def hex_char_def upt_rec)
  then show "n < 16 \<Longrightarrow> ?thesis" by simp
qed

lemma sample_hex_laws: "hex_laws sample_enc sample_dec"
proof -
  have "sample_dec (sample_enc bs) = Ok bs" for bs
    by (induction bs) (simp_all add: sample_enc_def hex_val_hex_char div_less_iff_less_mult)
  moreover have "sample_dec s = Ok bs \<Longrightarrow> length s = 2 * length bs" for s bs
    by (induction s arbitrary: bs rule: sample_dec.induct) (auto split: option.splits)
  ultimately show ?thesis
    by (simp add: hex_laws_def)
qed

theorem scalar_text_round_trip_witness:
  "address_deserialize (\<lambda>e. e) sample_dec (address_serialize sample_enc (replicate 20 0xAB)) =
     Some (Ok (replicate 20 0xAB)) \<and>
   scalar_serialize sample_enc [0xAB] = ''0xab'' \<and>
   scalar_deserialize 1 (\<lambda>e. e) sample_dec ''0xab'' = Some (Ok [0xAB])"
  using scalar_text_round_trip [OF sample_hex_laws, of "replicate 20 0xAB" 20 "\<lambda>e. e" "[]"]
    scalar_text_round_trip [OF sample_hex_laws, of "[0xAB]" 1 "\<lambda>e. e" "[]"]
  by (simp add: scalar_serialize_def scalar_display_def sample_enc_def hex_char_def)

section \<open>256-bit integers\<close>

lemma chunks_exact_concat:
  "\<forall>x \<in> set xss. length x = n \<Longrightarrow> 0 < n \<Longrightarrow> chunks_exact n (concat xss) = xss"
proof (induction xss)
  case (Cons x xss)
  then show ?case
    by (simp add: chunks_exact.simps [of n "x @ concat xss"])
qed (simp add: chunks_exact.simps)

lemma chunks_exact_whole:
  "length bs = n * k \<Longrightarrow> 0 < n \<Longrightarrow>
     concat (chunks_exact n bs) = bs \<and> length (chunks_exact n bs) = k \<and> (\<forall>c \<in> set (chunks_exact n bs). length c = n)"
proof (induction k arbitrary: bs)
  case (Suc k)
  have len: "length (drop n bs) = n * k" "n \<le> length bs"
    using Suc.prems(1) by simp_all
  have eq: "chunks_exact n bs = take n bs # chunks_exact n (drop n bs)"
    using len(2) Suc.prems(2) by (subst chunks_exact.simps) simp
  note IH = Suc.IH [OF len(1) Suc.prems(2)]
  have "concat (chunks_exact n bs) = take n bs @ drop n bs"
    using IH unfolding eq by (simp only: concat.simps)
  moreover have "length (chunks_exact n bs) = Suc k"
    using IH unfolding eq by (simp only: list.size)
  moreover have "\<forall>c \<in> set (chunks_exact n bs). length c = n"
  proof -
    have "length (take n bs) = n" using len(2) by simp
    with IH show ?thesis unfolding eq list.set by blast
  qed
  ultimately show ?case
    unfolding append_take_drop_id by blast
qed (simp add: chunks_exact.simps [of n "[]"])

definition swap_bytes :: "u64 \<Rightarrow> u64" where
  "swap_bytes w = from_be64 (rev (to_be64 w))"

lemma u256_from_bytes:
  assumes "hex_laws enc dec" and "length bs = 32"
  shows "u256_from_str dec (''0x'' @ enc bs) = Some (Ok (map from_be64 (chunks_exact 8 bs)))"
  using decode_scalar_display [OF assms] chunks_exact_whole [of bs 8 4] assms(2)
  by (simp add: u256_from_str_def scalar_display_def)

lemma u256_deref_chunks: "u256_deref le ws = concat (map (\<lambda>w. if le then rev (to_be64 w) else to_be64 w) ws)"
  "length (u256_deref le ws) = 8 * length ws"
  "chunks_exact 8 (u256_deref le ws) = map (\<lambda>w. if le then rev (to_be64 w) else to_be64 w) ws"
proof -
  show "length (u256_deref le ws) = 8 * length ws"
    by (induction ws) (simp_all add: u256_deref_def)
  show "chunks_exact 8 (u256_deref le ws) = map (\<lambda>w. if le then rev (to_be64 w) else to_be64 w) ws"
    unfolding u256_deref_def by (rule chunks_exact_concat) auto
qed (rule u256_deref_def)

text \<open>
  C34. The text of a 256-bit integer depends on the machine. On a big-endian one it is read back as it was
  written. On a little-endian one the eight bytes of each word are printed in memory order and read as
  big-endian: what is read back has every word byte-swapped, and a text that is read and printed again
  comes out with its bytes reversed in groups of eight.
\<close>
theorem u256_text_byte_order:
  assumes "hex_laws enc dec"
  shows "(length ws = 4 \<longrightarrow>
      u256_deserialize custom dec (u256_serialize le enc ws) = Some (Ok (if le then map swap_bytes ws else ws))) \<and>
    (length bs = 32 \<longrightarrow>
      (\<exists>ws'. u256_from_str dec (''0x'' @ enc bs) = Some (Ok ws') \<and>
        u256_display le enc ws' = ''0x'' @ enc (if le then concat (map rev (chunks_exact 8 bs)) else bs)))"
proof (intro conjI impI)
  assume "length ws = 4"
  then show "u256_deserialize custom dec (u256_serialize le enc ws) = Some (Ok (if le then map swap_bytes ws else ws))"
    using u256_from_bytes [OF assms, of "u256_deref le ws"] u256_deref_chunks [of le ws]
    by (simp add: u256_deserialize_def u256_serialize_def u256_display_def swap_bytes_def comp_def)
next
  assume len: "length bs = 32"
  then have chunks: "concat (chunks_exact 8 bs) = bs" "\<forall>c \<in> set (chunks_exact 8 bs). length c = 8"
    using chunks_exact_whole [of bs 8 4] by simp_all
  then have "map (\<lambda>c. to_be64 (from_be64 c)) (chunks_exact 8 bs) = chunks_exact 8 bs"
    by (intro map_idI) (simp add: to_be64_from_be64)
  moreover have "map (\<lambda>c. rev (to_be64 (from_be64 c))) (chunks_exact 8 bs) = map rev (chunks_exact 8 bs)"
    using chunks(2) by (intro map_cong) (simp_all add: to_be64_from_be64)
  ultimately have "u256_deref le (map from_be64 (chunks_exact 8 bs)) =
      (if le then concat (map rev (chunks_exact 8 bs)) else bs)"
    using chunks(1) by (simp add: u256_deref_def comp_def del: map_eq_conv)
  then show "\<exists>ws'. u256_from_str dec (''0x'' @ enc bs) = Some (Ok ws') \<and>
      u256_display le enc ws' = ''0x'' @ enc (if le then concat (map rev (chunks_exact 8 bs)) else bs)"
    using u256_from_bytes [OF assms len] by (simp add: u256_display_def)
qed

text \<open>The number one, as it is written and as a little-endian machine prints it back.\<close>

theorem u256_text_byte_order_witness:
  "\<exists>ws. u256_from_str sample_dec (''0x'' @ sample_enc (replicate 31 0 @ [1])) = Some (Ok ws) \<and>
     u256_display True sample_enc ws = ''0x'' @ sample_enc (replicate 24 0 @ [1] @ replicate 7 0)"
proof -
  have "concat (map rev (chunks_exact 8 (replicate 31 0 @ [1 :: u8]))) = replicate 24 0 @ [1] @ replicate 7 0"
    by (simp add: chunks_exact.simps eval_nat_numeral)
  with u256_text_byte_order [OF sample_hex_laws, of "[]" "\<lambda>e. e" True "replicate 31 0 @ [1]"] show ?thesis
    by simp
qed

section \<open>Connection numbers\<close>

lemma conn_ids_Some: "conn_ids nows (Some v) = map (\<lambda>i. v + word_of_nat i) [0 ..< length nows]"
proof (induction nows arbitrary: v)
  case (Cons now nows)
  then show ?case
    by (simp add: get_conn_id_def Let_def upt_conv_Cons add.assoc flip: map_Suc_upt del: upt_Suc)
qed simp

lemma conn_ids_from_clock: "conn_ids (now # nows) None = conn_ids (now # nows) (Some (word_of_int now))"
  by (simp add: get_conn_id_def)

text \<open>
  Connection numbers do not repeat: whichever threads make the calls, in whatever order the atomic
  increments happen, any \<open>2 ^ 32\<close> consecutive calls return pairwise different numbers, starting from the
  clock at the first call; the next one after them returns the first of them again.
\<close>
theorem conn_ids_distinct:
  "(length nows \<le> 2 ^ 32 \<longrightarrow> distinct (conn_ids nows next)) \<and>
   (length nows = 2 ^ 32 \<longrightarrow> last (conn_ids (nows @ [now]) next) = hd (conn_ids nows next))"
proof (cases nows)
  case (Cons t ts)
  let ?v = "case next of Some v \<Rightarrow> v | None \<Rightarrow> word_of_int t"
  have ids: "conn_ids nows next = map (\<lambda>i. ?v + word_of_nat i) [0 ..< length nows]"
    "conn_ids (nows @ [now]) next = map (\<lambda>i. ?v + word_of_nat i) [0 ..< Suc (length nows)]"
    using conn_ids_from_clock [of t ts] conn_ids_from_clock [of t "ts @ [now]"] Cons
    by (cases "next"; simp add: conn_ids_Some del: conn_ids.simps upt_Suc)+
  have "inj_on (\<lambda>i. ?v + word_of_nat i) {0 ..< length nows}" if "length nows \<le> 2 ^ 32"
  proof (rule inj_onI)
    fix i j assume "i \<in> {0 ..< length nows}" "j \<in> {0 ..< length nows}" and "?v + word_of_nat i = ?v + word_of_nat j"
    moreover have "unat (word_of_nat n :: u32) = n" if "n \<in> {0 ..< length nows}" for n
      using that \<open>length nows \<le> 2 ^ 32\<close> by (simp add: unsigned_of_nat take_bit_nat_eq_self)
    ultimately show "i = j"
      by (metis add_left_cancel)
  qed
  then have "distinct (conn_ids nows next)" if "length nows \<le> 2 ^ 32"
    using that by (simp add: ids distinct_map)
  moreover have "last (conn_ids (nows @ [now]) next) = hd (conn_ids nows next)" if "length nows = 2 ^ 32"
  proof -
    have "last (conn_ids (nows @ [now]) next) = ?v + word_of_nat (length nows)"
      by (simp add: ids)
    moreover have "hd (conn_ids nows next) = ?v"
      unfolding ids by (subst hd_map) (simp_all add: Cons del: upt_Suc)
    ultimately show ?thesis
      using that by simp
  qed
  ultimately show ?thesis by blast
qed simp

theorem conn_ids_distinct_witness:
  "distinct (conn_ids [-1, -1, 5] None) \<and> conn_ids [-1, -1, 5] None = [0xFFFFFFFF, 0, 1]"
  using conn_ids_distinct [of "[-1, -1, 5]" None]
  by (simp add: get_conn_id_def)

text \<open>A prefix is taken off, and only one: text without it is decoded as it is.\<close>

lemma hex_decode_prefix: "hex_decode dec (''0x'' @ s) = dec s"
  by (simp add: hex_decode_def starts_with_def)

text \<open>The digits behind the first point.\<close>

lemma count_dp_spec:
  "split_once s ''.'' = Some (a, b) \<Longrightarrow> count_dp s = length b"
  using split_once_Some [of s "''.''" a b] by (simp add: count_dp_def)

text \<open>
  The detour through text changes nothing, so the result is the first number with as many decimal places as
  the second is printed with, and the function panics only where that text is not a number.
\<close>

lemma align_precision_spec:
  "length (shown b) < 2 ^ 64 \<Longrightarrow> align_precision shown fmt parse a b = parse (fmt (count_dp (shown b)) a)"
  by (simp add: align_precision_def Let_def parse_unsigned_show_nat count_dp_def split: option.split)

end
