(* ===== verification/Hub.thy ===== *)
theory Hub
  imports Server Scalars
begin

text \<open>
  All connections of a server at once. \<open>Server\<close> has the life of one connection as one function,
  \<open>serve_connection\<close>; here the futures that the accept loops of \<open>src/libs/ws/server.rs\<close> drive are a list,
  and their segments between await points (upgrade and connect hooks, registration, authentication,
  session, cleanup) interleave with each other and with the rest of the process. They share the
  limits, the table of connections and the counter behind \<open>get_conn_id\<close> (\<open>src/libs/utils.rs\<close>). Taking and
  returning a slot is one step here; \<open>Server_Limits\<close> has the interleaving of its atomic operations.
\<close>

section \<open>The connections of a server\<close>

text \<open>
  A connection's future has its slot from the start. \<open>sc_number\<close> counts the calls of \<open>get_conn_id\<close> before
  the connection's own; it is there for the proofs only.
\<close>

record served =
  sc_refs :: conn_refs
  sc_peer :: peer_identity
  sc_protocol :: "string option"
  sc_number :: nat

datatype 'u live_conn = Admitted | Registered served | Running served "'u session"

record 'u hub =
  hub_srv :: "'u srv"
  hub_next :: "u32 option"
  hub_drawn :: nat
  hub_live :: "'u live_conn list"

definition hub_new :: "'u srv \<Rightarrow> 'u hub" where
  "hub_new s = \<lparr>hub_srv = s, hub_next = None, hub_drawn = 0, hub_live = []\<rparr>"

definition hub_accept :: "'u web_server \<Rightarrow> 'u hub \<Rightarrow> 'u hub" where
  "hub_accept sv h =
     (let s = hub_srv h in
      case acquire (srv_limits s) (server_config sv) ''connections'' of
        (lim, ok, evs) \<Rightarrow>
          h\<lparr>hub_srv := s\<lparr>srv_limits := lim, limit_log := limit_log s @ evs\<rparr>,
            hub_live := hub_live h @ (if ok then [Admitted] else [])\<rparr>)"

text \<open>The end of a connection's future, which drops its slot.\<close>

definition end_conn :: "nat \<Rightarrow> 'u hub \<Rightarrow> 'u hub" where
  "end_conn i h = h\<lparr>hub_srv := srv_release ''connections'' (hub_srv h), hub_live := remove_nth i (hub_live h)\<rparr>"

definition hub_connect :: "'u web_server \<Rightarrow> nat \<Rightarrow> peer_identity \<Rightarrow> string option \<Rightarrow> int \<Rightarrow> conn_refs \<Rightarrow> 'u hub \<Rightarrow> 'u hub" where
  "hub_connect sv i peer protocol now cells h =
     (case on_site (run_on_connect (server_hooks sv) peer ext_new) (hub_srv h) of
        (s, _, Err _) \<Rightarrow> end_conn i (h\<lparr>hub_srv := s\<rparr>)
      | (s, extensions, Ok _) \<Rightarrow>
          (case get_conn_id now (hub_next h) of
             (c, next) \<Rightarrow>
               (let cr = cells\<lparr>cr_id := c\<rparr>;
                    sc = \<lparr>sc_refs = cr, sc_peer = peer, sc_protocol = protocol, sc_number = hub_drawn h\<rparr> in
                h\<lparr>hub_srv := register_connection sv cr peer extensions s, hub_next := next,
                  hub_drawn := hub_drawn h + 1, hub_live := (hub_live h)[i := Registered sc]\<rparr>)))"

definition session_for :: "conn_refs \<Rightarrow> nat \<Rightarrow> world \<Rightarrow> 'u session" where
  "session_for cr now w =
     (let se = session_new (cr_conn cr) (cr_queue cr) (cr_end cr) (cr_waker cr) now in
      case get_state w (cr_id cr) of Some st \<Rightarrow> bind_end (ss_end st) se | None \<Rightarrow> se)"

text \<open>Authentication has failed: the error is queued and the session told to end.\<close>

definition auth_refused :: "'u web_server \<Rightarrow> conn_refs \<Rightarrow> string \<Rightarrow> 'u srv \<Rightarrow> 'u srv" where
  "auth_refused sv cr err s =
     (let raw_ctx = from_conn (conns (srv_world s) (cr_conn cr));
          s = srv_send (server.truncate sv) (rc_connection_id raw_ctx)
                (error_response raw_ctx BAD_REQUEST (kind_message BAD_REQUEST err)) s in
      s\<lparr>srv_world := (case get_state (srv_world s) (cr_id cr) of
          Some st \<Rightarrow> cancel_end (Some (ss_end st)) (srv_world s) | None \<Rightarrow> srv_world s)\<rparr>)"

definition hub_auth :: "'u web_server \<Rightarrow> nat \<Rightarrow> ('u site \<Rightarrow> 'u site) option \<Rightarrow> nat \<Rightarrow> 'u hub \<Rightarrow> 'u hub" where
  "hub_auth sv i late now h =
     (case hub_live h ! i of
        Registered sc \<Rightarrow>
          (let cr = sc_refs sc;
               (s, r) = authenticate sv cr (sc_protocol sc) late (hub_srv h);
               s = (case r of Ok _ \<Rightarrow> s | Err err \<Rightarrow> auth_refused sv cr err s) in
           h\<lparr>hub_srv := s, hub_live := (hub_live h)[i := Running sc (session_for cr now (srv_world s))]\<rparr>)
      | _ \<Rightarrow> h)"

definition hub_session :: "'u web_server \<Rightarrow> nat \<Rightarrow> 'u event \<Rightarrow> 'u hub \<Rightarrow> 'u hub" where
  "hub_session sv i ev h =
     (case hub_live h ! i of
        Running sc se \<Rightarrow>
          (case session_step (server.truncate sv) ev (se, hub_srv h) of
             (se, s) \<Rightarrow> h\<lparr>hub_srv := s, hub_live := (hub_live h)[i := Running sc se]\<rparr>)
      | _ \<Rightarrow> h)"

text \<open>
  A connection ends with its session, or when its future is dropped before that: a deadline, a failed
  upgrade, the end of the accept loop. What its future owns is dropped, and the guard cleans up.
\<close>

definition hub_leave :: "'u web_server \<Rightarrow> nat \<Rightarrow> bool \<Rightarrow> 'u hub \<Rightarrow> 'u hub" where
  "hub_leave sv i reactor_ok h =
     (case hub_live h ! i of
        Admitted \<Rightarrow> end_conn i h
      | Registered sc \<Rightarrow>
          (let s = hub_srv h; q = cr_queue (sc_refs sc);
               s = set_chan q (receiver_drop (chans (srv_world s) q)) s in
           end_conn i (h\<lparr>hub_srv := cleanup_dispatch sv (cr_id (sc_refs sc)) (sc_peer sc) reactor_ok s\<rparr>))
      | Running sc se \<Rightarrow>
          (let s = (if se_pc se = Ended then hub_srv h else snd (close_session se (hub_srv h))) in
           end_conn i (h\<lparr>hub_srv := cleanup_dispatch sv (cr_id (sc_refs sc)) (sc_peer sc) reactor_ok s\<rparr>)))"

definition hub_app :: "(world \<Rightarrow> world) \<Rightarrow> 'u \<Rightarrow> 'u hub \<Rightarrow> 'u hub" where
  "hub_app f u h = h\<lparr>hub_srv := (hub_srv h)\<lparr>srv_world := f (srv_world (hub_srv h)), srv_app := u\<rparr>\<rparr>"

primrec served_of :: "'u live_conn \<Rightarrow> served list" where
  "served_of Admitted = []"
| "served_of (Registered sc) = [sc]"
| "served_of (Running sc se) = [sc]"

definition served_conns :: "'u hub \<Rightarrow> served list" where
  "served_conns h = concat (map served_of (hub_live h))"

text \<open>A new connection's queue and end flag are newly allocated, so none of a live connection.\<close>

definition fresh_cells :: "conn_refs \<Rightarrow> 'u hub \<Rightarrow> bool" where
  "fresh_cells cells h \<longleftrightarrow>
     list_all (\<lambda>sc. cr_queue (sc_refs sc) \<noteq> cr_queue cells \<and> cr_end (sc_refs sc) \<noteq> cr_end cells) (served_conns h)"

fun own_event :: "'u event \<Rightarrow> bool" where
  "own_event (Others f u) = False"
| "own_event _ = True"

text \<open>
  The rest of the process (handlers of other servers, publishers, the application's tasks) has no access to
  the table of connections, and neither has a controller whose future is dropped at the deadline.
\<close>

inductive hub_step :: "'u web_server \<Rightarrow> 'u hub \<Rightarrow> 'u hub \<Rightarrow> bool" for sv where
  Accept: "hub_step sv h (hub_accept sv h)"
| Connect: "i < length (hub_live h) \<Longrightarrow> hub_live h ! i = Admitted \<Longrightarrow> fresh_cells cells h \<Longrightarrow>
    hub_step sv h (hub_connect sv i peer protocol now cells h)"
| Auth: "i < length (hub_live h) \<Longrightarrow> (\<And>part a. late = Some part \<Longrightarrow> states (fst (part a)) = states (fst a)) \<Longrightarrow>
    hub_step sv h (hub_auth sv i late now h)"
| Session: "i < length (hub_live h) \<Longrightarrow> own_event ev \<Longrightarrow> hub_step sv h (hub_session sv i ev h)"
| Leave: "i < length (hub_live h) \<Longrightarrow> hub_step sv h (hub_leave sv i ok h)"
| App: "states (f (srv_world (hub_srv h))) = states (srv_world (hub_srv h)) \<Longrightarrow> hub_step sv h (hub_app f u h)"

inductive_cases hub_step_cases: "hub_step sv h h'"

section \<open>One connection alone\<close>

lemma live_split:
  assumes "i < length xs"
  obtains pre post where "xs = pre @ xs ! i # post" "length pre = i"
    "\<And>y. xs[i := y] = pre @ y # post" "remove_nth i xs = pre @ post"
proof
  show "xs = take i xs @ xs ! i # drop (Suc i) xs"
    using assms by (simp add: id_take_nth_drop)
qed (use assms in \<open>simp_all add: upd_conv_take_nth_drop remove_nth_def\<close>)

lemma remove_nth_update: "remove_nth i (xs[i := y]) = remove_nth i xs"
  by (simp add: remove_nth_def)

lemma hub_session_run:
  assumes "i < length (hub_live h)" and "hub_live h ! i = Running sc se"
    and "session_run (server.truncate sv) evs (se, hub_srv h) = (se', s')"
  shows "fold (hub_session sv i) evs h = h\<lparr>hub_srv := s', hub_live := (hub_live h)[i := Running sc se']\<rparr>"
  using assms
proof (induction evs arbitrary: h se)
  case Nil
  then show ?case
    using list_update_id [of "hub_live h" i] by (simp add: session_run_def)
next
  case (Cons ev evs)
  obtain se1 s1 where st: "session_step (server.truncate sv) ev (se, hub_srv h) = (se1, s1)" by force
  let ?h = "h\<lparr>hub_srv := s1, hub_live := (hub_live h)[i := Running sc se1]\<rparr>"
  have "hub_session sv i ev h = ?h"
    using Cons.prems(2) st by (simp add: hub_session_def)
  moreover have "session_run (server.truncate sv) evs (se1, hub_srv ?h) = (se', s')"
    using Cons.prems(3) st by (simp add: session_run_def)
  ultimately show ?case
    using Cons.IH [of ?h se1] Cons.prems(1) by simp
qed

text \<open>
  The segments of one connection in a row are \<open>serve_connection\<close>, after which its slot is dropped: the
  interleaved connections do what the function says, one segment at a time.
\<close>

lemma auth_segments:
  assumes "authenticate sv cr protocol late s = (s1, r)"
  shows "(case r of
       Ok _ \<Rightarrow> cleanup_dispatch sv (cr_id cr) peer ok (run_session_connection sv cr now evs s1)
     | Err err \<Rightarrow> cleanup_dispatch sv (cr_id cr) peer ok (run_session_connection sv cr now evs (auth_refused sv cr err s1))) =
    (let s2 = (case r of Ok _ \<Rightarrow> s1 | Err err \<Rightarrow> auth_refused sv cr err s1);
         (se, s3) = session_run (server.truncate sv) evs (session_for cr now (srv_world s2), s2) in
     cleanup_dispatch sv (cr_id cr) peer ok (if se_pc se = Ended then s3 else snd (close_session se s3)))"
  by (simp add: run_session_connection_def session_for_def Let_def split: result.split prod.split)

lemma serve_connection_segments:
  assumes "on_site (run_on_connect (server_hooks sv) peer ext_new) s = (s0, extensions, Ok ())"
    and "authenticate sv cr protocol late (register_connection sv cr peer extensions s0) = (s1, r)"
  shows "serve_connection sv cr peer protocol late now evs ok s =
    (let s2 = (case r of Ok _ \<Rightarrow> s1 | Err err \<Rightarrow> auth_refused sv cr err s1);
         (se, s3) = session_run (server.truncate sv) evs (session_for cr now (srv_world s2), s2) in
     cleanup_dispatch sv (cr_id cr) peer ok (if se_pc se = Ended then s3 else snd (close_session se s3)))"
  using auth_segments [OF assms(2), of peer ok now evs] assms
  by (auto simp: serve_connection_def auth_refused_def Let_def split: result.splits)

lemma connection_segments:
  assumes i: "i < length (hub_live h)"
    and oc: "on_site (run_on_connect (server_hooks sv) peer ext_new) (hub_srv h) = (s0, extensions, Ok ())"
    and c: "get_conn_id clock (hub_next h) = (c, next)"
  shows "let h' = hub_leave sv i ok (fold (hub_session sv i) evs
                    (hub_auth sv i late now (hub_connect sv i peer protocol clock cells h)))
    in hub_srv h' = srv_release ''connections''
         (serve_connection sv (cells\<lparr>cr_id := c\<rparr>) peer protocol late now evs ok (hub_srv h)) \<and>
       hub_live h' = remove_nth i (hub_live h) \<and> hub_next h' = next"
proof -
  let ?cr = "cells\<lparr>cr_id := c\<rparr>"
  let ?sc = "\<lparr>sc_refs = ?cr, sc_peer = peer, sc_protocol = protocol, sc_number = hub_drawn h\<rparr>"
  let ?h1 = "hub_connect sv i peer protocol clock cells h"
  have h1: "?h1 = h\<lparr>hub_srv := register_connection sv ?cr peer extensions s0, hub_next := next,
      hub_drawn := hub_drawn h + 1, hub_live := (hub_live h)[i := Registered ?sc]\<rparr>"
    by (simp add: hub_connect_def oc c Let_def)
  obtain s1 r where a: "authenticate sv ?cr protocol late (register_connection sv ?cr peer extensions s0) = (s1, r)"
    by force
  let ?s2 = "case r of Ok _ \<Rightarrow> s1 | Err err \<Rightarrow> auth_refused sv ?cr err s1"
  define h2 where "h2 = hub_auth sv i late now ?h1"
  have h2: "h2 = h\<lparr>hub_srv := ?s2, hub_next := next, hub_drawn := hub_drawn h + 1,
      hub_live := (hub_live h)[i := Running ?sc (session_for ?cr now (srv_world ?s2))]\<rparr>"
    using i a by (simp add: h2_def hub_auth_def h1 Let_def)
  obtain se s3 where r3: "session_run (server.truncate sv) evs (session_for ?cr now (srv_world ?s2), ?s2) = (se, s3)"
    by force
  have h3: "fold (hub_session sv i) evs h2 = h2\<lparr>hub_srv := s3, hub_live := (hub_live h2)[i := Running ?sc se]\<rparr>"
    by (rule hub_session_run) (use i r3 in \<open>simp_all add: h2\<close>)
  show ?thesis
    unfolding h2_def [symmetric] h3
    using i serve_connection_segments [OF oc a, of now evs ok] r3
    by (simp add: hub_leave_def end_conn_def h2 remove_nth_update Let_def)
qed

section \<open>Limits over all connections\<close>

lemma connections_frame [simp]:
  "connections (srv_limits (srv_observe_message sv b s)) = connections (srv_limits s)"
  "connections (srv_limits (srv_observe_time sv e s)) = connections (srv_limits s)"
  "connections (srv_limits (srv_release ''inflight_requests'' s)) = connections (srv_limits s)"
  by (auto simp: srv_observe_message_def srv_observe_time_def observe_message_def observe_request_time_def
      srv_release_def slot_drop_def split: option.split)

lemma connections_acquire: "srv_acquire sv s = (s', sl) \<Longrightarrow> connections (srv_limits s') = connections (srv_limits s)"
  by (auto simp: srv_acquire_def acquire_request_conv split: prod.splits)

lemma connections_mcp:
  "handle_mcp_frame sv conn mcp frame ctx s = (s', r) \<Longrightarrow> connections (srv_limits s') = connections (srv_limits s)"
  by (auto simp: handle_mcp_frame_def Let_def dest: connections_acquire
      split: result.splits if_splits mcp_action.splits option.splits prod.splits)

lemma connections_parsed:
  "handle_parsed sv conn ctx obj s = (s', r) \<Longrightarrow> connections (srv_limits s') = connections (srv_limits s)"
  by (auto simp: handle_parsed_def handle_request_def refuse_request_def Let_def dest: connections_acquire
      split: result.splits if_splits option.splits prod.splits)

lemma connections_message:
  assumes "handle_message sv conn msg s = (s', d)"
  shows "connections (srv_limits s') = connections (srv_limits s)"
  using assms
  by (auto simp: handle_message_def Let_def dest: connections_mcp connections_parsed
      split: option.splits if_splits prod.splits wire_message.splits)

lemma connections_close:
  assumes "\<forall>t \<in> set (se_tasks se). tk_slot t = ''inflight_requests''" and "close_session se s = (se', s')"
  shows "connections (srv_limits s') = connections (srv_limits s)"
proof -
  have "connections (srv_limits (fold (\<lambda>t. srv_release (tk_slot t)) ts s)) = connections (srv_limits s)"
    if "\<forall>t \<in> set ts. tk_slot t = ''inflight_requests''" for ts and s :: "'a srv"
    using that by (induction ts arbitrary: s) auto
  with assms show ?thesis by (auto simp: close_session_def Let_def)
qed

text \<open>A session leaves the slots of connections alone.\<close>

definition conns_kept :: "'u server \<Rightarrow> usize \<Rightarrow> usize \<Rightarrow> 'u session \<Rightarrow> 'u srv \<Rightarrow> bool" where
  "conns_kept sv base k se s \<longleftrightarrow> (mcp_from_handlers sv \<longrightarrow> slots_inv base se s \<and> connections (srv_limits s) = k)"

lemma conns_kept_inbound:
  assumes "conns_kept sv base k se s" and st: "on_inbound sv now inb se s = (se', s')"
  shows "conns_kept sv base k se' s'"
  unfolding conns_kept_def
proof
  assume mcp: "mcp_from_handlers sv"
  with assms(1) have sl: "slots_inv base se s" and k: "connections (srv_limits s) = k" by (auto simp: conns_kept_def)
  have tasks: "\<forall>t \<in> set (se_tasks se). tk_slot t = ''inflight_requests''" using sl by (simp add: slots_inv_def)
  have "connections (srv_limits s') = connections (srv_limits s)"
    using st tasks
    by (auto simp: on_inbound_def Let_def dest!: connections_message
        dest: connections_close [rotated] split: option.splits result.splits prod.splits dispatch.splits)
  with k on_inbound_slots [OF sl mcp st] show "slots_inv base se' s' \<and> connections (srv_limits s') = k" by simp
qed

interpretation conns: session_invariant sv "conns_kept sv base k" for sv base k
proof (unfold_locales, goal_cases)
  case (4 se s se' s')
  then show ?case
    using slots_inv_close [of base se s se' s'] connections_close [of se s se' s']
    by (auto simp: conns_kept_def slots_inv_def)
next
  case (5 se s i t' s')
  then show ?case
    using poll_slots [of base se s i sv t' s'] task_step_frame [OF 5(3)] by (auto simp: conns_kept_def)
next
  case (6 se s i el ex)
  then have "tk_slot (se_tasks se ! i) = ''inflight_requests''" if "mcp_from_handlers sv"
    using that by (auto simp: conns_kept_def slots_inv_def)
  with 6 show ?case
    using finish_slots [of base se s i sv el ex] by (auto simp: conns_kept_def finish_task_def Let_def)
next
  case (7 se s now inb se' s')
  then show ?case by (rule conns_kept_inbound)
qed (auto simp: conns_kept_def slots_inv_def)

primrec tasks_of :: "'u live_conn \<Rightarrow> 'u task list" where
  "tasks_of Admitted = []"
| "tasks_of (Registered sc) = []"
| "tasks_of (Running sc se) = se_tasks se"

text \<open>The requests in flight, over all connections.\<close>

definition in_flight :: "'u hub \<Rightarrow> 'u task list" where
  "in_flight h = concat (map tasks_of (hub_live h))"

definition hub_limits :: "'u web_server \<Rightarrow> 'u hub \<Rightarrow> bool" where
  "hub_limits sv h \<longleftrightarrow>
     (\<forall>t \<in> set (in_flight h). tk_slot t = ''inflight_requests'') \<and>
     inflight (srv_limits (hub_srv h)) = word_of_nat (length (in_flight h)) \<and>
     connections (srv_limits (hub_srv h)) = word_of_nat (length (hub_live h)) \<and>
     (\<forall>c. max_inflight_requests (server_config sv) = Some c \<and> c < - 1 \<longrightarrow> length (in_flight h) \<le> unat c) \<and>
     (\<forall>c. max_connections (server_config sv) = Some c \<and> c < - 1 \<longrightarrow> length (hub_live h) \<le> unat c)"

text \<open>Steps that leave the limits and the tasks as they are.\<close>

lemma hub_limits_frame:
  assumes "hub_limits sv h" and "srv_limits (hub_srv h') = srv_limits (hub_srv h)"
    and "map tasks_of (hub_live h') = map tasks_of (hub_live h)"
  shows "hub_limits sv h'"
  using assms map_eq_imp_length_eq [OF assms(3)] by (simp add: hub_limits_def in_flight_def)

lemma map_tasks_update:
  "i < length xs \<Longrightarrow> tasks_of y = tasks_of (xs ! i) \<Longrightarrow> map tasks_of (xs[i := y]) = map tasks_of xs"
  by (simp add: map_update list_update_same_conv)

lemma hub_limits_accept: "hub_limits sv h \<Longrightarrow> hub_limits sv (hub_accept sv h)"
proof -
  assume inv: "hub_limits sv h"
  obtain l ok e where a: "acquire (srv_limits (hub_srv h)) (server_config sv) ''connections'' = (l, ok, e)"
    by (metis prod_cases3)
  have same: "inflight l = inflight (srv_limits (hub_srv h))"
    using a by (auto simp: acquire_def split: prod.splits)
  have room: "Suc (length (hub_live h)) \<le> unat c"
    if ok "max_connections (server_config sv) = Some c" "c < - 1" for c
  proof (rule word_of_nat_within)
    show "length (hub_live h) \<le> unat c" using inv that(2,3) by (simp add: hub_limits_def)
    show "(word_of_nat (length (hub_live h)) :: usize) + 1 \<le> c"
      using acquire_connections [OF a] inv that(1,2) by (auto simp: hub_limits_def over_cap_def not_less)
  qed (rule that(3))
  show ?thesis
    using inv a same room acquire_connections [OF a]
    by (cases ok) (auto simp: hub_limits_def hub_accept_def in_flight_def Let_def add.commute)
qed

lemma hub_limits_end:
  assumes inv: "hub_limits sv h" and i: "i < length (hub_live h)" and none: "tasks_of (hub_live h ! i) = []"
  shows "hub_limits sv (end_conn i h)"
proof -
  obtain pre post where live: "hub_live h = pre @ hub_live h ! i # post" "remove_nth i (hub_live h) = pre @ post"
    using live_split [OF i] by metis
  have n: "length (hub_live h) = Suc (length (remove_nth i (hub_live h)))"
    using length_remove_nth [OF i] .
  have "concat (map tasks_of (remove_nth i (hub_live h))) = in_flight h"
    unfolding in_flight_def live(2) by (subst live(1)) (simp add: none)
  then show ?thesis
    using inv n by (auto simp: hub_limits_def end_conn_def in_flight_def srv_release_def slot_drop_def)
qed

text \<open>A session's events, seen from all the others: \<open>b\<close> is what they have in flight.\<close>

lemma hub_limits_session:
  assumes inv: "hub_limits sv h" and mcp: "mcp_from_handlers (server.truncate sv)"
    and i: "i < length (hub_live h)" and run: "hub_live h ! i = Running sc se"
    and kept: "\<And>I. session_invariant (server.truncate sv) I \<Longrightarrow> I se (hub_srv h) \<Longrightarrow> I se' s'"
  shows "hub_limits sv (h\<lparr>hub_srv := s', hub_live := (hub_live h)[i := Running sc se']\<rparr>)"
proof -
  obtain pre post where live: "hub_live h = pre @ Running sc se # post"
      "(hub_live h)[i := Running sc se'] = pre @ Running sc se' # post"
    using live_split [OF i] run by metis
  let ?h = "h\<lparr>hub_srv := s', hub_live := (hub_live h)[i := Running sc se']\<rparr>" and ?sv = "server.truncate sv"
  define b where "b = length (concat (map tasks_of (pre @ post)))"
  have n: "length (in_flight h) = b + length (se_tasks se)" "length (in_flight ?h) = b + length (se_tasks se')"
    by (simp_all add: b_def in_flight_def live(2)) (simp add: live(1))
  have slots: "slots_inv (word_of_nat b) se (hub_srv h)"
    using inv n(1) by (auto simp: hub_limits_def slots_inv_def in_flight_def live(1))
  have "conns_kept ?sv (word_of_nat b) (connections (srv_limits (hub_srv h))) se' s'"
    by (rule kept [OF conns.session_invariant_axioms]) (simp add: conns_kept_def slots)
  then have k: "slots_inv (word_of_nat b) se' s'" "connections (srv_limits s') = connections (srv_limits (hub_srv h))"
    using mcp by (auto simp: conns_kept_def)
  have "within_cap ?sv b c se' s'" for c
    by (rule kept [OF cap.session_invariant_axioms])
      (use inv slots n(1) in \<open>auto simp: within_cap_def hub_limits_def server.defs\<close>)
  then have "b + length (se_tasks se') \<le> unat c" if "max_inflight_requests (server_config sv) = Some c" "c < - 1" for c
    using that mcp by (auto simp: within_cap_def server.defs)
  moreover have "\<forall>t \<in> set (in_flight ?h). tk_slot t = ''inflight_requests''"
    using inv k(1) by (auto simp: hub_limits_def slots_inv_def in_flight_def live(2)) (auto simp: live(1))
  ultimately show ?thesis
    using inv k n(2) by (simp add: hub_limits_def slots_inv_def)
qed

text \<open>A session that has ended has no tasks left, so that its connection can be taken off the list.\<close>

primrec conn_idle :: "'u live_conn \<Rightarrow> bool" where
  "conn_idle Admitted = True"
| "conn_idle (Registered sc) = True"
| "conn_idle (Running sc se) = (se_pc se = Ended \<longrightarrow> se_tasks se = [])"

lemma all_update: "\<forall>x \<in> set xs. P x \<Longrightarrow> P y \<Longrightarrow> \<forall>x \<in> set (xs[i := y]). P x"
  using set_update_subset_insert [of xs i y] by auto

lemma all_remove: "\<forall>x \<in> set xs. P x \<Longrightarrow> \<forall>x \<in> set (remove_nth i xs). P x"
  using set_remove_nth [of i xs] by auto

lemma session_for_tasks [simp]: "se_tasks (session_for cr now w) = []"
  by (simp add: session_for_def session_new_def bind_end_def Let_def split: option.split)

lemma auth_refused_limits [simp]: "srv_limits (auth_refused sv cr err s) = srv_limits s"
  by (simp add: auth_refused_def Let_def)

lemma hub_idle_step:
  "hub_step sv h h' \<Longrightarrow> \<forall>x \<in> set (hub_live h). conn_idle x \<Longrightarrow> \<forall>x \<in> set (hub_live h'). conn_idle x"
proof (induction rule: hub_step.induct)
  case (Session i h ev)
  show ?case
  proof (cases "hub_live h ! i")
    case (Running sc se)
    obtain se' s' where st: "session_step (server.truncate sv) ev (se, hub_srv h) = (se', s')" by force
    have "Running sc se \<in> set (hub_live h)" using Running Session.hyps(1) nth_mem by metis
    then have "ended_idle se (hub_srv h)" using Session.prems by (auto simp: ended_idle_def)
    from ended.keep_step [OF this st] have "conn_idle (Running sc se')" by (simp add: ended_idle_def)
    from all_update [OF Session.prems this, of i] show ?thesis
      using st by (simp add: hub_session_def Running)
  qed (use Session.prems in \<open>simp_all add: hub_session_def\<close>)
next
  case (Auth i h late now)
  have "conn_idle (Running sc (session_for cr now w))" for sc cr w by simp
  from all_update [OF Auth.prems this] Auth.prems show ?case
    by (simp add: hub_auth_def Let_def split: live_conn.split prod.split)
next
  case (Connect i h cells peer protocol now)
  have "conn_idle (Registered sc)" for sc by simp
  from all_update [OF Connect.prems this] all_remove [OF Connect.prems] show ?case
    by (simp add: hub_connect_def end_conn_def Let_def split: prod.split result.split)
next
  case (Leave i h ok)
  then show ?case
    using all_remove [OF Leave.prems] by (simp add: hub_leave_def end_conn_def Let_def split: live_conn.split)
qed (auto simp: hub_accept_def hub_app_def Let_def split: prod.splits)

lemma register_limits [simp]: "srv_limits (register_connection sv cr peer ext s) = srv_limits s"
  by (simp add: register_connection_def Let_def)

lemma hub_limits_srv: "hub_limits sv h \<Longrightarrow> srv_limits s = srv_limits (hub_srv h) \<Longrightarrow> hub_limits sv (h\<lparr>hub_srv := s\<rparr>)"
  by (rule hub_limits_frame) simp_all

lemma end_conn_update: "end_conn i (h\<lparr>hub_live := (hub_live h)[i := y], hub_srv := s\<rparr>) = end_conn i (h\<lparr>hub_srv := s\<rparr>)"
  by (simp add: end_conn_def remove_nth_update)

lemma hub_limits_leave:
  assumes inv: "hub_limits sv h" and idle: "\<forall>x \<in> set (hub_live h). conn_idle x"
    and mcp: "mcp_from_handlers (server.truncate sv)" and i: "i < length (hub_live h)"
  shows "hub_limits sv (hub_leave sv i ok h)"
proof (cases "hub_live h ! i")
  case (Running sc se)
  obtain se1 s1 where c: "(if se_pc se = Ended then (se, hub_srv h) else close_session se (hub_srv h)) = (se1, s1)"
    by force
  have none: "se_tasks se1 = []"
    using c close_session_tasks [of se "hub_srv h" se1 s1] idle nth_mem [OF i]
    by (auto simp: Running split: if_splits)
  let ?h = "h\<lparr>hub_srv := s1, hub_live := (hub_live h)[i := Running sc se1]\<rparr>"
  let ?s = "cleanup_dispatch sv (cr_id (sc_refs sc)) (sc_peer sc) ok s1"
  have "hub_limits sv ?h"
    by (rule hub_limits_session [OF inv mcp i Running])
      (use c in \<open>auto intro: session_invariant.keep_close split: if_splits\<close>)
  then have "hub_limits sv (?h\<lparr>hub_srv := ?s\<rparr>)"
    by (rule hub_limits_srv) (simp add: cleanup_simps)
  from hub_limits_end [OF this, of i] have "hub_limits sv (end_conn i (h\<lparr>hub_srv := ?s\<rparr>))"
    using i none by (simp add: end_conn_update)
  moreover have "snd (if se_pc se = Ended then (se, hub_srv h) else close_session se (hub_srv h)) = s1"
    using c by simp
  ultimately show ?thesis
    by (auto simp: hub_leave_def Running Let_def split: if_splits)
next
  case (Registered sc)
  let ?q = "cr_queue (sc_refs sc)"
  let ?s = "cleanup_dispatch sv (cr_id (sc_refs sc)) (sc_peer sc) ok
    (set_chan ?q (receiver_drop (chans (srv_world (hub_srv h)) ?q)) (hub_srv h))"
  have "hub_limits sv (h\<lparr>hub_srv := ?s\<rparr>)"
    by (rule hub_limits_srv [OF inv]) (simp add: cleanup_simps)
  from hub_limits_end [OF this, of i] i Registered show ?thesis
    by (simp add: hub_leave_def Let_def)
qed (use hub_limits_end [OF inv i] in \<open>simp add: hub_leave_def\<close>)

lemma hub_limits_step:
  assumes "hub_step sv h h'" and inv: "hub_limits sv h" and idle: "\<forall>x \<in> set (hub_live h). conn_idle x"
    and mcp: "mcp_from_handlers (server.truncate sv)"
  shows "hub_limits sv h'"
  using assms(1)
proof cases
  case Accept
  with hub_limits_accept [OF inv] show ?thesis by simp
next
  case (Connect i cells peer protocol now)
  obtain s ext r where oc: "on_site (run_on_connect (server_hooks sv) peer ext_new) (hub_srv h) = (s, ext, r)"
    by (metis prod_cases3)
  note limits = on_site_frame [OF oc]
  show ?thesis
  proof (cases r)
    case (Err e)
    with Connect oc limits hub_limits_end [OF hub_limits_srv [OF inv, of s], of i] show ?thesis
      by (simp add: hub_connect_def)
  next
    case (Ok u)
    with Connect oc limits show ?thesis
      by (intro hub_limits_frame [OF inv])
        (auto simp: hub_connect_def map_tasks_update Let_def split: prod.split)
  qed
next
  case (Auth i late now)
  have "srv_limits (case r of Ok _ \<Rightarrow> s | Err e \<Rightarrow> auth_refused sv cr e s) = srv_limits s" for r :: "(unit, string) result" and cr s
    by (simp split: result.split)
  with Auth show ?thesis
    by (intro hub_limits_frame [OF inv])
      (auto simp: hub_auth_def map_tasks_update Let_def dest: authenticate_frame split: live_conn.split prod.split)
next
  case (Session i ev)
  show ?thesis
  proof (cases "hub_live h ! i")
    case (Running sc se)
    obtain se' s' where st: "session_step (server.truncate sv) ev (se, hub_srv h) = (se', s')" by force
    from hub_limits_session [OF inv mcp Session(2) Running, of se' s'] st Session(1) show ?thesis
      by (auto simp: hub_session_def Running intro: session_invariant.keep_step)
  qed (use inv Session(1) in \<open>simp_all add: hub_session_def\<close>)
next
  case (Leave i ok)
  with hub_limits_leave [OF inv idle mcp] show ?thesis by simp
next
  case (App f u)
  with hub_limits_frame [OF inv] show ?thesis by (simp add: hub_app_def)
qed

text \<open>
  C6. The limits hold over the whole server, however its connections interleave. At every moment the
  in-flight counter is the number of requests that all sessions together have in flight, and the
  connection counter is the number of connections that are served; the requests never exceed the cap
  on requests, nor the connections theirs, whatever the peers send; and when the last connection has
  gone both counters are zero.
\<close>
theorem server_wide_limits:
  assumes "(hub_step sv)\<^sup>*\<^sup>* (hub_new s) h" and "mcp_from_handlers (server.truncate sv)"
    and "srv_limits s = default_limit_state"
  shows "inflight (srv_limits (hub_srv h)) = word_of_nat (length (in_flight h)) \<and>
    connections (srv_limits (hub_srv h)) = word_of_nat (length (hub_live h)) \<and>
    (\<forall>c. max_inflight_requests (server_config sv) = Some c \<and> c < - 1 \<longrightarrow> length (in_flight h) \<le> unat c) \<and>
    (\<forall>c. max_connections (server_config sv) = Some c \<and> c < - 1 \<longrightarrow> length (hub_live h) \<le> unat c) \<and>
    (hub_live h = [] \<longrightarrow> inflight (srv_limits (hub_srv h)) = 0 \<and> connections (srv_limits (hub_srv h)) = 0)"
proof -
  have "hub_limits sv h \<and> (\<forall>x \<in> set (hub_live h). conn_idle x)"
    using assms(1)
  proof (induction rule: rtranclp_induct)
    case base
    show ?case using assms(3) by (simp add: hub_limits_def hub_new_def in_flight_def default_limit_state_def)
  next
    case (step h h')
    with hub_limits_step [OF step.hyps(2) _ _ assms(2)] hub_idle_step [OF step.hyps(2)] show ?case by blast
  qed
  then show ?thesis by (auto simp: hub_limits_def in_flight_def)
qed

theorem server_wide_limits_witness:
  "\<exists>h. (hub_step echo_web)\<^sup>*\<^sup>* (hub_new sample_srv) h \<and> hub_live h = [Admitted] \<and> connections (srv_limits (hub_srv h)) = 1"
proof -
  let ?h = "hub_accept echo_web (hub_new sample_srv)"
  have reach: "(hub_step echo_web)\<^sup>*\<^sup>* (hub_new sample_srv) ?h"
    by (rule r_into_rtranclp) (rule Accept)
  have live: "hub_live ?h = [Admitted]"
    by (simp add: hub_accept_def hub_new_def sample_srv_def echo_web_def echo_server_def server.defs default_config_def
        default_limit_state_def acquire_def acquire_counter_def over_cap_def warn_check_def default_max_connections_def Let_def)
  have "srv_limits sample_srv = default_limit_state" by (simp add: sample_srv_def)
  from server_wide_limits [OF reach _ this] have "connections (srv_limits (hub_srv ?h)) = 1"
    by (simp add: echo_web_truncate echo_server_mcp live)
  with reach live show ?thesis by blast
qed

end
