(* ===== verification/Hub_Table.thy ===== *)
theory Hub_Table
  imports Hub
begin

text \<open>
  The table of connections that all futures of a server share. A connection is entered under the number
  \<open>get_conn_id\<close> gives it and taken out by its cleanup; in between the toolbox finds its queue and its end
  flag there. Here: nothing else touches the table, and as long as numbers do not come round again while their
  owner is served, every entry is its owner's.
\<close>

section \<open>Who may touch the table\<close>

text \<open>
  The table of connections belongs to the crate: hooks, handlers and the controller have the toolbox, not the
  table. So they leave it as it is.
\<close>

definition answers_off_table :: "('u site \<Rightarrow> 'u site \<times> 'r) \<Rightarrow> bool" where
  "answers_off_table f \<longleftrightarrow> (\<forall>a. states (fst (fst (f a))) = states (fst a))"

definition acts_off_table :: "('u site \<Rightarrow> 'u site) \<Rightarrow> bool" where
  "acts_off_table f \<longleftrightarrow> (\<forall>a. states (fst (f a)) = states (fst a))"

primrec handler_off_table :: "'u request_handler_erased \<Rightarrow> bool" where
  "handler_off_table (Typed h) = (\<forall>ctx d. answers_off_table (rh_handle h ctx d))"
| "handler_off_table (Manual f) = (\<forall>ctx p. acts_off_table (f ctx p))"

definition off_table :: "'u web_server \<Rightarrow> bool" where
  "off_table sv \<longleftrightarrow>
     (\<forall>h \<in> set (hk_before (server_hooks sv)). \<forall>ctx sc p. answers_off_table (h ctx sc p)) \<and>
     (\<forall>h \<in> set (hk_after (server_hooks sv)). \<forall>ctx sc r. acts_off_table (h ctx sc r)) \<and>
     (\<forall>h \<in> set (hk_on_connect (server_hooks sv)). \<forall>peer ext. answers_off_table (h peer ext)) \<and>
     (\<forall>h \<in> set (hk_on_disconnect (server_hooks sv)). \<forall>c peer. acts_off_table (h c peer)) \<and>
     (\<forall>r. handler_off_table (server_impl sv r)) \<and>
     (\<forall>tb hd k. answers_off_table (server_auth sv tb hd k))"

lemma on_site_table: "answers_off_table f \<Longrightarrow> on_site f s = (s', r) \<Longrightarrow> states (srv_world s') = states (srv_world s)"
  by (auto simp: on_site_def answers_off_table_def split: prod.splits) (metis fst_conv)

lemma at_site_table: "acts_off_table f \<Longrightarrow> states (srv_world (at_site f s)) = states (srv_world s)"
  by (auto simp: at_site_def acts_off_table_def split: prod.splits) (metis fst_conv)

lemma send_table [simp]: "states (fst (send ser tb c r w)) = states w" "states (fst (send_raw tb c x w)) = states w"
  by (auto simp: send_def send_fn_def send_raw_def send_raw_fn_def enqueue_effect split: option.split)

lemma reply_table [simp]:
  "states (srv_world (reply_send sd tb c r s)) = states (srv_world s)"
  "states (srv_world (reply_send_raw sd tb c j s)) = states (srv_world s)"
  "states (srv_world (srv_send_raw sv c j s)) = states (srv_world s)"
  by (simp_all add: reply_send_def reply_send_raw_def srv_send_raw_def)

lemma handle_table:
  assumes "handler_off_table h"
  shows "states (srv_world (handle sd tb h ctx req s)) = states (srv_world s)"
    "states (srv_world (handle_mcp sd tb h ctx i req s)) = states (srv_world s)"
  using assms
  by (cases h; auto simp: handle_def handle_typed_def handle_mcp_def handle_mcp_typed_def handle_mcp_default_def
      at_site_table dest: on_site_table split: result.split option.split prod.split)+

lemma run_on_connect_table:
  assumes "\<forall>h \<in> set hs. \<forall>peer ext. answers_off_table (h peer ext)"
  shows "answers_off_table (run_on_connect_list hs peer ext)"
  using assms
proof (induction hs arbitrary: ext)
  case (Cons h hs)
  have "states (fst (fst (run_on_connect_list (h # hs) peer ext a))) = states (fst a)" for a
  proof -
    obtain a1 ext1 r where h: "h peer ext a = (a1, ext1, r)" by (metis prod_cases3)
    with Cons.prems have "states (fst a1) = states (fst a)"
      by (metis answers_off_table_def fst_conv list.set_intros(1))
    with h Cons.IH [of ext1] Cons.prems show ?thesis
      by (cases r) (auto simp: answers_off_table_def simp del: split_paired_All)
  qed
  then show ?case by (simp only: answers_off_table_def) simp
qed (simp add: answers_off_table_def)

lemma run_on_disconnect_table:
  assumes "\<forall>h \<in> set hs. \<forall>c peer. acts_off_table (h c peer)"
  shows "acts_off_table (fold (\<lambda>h. h c peer) hs)"
  using assms
proof (induction hs)
  case (Cons h hs)
  then show ?case by (simp add: acts_off_table_def del: split_paired_All)
qed (simp add: acts_off_table_def)

lemma truncate_simps [simp]:
  "server_hooks (server.truncate sv) = server_hooks sv" "server_impl (server.truncate sv) = server_impl sv"
  "server_config (server.truncate sv) = server_config sv"
  by (simp_all add: server.defs)

lemma reject_table [simp]: "states (srv_world (reject sv t ctx e s)) = states (srv_world s)"
  by (simp add: reject_def srv_send_def split: envelope.split)

lemma task_step_table:
  assumes off: "off_table sv" and h: "handler_off_table (tk_handler t)"
    and st: "task_step (server.truncate sv) t s = (t', s')"
  shows "states (srv_world s') = states (srv_world s) \<and> tk_handler t' = tk_handler t"
proof (cases "tk_phase t")
  case (InBefore k)
  show ?thesis
  proof (cases "k < length (hk_before (server_hooks sv))")
    case True
    let ?f = "(hk_before (server_hooks sv) ! k) (tk_context t) (tk_schema t) (tk_params t)"
    obtain s1 ctx r where r: "on_site ?f s = (s1, ctx, r)" by (metis prod_cases3)
    have "answers_off_table ?f" using off nth_mem [OF True] unfolding off_table_def by blast
    from on_site_table [OF this r] st InBefore True r show ?thesis
      by (cases r) (auto simp: task_step_def)
  next
    case False
    with st InBefore h show ?thesis
      by (auto simp: task_step_def run_task_handler_def handle_table split: envelope.split)
  qed
next
  case (InAfter k r)
  have "acts_off_table ((hk_after (server_hooks sv) ! k) (tk_context t) (tk_schema t) r)"
    if "k < length (hk_after (server_hooks sv))"
    using off nth_mem [OF that] unfolding off_table_def by blast
  with st InAfter show ?thesis
    by (auto simp: task_step_def at_site_table split: if_splits)
qed (use st in \<open>auto simp: task_step_def\<close>)

lemma finish_table [simp]: "states (srv_world (finish_task sv el ex t s)) = states (srv_world s)"
proof -
  have "states (srv_world (srv_observe_time sv el s)) = states (srv_world s)"
    by (simp add: srv_observe_time_def split: prod.split)
  then show ?thesis
    by (simp add: finish_task_def timeout_reply_def srv_release_def srv_send_def Let_def split: envelope.split option.split)
qed

lemma release_world [simp]: "srv_world (srv_release sl s) = srv_world s"
  by (simp add: srv_release_def)

lemma release_all_world [simp]: "srv_world (fold (\<lambda>t. srv_release (tk_slot t)) ts s) = srv_world s"
  by (induction ts arbitrary: s) simp_all

lemma close_table: "close_session se s = (se', s') \<Longrightarrow> states (srv_world s') = states (srv_world s)"
  by (auto simp: close_session_def Let_def)

lemma set_chan_table [simp]: "states (srv_world (set_chan q c s)) = states (srv_world s)"
  by (simp add: set_chan_def)

lemma observe_message_world [simp]: "srv_world (srv_observe_message sv b s) = srv_world s"
  by (simp add: srv_observe_message_def split: prod.split)

lemma acquire_world: "srv_acquire sv s = (s', sl) \<Longrightarrow> srv_world s' = srv_world s"
  by (auto simp: srv_acquire_def split: prod.splits)

lemma mcp_frame_table:
  "handle_mcp_frame sv conn mcp frame ctx s = (s', r) \<Longrightarrow>
     states (srv_world s') = states (srv_world s) \<and> (\<forall>t. r = Some t \<longrightarrow> (\<exists>k. tk_handler t = server_impl sv k))"
  by (auto simp: handle_mcp_frame_def task_new_def Let_def dest: acquire_world
      split: result.splits if_splits mcp_action.splits option.splits prod.splits)

lemma parsed_table:
  "handle_parsed sv conn ctx obj s = (s', r) \<Longrightarrow>
     states (srv_world s') = states (srv_world s) \<and> (\<forall>t. r = DTask t \<longrightarrow> (\<exists>k. tk_handler t = server_impl sv k))"
  by (auto simp: handle_parsed_def handle_request_def refuse_request_def task_new_def srv_send_def Let_def
      dest: acquire_world split: result.splits if_splits option.splits prod.splits)

lemma message_table:
  assumes "handle_message sv conn msg s = (s', d)"
  shows "states (srv_world s') = states (srv_world s) \<and> (\<forall>t. d = DTask t \<longrightarrow> (\<exists>k. tk_handler t = server_impl sv k))"
  using assms
  by (auto simp: handle_message_def Let_def dest!: mcp_frame_table parsed_table
      split: option.splits if_splits prod.splits wire_message.splits)

text \<open>A session leaves the table alone, and keeps to its queue and its flag.\<close>

definition tabled :: "(connection_id \<Rightarrow> stream_state option) \<Rightarrow> nat \<Rightarrow> nat \<Rightarrow> 'u session \<Rightarrow> 'u srv \<Rightarrow> bool" where
  "tabled T q e se s \<longleftrightarrow>
     states (srv_world s) = T \<and> (\<forall>t \<in> set (se_tasks se). handler_off_table (tk_handler t)) \<and> se_rx se = q \<and> se_end se = e"

lemma tabled_close: "tabled T q e se s \<Longrightarrow> close_session se s = (se', s') \<Longrightarrow> tabled T q e se' s'"
  using close_table [of se s se' s'] by (auto simp: tabled_def close_session_def)

lemma tabled_frame [simp]:
  "tabled T q e (se\<lparr>se_pc := p\<rparr>) s = tabled T q e se s"
  "tabled T q e (se\<lparr>se_wire := m\<rparr>) s = tabled T q e se s"
  "tabled T q e (se\<lparr>se_last_received := n\<rparr>) s = tabled T q e se s"
  "tabled T q e se (set_chan k c s) = tabled T q e se s"
  by (simp_all add: tabled_def)

lemma tabled_push: "tabled T q e se s \<Longrightarrow> push_frame sv ti msg pc se s = (se', s') \<Longrightarrow> tabled T q e se' s'"
  by (erule push_frameE) (auto dest: tabled_close [rotated])

lemma tabled_inbound:
  assumes inv: "tabled T q e se s" and off: "off_table sv"
    and st: "on_inbound (server.truncate sv) now inb se s = (se', s')"
  shows "tabled T q e se' s'"
proof (cases "\<exists>msg. inb = Some (Ok msg)")
  case False
  then have "close_session se s = (se', s')"
    using st by (auto simp: on_inbound_def split: option.splits result.splits)
  then show ?thesis by (rule tabled_close [OF inv])
next
  case True
  then obtain msg where msg: "inb = Some (Ok msg)" by blast
  obtain s1 d where hm: "handle_message (server.truncate sv) (conns (srv_world s) (se_conn se)) msg s = (s1, d)" by force
  have "handler_off_table (tk_handler t)" if "d = DTask t" for t
    using message_table [OF hm] that off by (auto simp: off_table_def)
  moreover have "tabled T q e se s1" using inv message_table [OF hm] by (simp add: tabled_def)
  ultimately show ?thesis
    using st msg hm tabled_close [of T q e "se\<lparr>se_last_received := now\<rparr>" s1 se' s']
    by (cases d) (auto simp: on_inbound_def tabled_def)
qed

lemma tabled_loop:
  assumes inv: "tabled T q e se s" and off: "off_table sv"
    and st: "loop_step (server.truncate sv) ti se s = (se', s')"
  shows "tabled T q e se' s'"
proof (cases "se_pc se")
  case Drain
  obtain c r where r: "try_recv (chans (srv_world s) (se_rx se)) = (c, r)" by force
  have "tabled T q e se (set_chan (se_rx se) c s)" using inv by simp
  note kept = tabled_close [OF this] tabled_push [OF this]
  show ?thesis
  proof (cases r)
    case (Ok msg)
    with Drain r st kept show ?thesis
      by (cases "idle_expired (server.truncate sv) (ti_now ti) se") (auto simp: loop_step_def Let_def)
  qed (use Drain r st inv in \<open>auto simp: loop_step_def\<close>)
next
  case Select
  with st have "select_step (server.truncate sv) ti se s = (se', s')" by (simp add: loop_step_def)
  then show ?thesis
  proof (cases rule: select_stepE)
    case (handler i el ex)
    with inv set_remove_nth [of i "se_tasks se"] show ?thesis by (auto simp: tabled_def)
  qed (use inv off in \<open>auto dest: tabled_close [rotated] tabled_push [rotated] tabled_inbound [rotated -1]\<close>)
qed (use inv st in \<open>auto simp: loop_step_def split: if_splits dest: tabled_close [rotated]\<close>)

lemma tabled_step:
  assumes inv: "tabled T q e se s" and off: "off_table sv" and own: "own_event ev"
    and st: "session_step (server.truncate sv) ev (se, s) = (se', s')"
  shows "tabled T q e se' s'"
proof (cases ev)
  case (Tick ti)
  with st tabled_loop [OF inv off] show ?thesis by (simp add: session_step_def)
next
  case (PollTask i)
  obtain t s1 where t: "task_step (server.truncate sv) (se_tasks se ! i) s = (t, s1)" by force
  show ?thesis
  proof (cases "se_pc se = Select \<and> i < length (se_tasks se)")
    case True
    then have h: "handler_off_table (tk_handler (se_tasks se ! i))" using inv nth_mem by (auto simp: tabled_def)
    with all_update [of "se_tasks se" "\<lambda>t. handler_off_table (tk_handler t)" t i] PollTask True st t inv
      task_step_table [OF off h t] show ?thesis
      by (auto simp: session_step_def tabled_def)
  qed (use PollTask st inv in \<open>auto simp: session_step_def\<close>)
next
  case (IdleTimer now)
  with st inv show ?thesis by (auto simp: session_step_def split: if_splits dest: tabled_close [rotated])
qed (use own in simp)

section \<open>The table of connections\<close>

definition entry_of :: "served \<Rightarrow> stream_state" where
  "entry_of sc =
     \<lparr>ss_conn = cr_conn (sc_refs sc), ss_message_queue = cr_queue (sc_refs sc), ss_end = cr_end (sc_refs sc)\<rparr>"

text \<open>No connection is still served when \<open>2 ^ 32\<close> numbers have been given out after its own.\<close>

definition young :: "'u hub \<Rightarrow> bool" where
  "young h \<longleftrightarrow> (\<forall>sc \<in> set (served_conns h). hub_drawn h \<le> sc_number sc + 2 ^ 32)"

text \<open>The numbers, from the clock at the first call on.\<close>

definition numbered :: "u32 \<Rightarrow> 'u hub \<Rightarrow> bool" where
  "numbered base h \<longleftrightarrow>
     hub_next h = (if hub_drawn h = 0 then None else Some (base + word_of_nat (hub_drawn h))) \<and>
     (\<forall>sc \<in> set (served_conns h).
        cr_id (sc_refs sc) = base + word_of_nat (sc_number sc) \<and> sc_number sc < hub_drawn h) \<and>
     distinct (map sc_number (served_conns h))"

definition lists_table :: "'u hub \<Rightarrow> bool" where
  "lists_table h \<longleftrightarrow>
     (\<forall>c st. states (srv_world (hub_srv h)) c = Some st \<longleftrightarrow>
       (\<exists>sc \<in> set (served_conns h). cr_id (sc_refs sc) = c \<and> st = entry_of sc))"

primrec conn_bound :: "'u live_conn \<Rightarrow> bool" where
  "conn_bound Admitted = True"
| "conn_bound (Registered sc) = True"
| "conn_bound (Running sc se) =
     ((\<forall>t \<in> set (se_tasks se). handler_off_table (tk_handler t)) \<and>
      se_rx se = cr_queue (sc_refs sc) \<and> se_end se = cr_end (sc_refs sc))"

definition cells_apart :: "'u hub \<Rightarrow> bool" where
  "cells_apart h \<longleftrightarrow>
     distinct (map (cr_queue \<circ> sc_refs) (served_conns h)) \<and> distinct (map (cr_end \<circ> sc_refs) (served_conns h))"

definition hub_table :: "'u hub \<Rightarrow> bool" where
  "hub_table h \<longleftrightarrow> Ex (\<lambda>base. numbered base h) \<and> lists_table h \<and> cells_apart h \<and> (\<forall>x \<in> set (hub_live h). conn_bound x)"

lemma distinct_map_eq: "distinct (map f xs) \<Longrightarrow> x \<in> set xs \<Longrightarrow> y \<in> set xs \<Longrightarrow> f x = f y \<Longrightarrow> x = y"
  by (auto simp: distinct_map dest: inj_onD)

lemma word_of_nat_close:
  assumes "(word_of_nat m :: u32) = word_of_nat n" and "m < n + 2 ^ 32" and "n < m + 2 ^ 32"
  shows "m = n"
proof -
  have "m mod 2 ^ 32 = n mod 2 ^ 32"
    using arg_cong [OF assms(1), of unat] by (simp add: unsigned_of_nat take_bit_eq_mod)
  then have "2 ^ 32 dvd m - n" "2 ^ 32 dvd n - m"
    by (metis mod_eq_dvd_iff_nat nat_le_linear diff_is_0_eq dvd_0_right)+
  then show ?thesis
    using assms(2,3) nat_dvd_not_less [of "m - n" "2 ^ 32"] nat_dvd_not_less [of "n - m" "2 ^ 32"] by linarith
qed

lemma ids_differ:
  assumes "numbered base h" and "young h" and "sc \<in> set (served_conns h)" and "sc' \<in> set (served_conns h)"
    and "cr_id (sc_refs sc) = cr_id (sc_refs sc')"
  shows "sc = sc'"
proof (rule distinct_map_eq [where f = sc_number])
  show "sc_number sc = sc_number sc'"
    using assms by (intro word_of_nat_close) (fastforce simp: numbered_def young_def)+
qed (use assms in \<open>simp_all add: numbered_def\<close>)

lemma served_split:
  assumes "i < length (hub_live h)"
  obtains A B where "served_conns h = A @ served_of (hub_live h ! i) @ B"
    "\<And>y. concat (map served_of ((hub_live h)[i := y])) = A @ served_of y @ B"
    "concat (map served_of (remove_nth i (hub_live h))) = A @ B"
proof -
  obtain pre post where live: "hub_live h = pre @ hub_live h ! i # post" "\<And>y. (hub_live h)[i := y] = pre @ y # post"
      "remove_nth i (hub_live h) = pre @ post"
    using live_split [OF assms] by metis
  show thesis
  proof (rule that)
    show "served_conns h = concat (map served_of pre) @ served_of (hub_live h ! i) @ concat (map served_of post)"
      unfolding served_conns_def by (subst live(1)) simp
  qed (simp_all add: live(2,3))
qed

lemma hub_table_same:
  assumes "hub_table h" and "served_conns h' = served_conns h"
    and "states (srv_world (hub_srv h')) = states (srv_world (hub_srv h))"
    and "hub_next h' = hub_next h" and "hub_drawn h' = hub_drawn h" and "\<forall>x \<in> set (hub_live h'). conn_bound x"
  shows "hub_table h'"
proof -
  from assms(1) obtain base where "numbered base h" by (auto simp: hub_table_def)
  then have "numbered base h'" using assms(2,4,5) unfolding numbered_def by presburger
  then show ?thesis
    using assms unfolding hub_table_def lists_table_def cells_apart_def by auto
qed

lemma hub_table_removed:
  assumes inv: "hub_table h" and young: "young h" and served: "served_conns h = A @ [sc] @ B" "served_conns h' = A @ B"
    and st: "states (srv_world (hub_srv h')) = (states (srv_world (hub_srv h)))(cr_id (sc_refs sc) := None)"
    and same: "hub_next h' = hub_next h" "hub_drawn h' = hub_drawn h" and bound: "\<forall>x \<in> set (hub_live h'). conn_bound x"
  shows "hub_table h'"
proof -
  from inv obtain base where num: "numbered base h" by (auto simp: hub_table_def)
  have "numbered base h'" using num served same by (auto simp: numbered_def)
  moreover have "cells_apart h'" using inv served by (auto simp: hub_table_def cells_apart_def)
  moreover have "lists_table h'"
    unfolding lists_table_def
  proof (intro allI)
    fix c st'
    have "sc \<notin> set (A @ B)" using num served(1) by (auto simp: numbered_def)
    moreover have "sc' = sc" if "sc' \<in> set (served_conns h)" "cr_id (sc_refs sc') = cr_id (sc_refs sc)" for sc'
      using ids_differ [OF num young that(1) _ that(2)] served(1) by simp
    ultimately show "states (srv_world (hub_srv h')) c = Some st' \<longleftrightarrow>
        (\<exists>sc' \<in> set (served_conns h'). cr_id (sc_refs sc') = c \<and> st' = entry_of sc')"
      using inv served st by (auto simp: hub_table_def lists_table_def)
  qed
  ultimately show ?thesis using bound by (auto simp: hub_table_def)
qed

lemma hub_table_added:
  assumes inv: "hub_table h" and young: "young h'" and served: "served_conns h = A @ B" "served_conns h' = A @ [sc] @ B"
    and st: "states (srv_world (hub_srv h')) = (states (srv_world (hub_srv h)))(cr_id (sc_refs sc) \<mapsto> entry_of sc)"
    and num: "get_conn_id now (hub_next h) = (cr_id (sc_refs sc), hub_next h')" "hub_drawn h' = hub_drawn h + 1"
      "sc_number sc = hub_drawn h"
    and fresh: "fresh_cells (sc_refs sc) h" and bound: "\<forall>x \<in> set (hub_live h'). conn_bound x"
  shows "hub_table h'"
proof -
  from inv obtain base where old: "numbered base h" by (auto simp: hub_table_def)
  let ?base = "if hub_drawn h = 0 then word_of_int now else base"
  have own: "cr_id (sc_refs sc) = ?base + word_of_nat (hub_drawn h)" "hub_next h' = Some (cr_id (sc_refs sc) + 1)"
    using old num(1) by (auto simp: numbered_def get_conn_id_def Let_def)
  have before: "cr_id (sc_refs x) = ?base + word_of_nat (sc_number x) \<and> sc_number x < hub_drawn h" if "x \<in> set (A @ B)" for x
    using old served(1) that by (auto simp: numbered_def)
  have "distinct (map sc_number (A @ [sc] @ B))"
    using old served(1) before num(3) by (force simp: numbered_def)
  then have new: "numbered ?base h'"
    using own before num(2,3) served(2) by (fastforce simp: numbered_def add_ac)
  moreover have "cells_apart h'"
    using inv served fresh by (auto simp: hub_table_def cells_apart_def fresh_cells_def list_all_iff)
  moreover have "lists_table h'"
    unfolding lists_table_def
  proof (intro allI)
    fix c st'
    have "sc' = sc" if "sc' \<in> set (served_conns h')" "cr_id (sc_refs sc') = cr_id (sc_refs sc)" for sc'
      using ids_differ [OF new young that(1) _ that(2)] served(2) by simp
    then show "states (srv_world (hub_srv h')) c = Some st' \<longleftrightarrow>
        (\<exists>sc' \<in> set (served_conns h'). cr_id (sc_refs sc') = c \<and> st' = entry_of sc')"
      using inv served st by (auto simp: hub_table_def lists_table_def)
  qed
  ultimately show ?thesis using bound by (auto simp: hub_table_def)
qed

lemma cleanup_table:
  assumes "off_table sv"
  shows "states (srv_world (cleanup_dispatch sv c peer ok s)) = (states (srv_world s))(c := None)"
proof -
  have "acts_off_table (run_on_disconnect (server_hooks sv) c peer)"
    using assms run_on_disconnect_table [of "hk_on_disconnect (server_hooks sv)" c peer]
    by (simp add: off_table_def run_on_disconnect_def [abs_def])
  then show ?thesis
    by (simp add: cleanup_dispatch_def states_remove_def at_site_table Let_def)
qed

lemma register_table:
  "states (srv_world (register_connection sv cr peer ext s)) =
     (states (srv_world s))(cr_id cr \<mapsto>
       \<lparr>ss_conn = cr_conn cr, ss_message_queue = cr_queue cr, ss_end = cr_end cr\<rparr>)"
  by (simp add: register_connection_def states_insert_def Let_def)

lemma auth_refused_table [simp]: "states (srv_world (auth_refused sv cr err s)) = states (srv_world s)"
  by (simp add: auth_refused_def cancel_end_def Let_def split: option.split)

lemma end_conn_simps [simp]:
  "served_conns (end_conn i h) = concat (map served_of (remove_nth i (hub_live h)))"
  "srv_world (hub_srv (end_conn i h)) = srv_world (hub_srv h)"
  "hub_live (end_conn i h) = remove_nth i (hub_live h)"
  "hub_next (end_conn i h) = hub_next h" "hub_drawn (end_conn i h) = hub_drawn h"
  by (simp_all add: end_conn_def served_conns_def)

lemma table_connect:
  assumes inv: "hub_table h" and off: "off_table sv" and young: "young (hub_connect sv i peer protocol now cells h)"
    and i: "i < length (hub_live h)" "hub_live h ! i = Admitted" and fresh: "fresh_cells cells h"
  shows "hub_table (hub_connect sv i peer protocol now cells h)"
proof -
  let ?h = "hub_connect sv i peer protocol now cells h"
  obtain s ext r where oc: "on_site (run_on_connect (server_hooks sv) peer ext_new) (hub_srv h) = (s, ext, r)"
    by (metis prod_cases3)
  have "answers_off_table (run_on_connect (server_hooks sv) peer ext_new)"
    using off run_on_connect_table [of "hk_on_connect (server_hooks sv)" peer ext_new]
    by (simp add: off_table_def run_on_connect_def)
  from on_site_table [OF this oc] have same: "states (srv_world s) = states (srv_world (hub_srv h))" .
  have bound: "\<forall>x \<in> set (hub_live h). conn_bound x" using inv by (simp add: hub_table_def)
  obtain A B where split: "served_conns h = A @ served_of (hub_live h ! i) @ B"
      "\<And>y. concat (map served_of ((hub_live h)[i := y])) = A @ served_of y @ B"
      "concat (map served_of (remove_nth i (hub_live h))) = A @ B"
    using served_split [OF i(1)] by metis
  show ?thesis
  proof (cases r)
    case (Err e)
    with inv same split i(2) all_remove [OF bound] show ?thesis
      by (intro hub_table_same [OF inv]) (simp_all add: hub_connect_def oc)
  next
    case (Ok u)
    obtain c nxt where c: "get_conn_id now (hub_next h) = (c, nxt)" by force
    let ?sc = "\<lparr>sc_refs = cells\<lparr>cr_id := c\<rparr>, sc_peer = peer, sc_protocol = protocol, sc_number = hub_drawn h\<rparr>"
    have h: "?h = h\<lparr>hub_srv := register_connection sv (cells\<lparr>cr_id := c\<rparr>) peer ext s, hub_next := nxt,
        hub_drawn := hub_drawn h + 1, hub_live := (hub_live h)[i := Registered ?sc]\<rparr>"
      using Ok by (simp add: hub_connect_def oc c Let_def)
    show ?thesis
    proof (rule hub_table_added [OF inv young, of A B ?sc now])
      show "served_conns ?h = A @ [?sc] @ B" using split(2) by (simp add: h served_conns_def)
      show "fresh_cells (sc_refs ?sc) h" using fresh by (simp add: fresh_cells_def)
      show "\<forall>x \<in> set (hub_live ?h). conn_bound x" using all_update [OF bound, of "Registered ?sc" i] by (simp add: h)
    qed (use split(1) i(2) same c in \<open>simp_all add: h register_table entry_of_def\<close>)
  qed
qed

lemma table_leave:
  assumes inv: "hub_table h" and off: "off_table sv" and young: "young h" and i: "i < length (hub_live h)"
  shows "hub_table (hub_leave sv i ok h)"
proof -
  have bound: "\<forall>x \<in> set (hub_live (hub_leave sv i ok h)). conn_bound x"
    using inv all_remove [of "hub_live h" conn_bound i]
    by (simp add: hub_table_def hub_leave_def Let_def split: live_conn.split)
  obtain A B where split: "served_conns h = A @ served_of (hub_live h ! i) @ B"
      "concat (map served_of (remove_nth i (hub_live h))) = A @ B"
    using served_split [OF i] by metis
  show ?thesis
  proof (cases "hub_live h ! i")
    case Admitted
    with split bound show ?thesis by (intro hub_table_same [OF inv]) (simp_all add: hub_leave_def)
  next
    case (Registered sc)
    with split bound show ?thesis
      by (intro hub_table_removed [OF inv young, of A sc B]) (simp_all add: hub_leave_def cleanup_table [OF off] Let_def)
  next
    case (Running sc se)
    have "states (srv_world (snd (close_session se (hub_srv h)))) = states (srv_world (hub_srv h))"
      using close_table by (metis prod.collapse)
    with Running split bound show ?thesis
      by (intro hub_table_removed [OF inv young, of A sc B]) (simp_all add: hub_leave_def cleanup_table [OF off] Let_def)
  qed
qed

lemma session_for_bound:
  "get_state w (cr_id cr) = Some st \<Longrightarrow> ss_end st = cr_end cr \<Longrightarrow>
     se_rx (session_for cr now w) = cr_queue cr \<and> se_end (session_for cr now w) = cr_end cr"
  by (simp add: session_for_def session_new_def bind_end_def Let_def)

lemma table_auth:
  assumes inv: "hub_table h" and off: "off_table sv" and i: "i < length (hub_live h)"
    and part: "\<And>part a. late = Some part \<Longrightarrow> states (fst (part a)) = states (fst a)"
  shows "hub_table (hub_auth sv i late now h)"
proof (cases "hub_live h ! i")
  case (Registered sc)
  let ?cr = "sc_refs sc"
  obtain A B where split: "served_conns h = A @ served_of (hub_live h ! i) @ B"
      "\<And>y. concat (map served_of ((hub_live h)[i := y])) = A @ served_of y @ B"
    using served_split [OF i] by metis
  obtain s r where a: "authenticate sv ?cr (sc_protocol sc) late (hub_srv h) = (s, r)" by force
  define s2 where "s2 = (case r of Ok _ \<Rightarrow> s | Err err \<Rightarrow> auth_refused sv ?cr err s)"
  have "answers_off_table (server_auth sv tb hd k)" for tb hd k using off by (simp add: off_table_def)
  note ctl = on_site_table [OF this]
  have "states (srv_world s) = states (srv_world (hub_srv h))"
    using a part ctl [of _ _ _ "hub_srv h" s r]
    by (cases "handshake_timeout (server_config sv)"; cases late)
      (auto simp: authenticate_def at_site_states simp del: split_paired_All)
  then have same: "states (srv_world s2) = states (srv_world (hub_srv h))"
    by (simp add: s2_def split: result.split)
  have "sc \<in> set (served_conns h)" using split(1) Registered by simp
  then have "get_state (srv_world s2) (cr_id ?cr) = Some (entry_of sc)"
    using inv by (auto simp: hub_table_def lists_table_def get_state_def same)
  then have "conn_bound (Running sc (session_for ?cr now (srv_world s2)))"
    using session_for_bound [of "srv_world s2" ?cr "entry_of sc"] by (simp add: entry_of_def)
  from all_update [of "hub_live h" conn_bound, OF _ this, of i] inv
  have "\<forall>x \<in> set ((hub_live h)[i := Running sc (session_for ?cr now (srv_world s2))]). conn_bound x"
    by (simp add: hub_table_def)
  moreover have "hub_auth sv i late now h =
      h\<lparr>hub_srv := s2, hub_live := (hub_live h)[i := Running sc (session_for ?cr now (srv_world s2))]\<rparr>"
    by (simp add: hub_auth_def Registered a s2_def Let_def)
  ultimately show ?thesis
    using split Registered same by (intro hub_table_same [OF inv]) (simp_all add: served_conns_def)
qed (use inv in \<open>simp_all add: hub_auth_def\<close>)

lemma table_session:
  assumes inv: "hub_table h" and off: "off_table sv" and i: "i < length (hub_live h)" and own: "own_event ev"
  shows "hub_table (hub_session sv i ev h)"
proof (cases "hub_live h ! i")
  case (Running sc se)
  obtain A B where split: "served_conns h = A @ served_of (hub_live h ! i) @ B"
      "\<And>y. concat (map served_of ((hub_live h)[i := y])) = A @ served_of y @ B"
    using served_split [OF i] by metis
  obtain se' s' where st: "session_step (server.truncate sv) ev (se, hub_srv h) = (se', s')" by force
  have "conn_bound (Running sc se)" using inv nth_mem [OF i] by (auto simp: hub_table_def Running)
  then have "tabled (states (srv_world (hub_srv h))) (cr_queue (sc_refs sc)) (cr_end (sc_refs sc)) se (hub_srv h)"
    by (simp add: tabled_def)
  from tabled_step [OF this off own st]
  have kept: "states (srv_world s') = states (srv_world (hub_srv h))" and "conn_bound (Running sc se')"
    by (simp_all add: tabled_def)
  from all_update [of "hub_live h" conn_bound, OF _ this(2), of i] inv
  have "\<forall>x \<in> set ((hub_live h)[i := Running sc se']). conn_bound x" by (simp add: hub_table_def)
  then show ?thesis
    using split Running kept st by (intro hub_table_same [OF inv]) (simp_all add: hub_session_def served_conns_def)
qed (use inv in \<open>simp_all add: hub_session_def\<close>)

lemma hub_table_step:
  assumes "hub_step sv h h'" and inv: "hub_table h" and young: "young h" "young h'" and off: "off_table sv"
  shows "hub_table h'"
  using assms(1)
proof cases
  case Accept
  obtain l ok e where a: "acquire (srv_limits (hub_srv h)) (server_config sv) ''connections'' = (l, ok, e)"
    by (metis prod_cases3)
  have "\<forall>x \<in> set (hub_live h). conn_bound x" using inv by (simp add: hub_table_def)
  with Accept a show ?thesis
    by (intro hub_table_same [OF inv]) (auto simp: hub_accept_def served_conns_def Let_def)
next
  case (App f u)
  with inv show ?thesis
    by (intro hub_table_same [OF inv]) (simp_all add: hub_app_def served_conns_def hub_table_def)
qed (use table_connect [OF inv off] table_auth [OF inv off] table_session [OF inv off] table_leave [OF inv off] young in auto)

lemma hub_reach_table:
  assumes "(\<lambda>h h'. hub_step sv h h' \<and> young h')\<^sup>*\<^sup>* (hub_new s) h" and "off_table sv"
    and "states (srv_world s) = Map.empty"
  shows "hub_table h \<and> young h"
  using assms(1)
proof (induction rule: rtranclp_induct)
  case base
  show ?case using assms(3)
    by (auto simp: hub_table_def numbered_def lists_table_def cells_apart_def young_def hub_new_def served_conns_def)
next
  case (step h h')
  with hub_table_step [OF _ _ _ _ assms(2)] show ?case by blast
qed

lemma hub_table_ids:
  assumes "hub_table h" and "young h"
  shows "distinct (map (cr_id \<circ> sc_refs) (served_conns h))"
proof -
  obtain base where "numbered base h" using assms(1) by (auto simp: hub_table_def)
  with ids_differ [OF this assms(2)] show ?thesis
    by (auto simp: distinct_map numbered_def intro: inj_onI)
qed

lemma hub_table_world_inv:
  assumes "hub_table h"
  shows "world_inv (srv_world (hub_srv h))"
  unfolding world_inv_def
proof (intro allI impI, elim conjE)
  fix c d st st'
  assume "states (srv_world (hub_srv h)) c = Some st" "states (srv_world (hub_srv h)) d = Some st'" "c \<noteq> d"
  then obtain sc sc' where "sc \<in> set (served_conns h)" "st = entry_of sc" "sc' \<in> set (served_conns h)" "st' = entry_of sc'"
      "sc \<noteq> sc'"
    using assms by (auto simp: hub_table_def lists_table_def)
  then show "ss_message_queue st \<noteq> ss_message_queue st' \<and> ss_end st \<noteq> ss_end st'"
    using assms distinct_map_eq [of "cr_queue \<circ> sc_refs" "served_conns h" sc sc']
      distinct_map_eq [of "cr_end \<circ> sc_refs" "served_conns h" sc sc']
    by (auto simp: hub_table_def cells_apart_def entry_of_def)
qed

lemma hub_table_mailbox:
  assumes "hub_table h" and "Running sc se \<in> set (hub_live h)"
  shows "mailbox (cr_id (sc_refs sc)) (srv_world (hub_srv h)) = Some (queue (chans (srv_world (hub_srv h)) (se_rx se)))"
proof -
  have "sc \<in> set (served_conns h)" using assms(2) by (force simp: served_conns_def)
  then have "states (srv_world (hub_srv h)) (cr_id (sc_refs sc)) = Some (entry_of sc)"
    using assms(1) by (auto simp: hub_table_def lists_table_def)
  with assms show ?thesis by (force simp: hub_table_def mailbox_def entry_of_def)
qed

text \<open>
  C12. Connections never meet in the table. As long as no connection is still being served when \<open>2 ^ 32\<close>
  others have been registered after it, the table has at every moment exactly one entry for each
  connection that is being served, under a number no other has; queues and end flags are all
  different; the queue that a session writes out is the mailbox of its own connection; and what is
  sent to one connection changes no other's mailbox. So no connection replaces another's entry, and
  none takes another's entry away when it ends, whatever the interleaving.
\<close>
theorem connections_keep_apart:
  assumes "(\<lambda>h h'. hub_step sv h h' \<and> young h')\<^sup>*\<^sup>* (hub_new s) h" and "off_table sv"
    and "states (srv_world s) = Map.empty"
  shows "let w = srv_world (hub_srv h); served = served_conns h in
    (\<forall>c st. states w c = Some st \<longleftrightarrow> (\<exists>sc \<in> set served. cr_id (sc_refs sc) = c \<and> st = entry_of sc)) \<and>
    distinct (map (cr_id \<circ> sc_refs) served) \<and> world_inv w \<and>
    (\<forall>sc se. Running sc se \<in> set (hub_live h) \<longrightarrow> mailbox (cr_id (sc_refs sc)) w = Some (queue (chans w (se_rx se)))) \<and>
    (\<forall>sc \<in> set served. \<forall>c flags text. c \<noteq> cr_id (sc_refs sc) \<longrightarrow>
       mailbox (cr_id (sc_refs sc)) (fst (send_raw_fn flags c text w)) = mailbox (cr_id (sc_refs sc)) w)"
proof -
  have h: "hub_table h" "young h"
    using hub_reach_table [OF assms] by simp_all
  with hub_table_ids [OF h] hub_table_world_inv [OF h(1)] hub_table_mailbox [OF h(1)]
    raw.deliver_other [OF hub_table_world_inv [OF h(1)]] show ?thesis
    by (auto simp: hub_table_def lists_table_def Let_def)
qed

theorem connections_keep_apart_witness:
  "\<exists>h. (\<lambda>h h'. hub_step echo_web h h' \<and> young h')\<^sup>*\<^sup>* (hub_new sample_srv) h \<and>
     states (srv_world (hub_srv h)) 7 = Some \<lparr>ss_conn = 0, ss_message_queue = 0, ss_end = 0\<rparr> \<and> world_inv (srv_world (hub_srv h))"
proof -
  let ?R = "\<lambda>h h'. hub_step echo_web h h' \<and> young h'"
  let ?h0 = "hub_new sample_srv"
  let ?h1 = "hub_accept echo_web ?h0"
  let ?h2 = "hub_connect echo_web 0 Unknown None 7 sample_refs ?h1"
  have live: "hub_live ?h1 = [Admitted]" "hub_drawn ?h1 = 0" "hub_next ?h1 = None"
    by (simp_all add: hub_accept_def hub_new_def sample_srv_def echo_web_def echo_server_def server.defs default_config_def
        default_limit_state_def acquire_def acquire_counter_def over_cap_def warn_check_def default_max_connections_def Let_def)
  have oc: "on_site (run_on_connect (server_hooks echo_web) Unknown ext_new) (hub_srv ?h1) = (hub_srv ?h1, ext_new, Ok ())"
    by (simp add: echo_web_def echo_server_def server.defs hooks_default_def run_on_connect_def on_site_def)
  let ?sc = "\<lparr>sc_refs = sample_refs\<lparr>cr_id := 7\<rparr>, sc_peer = Unknown, sc_protocol = None, sc_number = 0\<rparr>"
  have h2: "hub_live ?h2 = [Registered ?sc]" "hub_drawn ?h2 = 1"
    using oc live by (simp_all add: hub_connect_def get_conn_id_def Let_def)
  have r1: "?R ?h0 ?h1" using live Accept [of echo_web ?h0] by (simp add: young_def served_conns_def)
  have r2: "?R ?h1 ?h2"
    using live h2 Connect [of 0 ?h1 sample_refs echo_web Unknown None 7]
    by (simp add: young_def served_conns_def fresh_cells_def)
  have reach: "?R\<^sup>*\<^sup>* ?h0 ?h2"
    by (rule rtranclp.rtrancl_into_rtrancl [of ?R, OF r_into_rtranclp [of ?R, OF r1] r2])
  have off: "off_table echo_web"
    by (simp add: off_table_def echo_web_def echo_server_def server.defs hooks_default_def simple_auth_def
        answers_off_table_def echo_handler_def)
  have "states (srv_world sample_srv) = Map.empty" by (simp add: sample_srv_def)
  note apart = connections_keep_apart [OF reach off this, unfolded Let_def]
  have "served_conns ?h2 = [?sc]" by (simp add: served_conns_def h2)
  then have "states (srv_world (hub_srv ?h2)) 7 = Some (entry_of ?sc)"
    using apart by simp
  with apart reach show ?thesis
    by (intro exI [of _ ?h2]) (simp add: entry_of_def sample_refs_def)
qed

text \<open>
  The bound is sharp: the connection registered after exactly \<open>2 ^ 32\<close> others gets the number of the one
  still served, takes over its entry, and loses it when the older one ends.
\<close>

lemma number_returns:
  assumes num: "numbered base h" and old: "sc \<in> set (served_conns h)" "hub_drawn h = sc_number sc + 2 ^ 32"
    and off: "off_table sv"
  shows "get_conn_id now (hub_next h) = (cr_id (sc_refs sc), Some (cr_id (sc_refs sc) + 1)) \<and>
    get_state (srv_world (register_connection sv (cells\<lparr>cr_id := cr_id (sc_refs sc)\<rparr>) peer ext s)) (cr_id (sc_refs sc)) =
      Some \<lparr>ss_conn = cr_conn cells, ss_message_queue = cr_queue cells, ss_end = cr_end cells\<rparr> \<and>
    get_state (srv_world (cleanup_dispatch sv (cr_id (sc_refs sc)) old_peer ok s')) (cr_id (sc_refs sc)) = None"
proof -
  have "(word_of_nat (2 ^ 32) :: u32) = 0"
    by simp
  then have "cr_id (sc_refs sc) = base + word_of_nat (hub_drawn h)"
    using num old by (simp add: numbered_def)
  then show ?thesis
    using num old(2) by (simp add: numbered_def get_conn_id_def get_state_def register_table cleanup_table [OF off])
qed

end
