(* ===== verification/Scheduler.thy ===== *)
theory Scheduler
  imports Prelude
begin

text \<open>
  \<open>src/libs/scheduler.rs\<close>: periodic jobs. The period of a job is a cell it shares with its triggers;
  cells are numbered as they are made. A running job sleeps for the period it read and then starts its
  task, detached, and reads the period again. The sleep of the runtime ends at its deadline or later:
  time moves freely, and a job may run as soon as its deadline has passed. Time is in arbitrary units.
\<close>

section \<open>The code\<close>

record 't adaptive_job =
  aj_duration :: nat
  aj_task :: 't

text \<open>A trigger is the number of the cell it sets.\<close>

record 't scheduler =
  sd_pending_jobs :: "'t adaptive_job list"
  sd_cells :: "nat list"

definition adaptive_job_new :: "nat \<Rightarrow> 't \<Rightarrow> nat list \<Rightarrow> 't adaptive_job \<times> nat list" where
  "adaptive_job_new duration task cells = (\<lparr>aj_duration = length cells, aj_task = task\<rparr>, cells @ [duration])"

definition set_duration :: "nat \<Rightarrow> nat \<Rightarrow> nat list \<Rightarrow> nat list" where
  "set_duration trigger duration cells = cells[trigger := duration]"

definition get_trigger :: "'t adaptive_job \<Rightarrow> nat" where "get_trigger job = aj_duration job"

definition scheduler_new :: "'t scheduler" where
  "scheduler_new = \<lparr>sd_pending_jobs = [], sd_cells = []\<rparr>"

definition add_job :: "nat \<Rightarrow> 't \<Rightarrow> 't scheduler \<Rightarrow> 't scheduler \<times> (unit, unit) result" where
  "add_job duration f sc =
     (case adaptive_job_new duration f (sd_cells sc) of
        (job, cells) \<Rightarrow> (sc\<lparr>sd_pending_jobs := sd_pending_jobs sc @ [job], sd_cells := cells\<rparr>, Ok ()))"

definition add_adaptive_job :: "nat \<Rightarrow> 't \<Rightarrow> 't scheduler \<Rightarrow> 't scheduler \<times> (nat, unit) result" where
  "add_adaptive_job duration f sc =
     (case adaptive_job_new duration f (sd_cells sc) of
        (job, cells) \<Rightarrow>
          (sc\<lparr>sd_pending_jobs := sd_pending_jobs sc @ [job], sd_cells := cells\<rparr>, Ok (get_trigger job)))"

text \<open>
  The running jobs: each has its deadline, once it has begun to sleep. The tasks started so far are
  listed with the time and the number of their job.
\<close>

record 't running_job =
  rj_job :: "'t adaptive_job"
  rj_deadline :: "nat option"

record 't sched_state =
  ss_now :: nat
  ss_cells :: "nat list"
  ss_jobs :: "'t running_job list"
  ss_spawned :: "(nat \<times> nat \<times> 't) list"

definition sched_spawn :: "nat \<Rightarrow> 't scheduler \<Rightarrow> 't sched_state" where
  "sched_spawn now sc =
     \<lparr>ss_now = now, ss_cells = sd_cells sc,
      ss_jobs = map (\<lambda>job. \<lparr>rj_job = job, rj_deadline = None\<rparr>) (sd_pending_jobs sc), ss_spawned = []\<rparr>"

text \<open>The head of the loop: the period is read and the sleep begins.\<close>

definition job_sleep :: "nat \<Rightarrow> 't sched_state \<Rightarrow> 't sched_state" where
  "job_sleep i st =
     (let j = ss_jobs st ! i; d = ss_cells st ! aj_duration (rj_job j) in
      st\<lparr>ss_jobs := (ss_jobs st)[i := j\<lparr>rj_deadline := Some (ss_now st + d)\<rparr>]\<rparr>)"

text \<open>The end of a sleep: the task is started, and the loop goes on.\<close>

definition job_tick :: "nat \<Rightarrow> 't sched_state \<Rightarrow> 't sched_state" where
  "job_tick i st =
     job_sleep i (st\<lparr>ss_spawned := ss_spawned st @ [(ss_now st, i, aj_task (rj_job (ss_jobs st ! i)))]\<rparr>)"

inductive sched_step :: "'t sched_state \<Rightarrow> 't sched_state \<Rightarrow> bool" where
  Time: "ss_now st \<le> t \<Longrightarrow> sched_step st (st\<lparr>ss_now := t\<rparr>)"
| Set: "sched_step st (st\<lparr>ss_cells := set_duration trigger d (ss_cells st)\<rparr>)"
| Begin: "i < length (ss_jobs st) \<Longrightarrow> rj_deadline (ss_jobs st ! i) = None \<Longrightarrow> sched_step st (job_sleep i st)"
| Tick: "i < length (ss_jobs st) \<Longrightarrow> rj_deadline (ss_jobs st ! i) = Some t \<Longrightarrow> t \<le> ss_now st \<Longrightarrow> sched_step st (job_tick i st)"

inductive_cases sched_step_cases: "sched_step st st'"

section \<open>Cells\<close>

text \<open>Every job has a cell of its own, and a trigger sets the period of its job only.\<close>

definition own_cells :: "'t scheduler \<Rightarrow> bool" where
  "own_cells sc \<longleftrightarrow> map aj_duration (sd_pending_jobs sc) = [0 ..< length (sd_cells sc)]"

lemma own_cells_new: "own_cells scheduler_new"
  by (simp add: own_cells_def scheduler_new_def)

lemma own_cells_add_job: "own_cells sc \<Longrightarrow> own_cells (fst (add_job d f sc))"
  by (simp add: own_cells_def add_job_def adaptive_job_new_def)

lemma own_cells_add_adaptive_job:
  assumes "own_cells sc" and "add_adaptive_job d f sc = (sc', Ok trigger)"
  shows "own_cells sc' \<and> trigger = length (sd_pending_jobs sc) \<and> sd_cells sc' ! trigger = d"
proof -
  have "length (sd_pending_jobs sc) = length (sd_cells sc)"
    using arg_cong [OF assms(1) [unfolded own_cells_def], of length] by simp
  then show ?thesis
    using assms by (auto simp: own_cells_def add_adaptive_job_def adaptive_job_new_def get_trigger_def nth_append)
qed

lemma set_duration_own:
  "set_duration trigger d cells ! c = (if c = trigger \<and> c < length cells then d else cells ! c)"
  by (cases "trigger < length cells") (auto simp: set_duration_def nth_list_update not_less list_update_beyond)

text \<open>The jobs themselves never change: after any run, job \<open>i\<close> still reads cell \<open>i\<close>.\<close>

lemma running_jobs:
  "sched_step st st' \<Longrightarrow> map rj_job (ss_jobs st') = map rj_job (ss_jobs st)"
  by (induction rule: sched_step.induct)
    (auto simp: job_tick_def job_sleep_def Let_def list_eq_iff_nth_eq nth_list_update)

lemma running_jobs_reachable:
  "sched_step\<^sup>*\<^sup>* (sched_spawn now sc) st \<Longrightarrow> map rj_job (ss_jobs st) = sd_pending_jobs sc"
  by (induction rule: rtranclp_induct) (auto simp: sched_spawn_def comp_def running_jobs)

lemma job_cell:
  assumes "own_cells sc" and "sched_step\<^sup>*\<^sup>* (sched_spawn now sc) st" and "i < length (ss_jobs st)"
  shows "aj_duration (rj_job (ss_jobs st ! i)) = i"
proof -
  have "map aj_duration (map rj_job (ss_jobs st)) = [0 ..< length (sd_cells sc)]"
    using running_jobs_reachable [OF assms(2)] assms(1) by (simp add: own_cells_def)
  then have "map aj_duration (map rj_job (ss_jobs st)) ! i = i"
    using assms(3) by (metis add_0 length_map length_upt nth_upt minus_nat.diff_0)
  with assms(3) show ?thesis by simp
qed

section \<open>Timing\<close>

definition starts_of :: "nat \<Rightarrow> 't sched_state \<Rightarrow> nat list" where
  "starts_of i st = map fst (filter (\<lambda>(_, k, _). k = i) (ss_spawned st))"

definition deadline_of :: "nat \<Rightarrow> 't sched_state \<Rightarrow> nat option" where
  "deadline_of i st = rj_deadline (ss_jobs st ! i)"

lemma starts_of_simps [simp]:
  "starts_of i (st\<lparr>ss_now := t\<rparr>) = starts_of i st"
  "starts_of i (st\<lparr>ss_cells := cs\<rparr>) = starts_of i st"
  "starts_of i (job_sleep k st) = starts_of i st"
  "starts_of i (job_tick k st) = (if i = k then starts_of i st @ [ss_now st] else starts_of i st)"
  by (auto simp: starts_of_def job_tick_def job_sleep_def Let_def)

lemma ss_now_simps [simp]: "ss_now (job_sleep k st) = ss_now st" "ss_now (job_tick k st) = ss_now st"
  by (simp_all add: job_tick_def job_sleep_def Let_def)

lemma deadline_of_simps [simp]:
  "deadline_of i (st\<lparr>ss_now := t\<rparr>) = deadline_of i st"
  "deadline_of i (st\<lparr>ss_cells := cs\<rparr>) = deadline_of i st"
  "k < length (ss_jobs st) \<Longrightarrow> deadline_of i (job_sleep k st) =
     (if i = k then Some (ss_now st + ss_cells st ! aj_duration (rj_job (ss_jobs st ! i))) else deadline_of i st)"
  "k < length (ss_jobs st) \<Longrightarrow> deadline_of i (job_tick k st) =
     (if i = k then Some (ss_now st + ss_cells st ! aj_duration (rj_job (ss_jobs st ! i))) else deadline_of i st)"
  by (auto simp: deadline_of_def job_tick_def job_sleep_def Let_def)

text \<open>The step from \<open>st\<close> to \<open>st'\<close> is one in which job \<open>i\<close> goes to sleep, for the first time or after a start.\<close>

definition sleeps :: "nat \<Rightarrow> 't sched_state \<Rightarrow> 't sched_state \<Rightarrow> bool" where
  "sleeps i st st' \<longleftrightarrow>
     sched_step st st' \<and> (deadline_of i st = None \<and> deadline_of i st' \<noteq> None \<or> starts_of i st' \<noteq> starts_of i st)"

lemma sleeps_deadline:
  assumes "sleeps i st st'"
  shows "deadline_of i st' = Some (ss_now st + ss_cells st ! aj_duration (rj_job (ss_jobs st ! i)))"
proof -
  from assms have "sched_step st st'" by (simp add: sleeps_def)
  then show ?thesis
    using assms by cases (auto simp: sleeps_def split: if_splits)
qed

text \<open>From then on: the deadline stands until it has passed and the task has been started once more.\<close>

lemma deadline_stands:
  assumes "sched_step\<^sup>*\<^sup>* st st'" and "deadline_of i st = Some t"
  shows "starts_of i st' = starts_of i st \<and> deadline_of i st' = Some t \<or>
    (\<exists>t' ts. starts_of i st' = starts_of i st @ t' # ts \<and> t \<le> t')"
  using assms(1)
proof (induction rule: rtranclp_induct)
  case (step st1 st2)
  from step.hyps(2) step.IH show ?case
    by cases (auto simp: deadline_of_def [symmetric] split: if_splits)
qed (use assms(2) in simp)

lemma start_enabled:
  assumes "i < length (ss_jobs st)" and "deadline_of i st = Some t"
  shows "(\<exists>st'. sched_step st st' \<and> starts_of i st' \<noteq> starts_of i st) \<longleftrightarrow> t \<le> ss_now st"
proof
  assume "\<exists>st'. sched_step st st' \<and> starts_of i st' \<noteq> starts_of i st"
  then obtain st' where "sched_step st st'" "starts_of i st' \<noteq> starts_of i st" by blast
  then show "t \<le> ss_now st"
    using assms(2) by cases (auto simp: deadline_of_def split: if_splits)
next
  assume "t \<le> ss_now st"
  with assms have "sched_step st (job_tick i st)"
    by (intro Tick) (auto simp: deadline_of_def)
  then show "\<exists>st'. sched_step st st' \<and> starts_of i st' \<noteq> starts_of i st"
    by (intro exI [of _ "job_tick i st"]) simp
qed

text \<open>A job whose cell never holds less than \<open>p\<close>, and how far it can have come.\<close>

definition slow_step :: "nat \<Rightarrow> nat \<Rightarrow> 't sched_state \<Rightarrow> 't sched_state \<Rightarrow> bool" where
  "slow_step i p st st' \<longleftrightarrow> sched_step st st' \<and> p \<le> ss_cells st ! i"

definition paced :: "nat \<Rightarrow> nat \<Rightarrow> nat \<Rightarrow> 't sched_state \<Rightarrow> bool" where
  "paced i p now st \<longleftrightarrow>
     now + length (starts_of i st) * p \<le> ss_now st \<and>
     (case deadline_of i st of None \<Rightarrow> starts_of i st = [] | Some t \<Rightarrow> now + Suc (length (starts_of i st)) * p \<le> t)"

lemma paced_step:
  assumes "slow_step i p st st'" and "paced i p now st" and "aj_duration (rj_job (ss_jobs st ! i)) = i"
  shows "paced i p now st'"
proof -
  from assms(1) have "sched_step st st'" and p: "p \<le> ss_cells st ! i" by (simp_all add: slow_step_def)
  then show ?thesis
  proof cases
    case (Begin k)
    with assms p show ?thesis
      by (cases "k = i") (auto simp: paced_def deadline_of_def [symmetric] split: option.splits)
  next
    case (Tick k t)
    with assms p show ?thesis
      by (cases "k = i") (auto simp: paced_def deadline_of_def [symmetric] split: option.splits)
  qed (use assms(2) in \<open>auto simp: paced_def split: option.splits\<close>)
qed

lemma paced_reachable:
  assumes "own_cells sc" and "(slow_step i p)\<^sup>*\<^sup>* (sched_spawn now sc) st" and "i < length (sd_pending_jobs sc)"
  shows "sched_step\<^sup>*\<^sup>* (sched_spawn now sc) st \<and> paced i p now st"
  using assms(2)
proof (induction rule: rtranclp_induct)
  case base
  show ?case using assms(3) by (simp add: paced_def sched_spawn_def starts_of_def deadline_of_def)
next
  case (step st st')
  then have reach: "sched_step\<^sup>*\<^sup>* (sched_spawn now sc) st" by simp
  have "i < length (ss_jobs st)"
    using arg_cong [OF running_jobs_reachable [OF reach], of length] assms(3) by simp
  from paced_step [OF step.hyps(2) _ job_cell [OF assms(1) reach this]] step show ?case
    by (auto simp: slow_step_def)
qed

text \<open>
  C32. A job keeps its period. Take any moment at which job \<open>i\<close> goes to sleep, at first or having
  started its task, and let \<open>d\<close> be what its cell holds then. Whatever the triggers do afterwards,
  the next start does not come before \<open>d\<close> has passed; and as long as there was none, the job can
  start its task exactly if \<open>d\<close> has passed, however long earlier tasks take. A new period thus takes
  effect with the next sleep, not in the middle of one. And if the cell never holds less than \<open>p\<close>, there
  have been no more starts than \<open>p\<close> fits into the time since the scheduler was started.
\<close>
theorem job_keeps_period:
  assumes "own_cells sc" and "sched_step\<^sup>*\<^sup>* (sched_spawn now sc) st" and "i < length (sd_pending_jobs sc)"
    and "sleeps i st st1" and "sched_step\<^sup>*\<^sup>* st1 st2"
  shows "(\<forall>t ts. starts_of i st2 = starts_of i st1 @ t # ts \<longrightarrow> ss_now st + ss_cells st ! i \<le> t) \<and>
    (starts_of i st2 = starts_of i st1 \<longrightarrow>
       ((\<exists>st3. sched_step st2 st3 \<and> starts_of i st3 \<noteq> starts_of i st2) \<longleftrightarrow> ss_now st + ss_cells st ! i \<le> ss_now st2)) \<and>
    (\<forall>p. (slow_step i p)\<^sup>*\<^sup>* (sched_spawn now sc) st2 \<longrightarrow> now + length (starts_of i st2) * p \<le> ss_now st2)"
proof -
  have jobs: "length (ss_jobs x) = length (sd_pending_jobs sc)" if "sched_step\<^sup>*\<^sup>* (sched_spawn now sc) x" for x
    using arg_cong [OF running_jobs_reachable [OF that], of length] by simp
  have dl: "deadline_of i st1 = Some (ss_now st + ss_cells st ! i)"
    using sleeps_deadline [OF assms(4)] job_cell [OF assms(1,2)] jobs [OF assms(2)] assms(3) by simp
  have "sched_step\<^sup>*\<^sup>* (sched_spawn now sc) st2"
    using assms(2,4,5) by (metis sleeps_def rtranclp.rtrancl_into_rtrancl rtranclp_trans)
  then have i: "i < length (ss_jobs st2)" using jobs assms(3) by simp
  show ?thesis
    using deadline_stands [OF assms(5) dl] start_enabled [OF i] paced_reachable [OF assms(1) _ assms(3)]
    by (auto simp: paced_def)
qed

text \<open>A job every five units: one start by the time six, and none can follow before eleven.\<close>

definition sample_scheduler :: "string scheduler" where
  "sample_scheduler = fst (add_job 5 ''tick'' scheduler_new)"

theorem job_keeps_period_witness:
  "\<exists>st st1. sched_step\<^sup>*\<^sup>* (sched_spawn 0 sample_scheduler) st \<and> sleeps 0 st st1 \<and> starts_of 0 st1 = [6] \<and>
    \<not> (\<exists>st3. sched_step (st1\<lparr>ss_now := 10\<rparr>) st3 \<and> starts_of 0 st3 \<noteq> [6]) \<and>
    (\<exists>st3. sched_step (st1\<lparr>ss_now := 11\<rparr>) st3 \<and> starts_of 0 st3 \<noteq> [6])"
proof -
  let ?s0 = "sched_spawn 0 sample_scheduler"
  let ?s1 = "job_sleep 0 ?s0"
  let ?s2 = "?s1\<lparr>ss_now := 6\<rparr>"
  let ?s3 = "job_tick 0 ?s2"
  note defs = sched_spawn_def sample_scheduler_def add_job_def adaptive_job_new_def scheduler_new_def
  have "sched_step ?s0 ?s1"
    by (rule Begin) (simp_all add: defs)
  moreover have "sched_step ?s1 ?s2"
    by (rule Time) (simp add: sched_spawn_def job_sleep_def Let_def)
  ultimately have reach: "sched_step\<^sup>*\<^sup>* ?s0 ?s2"
    by (meson converse_rtranclp_into_rtranclp rtranclp.rtrancl_refl)
  have starts: "starts_of 0 ?s3 = [6]" "starts_of 0 ?s2 = []" "ss_cells ?s2 ! 0 = 5" "ss_now ?s3 = 6"
    by (simp_all add: job_tick_def job_sleep_def Let_def defs starts_of_def)
  have "sched_step ?s2 ?s3"
    by (rule Tick [where t = 5]) (simp_all add: job_sleep_def defs)
  then have sl: "sleeps 0 ?s2 ?s3"
    using starts by (simp add: sleeps_def)
  have own: "own_cells sample_scheduler" "0 < length (sd_pending_jobs sample_scheduler)"
    by (simp_all add: own_cells_def defs)
  have "sched_step\<^sup>*\<^sup>* ?s3 (?s3\<lparr>ss_now := t\<rparr>)" if "6 \<le> t" for t
    using Time [of ?s3 t] that starts(4) by auto
  from job_keeps_period [OF own(1) reach own(2) sl this] starts
  have "(\<exists>st3. sched_step (?s3\<lparr>ss_now := t\<rparr>) st3 \<and> starts_of 0 st3 \<noteq> [6]) \<longleftrightarrow> 11 \<le> t" if "6 \<le> t" for t
    using that by simp
  from this [of 10] this [of 11] show ?thesis
    using reach sl starts(1) by (intro exI [of _ ?s2] exI [of _ ?s3]) simp
qed

end
