(* ===== verification/Support.thy ===== *)
theory Support
  imports Json
begin

text \<open>
  Supporting code: \<open>src/libs/config.rs\<close> (the configuration of one service out of the common file),
  \<open>src/libs/warn.rs\<close> (warnings said once and counted), \<open>src/libs/datatable.rs\<close> (rows of a result) and
  \<open>src/libs/deserializer_wrapper.rs\<close>.
  Reading the file, \<open>from_str\<close> and the final \<open>from_value\<close> are parameters; a panic is \<open>None\<close>. A hash map is
  listed in some order by \<open>ord\<close>.
\<close>

section \<open>Configuration\<close>

record cli_argument =
  ca_config :: string
  ca_config_entry :: "string option"

definition obj_remove :: "string \<Rightarrow> 'v btree \<Rightarrow> 'v btree" where
  "obj_remove k m = filter (\<lambda>(k', _). k' \<noteq> k) m"

text \<open>The entries of the service over those of the root, then the service itself replaced by its name.\<close>

definition merge_service :: "string \<Rightarrow> json btree \<Rightarrow> json btree \<Rightarrow> json btree" where
  "merge_service service_name service_config root =
     obj_insert ''name'' (JStr service_name)
       (obj_remove service_name (fold (\<lambda>(k, v). obj_insert k v) service_config root))"

fun service_json :: "string \<Rightarrow> json \<Rightarrow> (json, string) result option" where
  "service_json service_name config =
     (case jget config service_name of
        None \<Rightarrow> Some (Err (''Service '' @ service_name @ '' not found in config''))
      | Some service_config \<Rightarrow>
          (case (config, service_config) of
             (JObj root, JObj entries) \<Rightarrow> Some (Ok (JObj (merge_service service_name entries root)))
           | _ \<Rightarrow> None))"

definition load_config ::
  "(string \<Rightarrow> (string, string) result) \<Rightarrow> (string \<Rightarrow> (json, string) result) \<Rightarrow> (json \<Rightarrow> ('c, string) result)
    \<Rightarrow> cli_argument \<Rightarrow> string \<Rightarrow> ('c, string) result option" where
  "load_config read_file from_str from_value args service_name =
     (case result_bind (read_file (ca_config args)) from_str of
        Err e \<Rightarrow> Some (Err e)
      | Ok config \<Rightarrow>
          (let service_name = (case ca_config_entry args of Some entry \<Rightarrow> entry | None \<Rightarrow> service_name) in
           map_option (\<lambda>r. result_bind r from_value) (service_json service_name config)))"

lemma obj_get_remove [simp]: "obj_get (obj_remove k m) k' = (if k' = k then None else obj_get m k')"
  by (induction m) (auto simp: obj_get_def obj_remove_def)

lemma obj_get_merge:
  assumes "obj_wf entries"
  shows "obj_get (merge_service name entries root) k =
    (if k = ''name'' then Some (JStr name)
     else if k = name then None
     else case obj_get entries k of Some v \<Rightarrow> Some v | None \<Rightarrow> obj_get root k)"
proof -
  have "obj_get (fold (\<lambda>(k, v). obj_insert k v) entries root) k =
      (case obj_get entries k of Some v \<Rightarrow> Some v | None \<Rightarrow> obj_get root k)"
    using obj.get_extend [of entries root k] map_of_rev [OF obj_wf_distinct [OF assms]]
    by (simp add: obj.extend_def obj_get_def)
  then show ?thesis
    by (simp add: merge_service_def)
qed

text \<open>
  The configuration of a service. A service is found exactly when the file is an object with an entry
  of its name; its configuration then says under every key what the service says there, else what the
  root says, with the service's own entry gone and \<open>name\<close> set to its name, whatever either said
  before. The one way to panic is a service whose entry is not an object.
\<close>
theorem service_config_merge:
  assumes "\<And>entries. jget config service_name = Some (JObj entries) \<Longrightarrow> obj_wf entries"
  shows "(service_json service_name config = None \<longleftrightarrow>
      (\<exists>sc. jget config service_name = Some sc \<and> (\<forall>m. sc \<noteq> JObj m))) \<and>
    ((\<exists>e. service_json service_name config = Some (Err e)) \<longleftrightarrow> jget config service_name = None) \<and>
    (\<forall>merged. service_json service_name config = Some (Ok merged) \<longrightarrow>
      (\<exists>entries. jget config service_name = Some (JObj entries) \<and>
        (\<forall>k. jget merged k =
          (if k = ''name'' then Some (JStr service_name)
           else if k = service_name then None
           else case obj_get entries k of Some v \<Rightarrow> Some v | None \<Rightarrow> jget config k))))"
proof (cases "jget config service_name")
  case (Some sc)
  then obtain root where "config = JObj root"
    by (cases config) auto
  with Some assms show ?thesis
    by (cases sc) (auto simp: obj_get_merge split: option.split)
qed simp

theorem service_config_merge_witness:
  "\<exists>merged. service_json ''api'' (jobj [(''port'', JInt 1), (''api'', jobj [(''port'', JInt 2)])]) = Some (Ok merged) \<and>
     jget merged ''port'' = Some (JInt 2) \<and> jget merged ''api'' = None \<and> jget merged ''name'' = Some (JStr ''api'')"
proof -
  let ?config = "jobj [(''port'', JInt 1), (''api'', jobj [(''port'', JInt 2)])]"
  have api: "jget ?config ''api'' = Some (JObj [(''port'', JInt 2)])"
    by (simp add: jget_jobj) (simp add: jobj_def obj_of_def)
  then obtain merged where "service_json ''api'' ?config = Some (Ok merged)"
    by (simp add: jobj_def)
  with service_config_merge [of ?config "''api''"] api show ?thesis
    by (auto simp: obj_wf_def obj_get_def)
qed

section \<open>Warnings\<close>

type_synonym warn_manager = "string \<Rightarrow> u64 option"

definition warn_manager_new :: warn_manager where "warn_manager_new = Map.empty"

text \<open>The manager after a warning, and what was logged. The count wraps.\<close>

definition warn :: "string \<Rightarrow> warn_manager \<Rightarrow> warn_manager \<times> string list" where
  "warn s m =
     (case m s of
        Some n \<Rightarrow> (m(s \<mapsto> n + 1), [])
      | None \<Rightarrow> (m(s \<mapsto> 1), [''First warning: '' @ s]))"

definition get_warns :: "warn_manager \<Rightarrow> warn_manager" where "get_warns m = m"

text \<open>\<open>write\<close> is one \<open>writeln!\<close>; an error ends the listing.\<close>

fun write_lines :: "(string \<Rightarrow> 'w \<Rightarrow> 'w \<times> (unit, 'e) result) \<Rightarrow> string list \<Rightarrow> 'w \<Rightarrow> 'w \<times> (unit, 'e) result" where
  "write_lines write [] w = (w, Ok ())"
| "write_lines write (l # ls) w =
     (case write l w of
        (w', Ok ()) \<Rightarrow> write_lines write ls w'
      | (w', Err e) \<Rightarrow> (w', Err e))"

definition dump_stats ::
  "(string set \<Rightarrow> string list) \<Rightarrow> (string \<Rightarrow> 'w \<Rightarrow> 'w \<times> (unit, 'e) result) \<Rightarrow> string \<Rightarrow> warn_manager \<Rightarrow> 'w
    \<Rightarrow> 'w \<times> (unit, 'e) result" where
  "dump_stats ord write now m w =
     write_lines write
       ((''Warnings at '' @ now @ '':'') #
        map (\<lambda>s. ''count='' @ show_nat (unat (the (m s))) @ '' warn='' @ s) (ord (dom m))) w"

primrec warn_all :: "string list \<Rightarrow> warn_manager \<Rightarrow> warn_manager \<times> string list" where
  "warn_all [] m = (m, [])"
| "warn_all (s # ss) m = (case warn s m of (m', l) \<Rightarrow> case warn_all ss m' of (m'', ls) \<Rightarrow> (m'', l @ ls))"

text \<open>What was warned about, in the order in which it was first.\<close>

fun first_seen :: "string set \<Rightarrow> string list \<Rightarrow> string list" where
  "first_seen known [] = []"
| "first_seen known (s # ss) = (if s \<in> known then [] else [s]) @ first_seen (insert s known) ss"

lemma warn_all_effect:
  "warn_all ss m = (m', ls) \<Longrightarrow>
     ls = map (\<lambda>s. ''First warning: '' @ s) (first_seen (dom m) ss) \<and>
     (\<forall>s. m' s = (case (m s, count_list ss s) of
        (Some n, k) \<Rightarrow> Some (n + word_of_nat k) | (None, 0) \<Rightarrow> None | (None, k) \<Rightarrow> Some (word_of_nat k)))"
proof (induction ss arbitrary: m m' ls)
  case (Cons s ss)
  obtain m1 l where w: "warn s m = (m1, l)" by (cases "warn s m")
  obtain m2 ls2 where ws: "warn_all ss m1 = (m2, ls2)" by (cases "warn_all ss m1")
  have eq: "m' = m2" "ls = l @ ls2" using Cons.prems w ws by auto
  have "dom m1 = insert s (dom m)" "l = (if s \<in> dom m then [] else [''First warning: '' @ s])"
    using w by (auto simp: warn_def split: option.splits)
  then have "ls = map (\<lambda>s. ''First warning: '' @ s) (first_seen (dom m) (s # ss))"
    using Cons.IH [OF ws] eq by auto
  moreover have "m' t = (case (m t, count_list (s # ss) t) of
      (Some n, k) \<Rightarrow> Some (n + word_of_nat k) | (None, 0) \<Rightarrow> None | (None, k) \<Rightarrow> Some (word_of_nat k))" for t
    using Cons.IH [OF ws] eq w
    by (auto simp: warn_def add.assoc split: option.splits nat.splits if_splits)
  ultimately show ?case by blast
qed (auto split: option.split)

text \<open>A warning is logged the first time only, and the manager counts every time.\<close>

lemma warnings_once_and_counted:
  assumes "warn_all ss warn_manager_new = (m, ls)"
  shows "ls = map (\<lambda>s. ''First warning: '' @ s) (first_seen {} ss) \<and>
    (\<forall>s. get_warns m s = (if s \<in> set ss then Some (word_of_nat (count_list ss s)) else None))"
proof -
  have "count_list ss s = 0 \<longleftrightarrow> s \<notin> set ss" for s
    by (induction ss) auto
  then show ?thesis
    using warn_all_effect [OF assms]
    by (auto simp: warn_manager_new_def get_warns_def split: nat.splits)
qed

section \<open>Rows\<close>

record 't r_data_table =
  dt_rows :: "'t list"

definition with_capacity :: "nat \<Rightarrow> 't r_data_table" where
  "with_capacity capacity = \<lparr>dt_rows = []\<rparr>"

definition dt_first :: "('t \<Rightarrow> 'r) \<Rightarrow> 't r_data_table \<Rightarrow> 'r option" where
  "dt_first f t = (case dt_rows t of [] \<Rightarrow> None | row # _ \<Rightarrow> Some (f row))"

definition into_rows :: "'t r_data_table \<Rightarrow> 't list" where "into_rows t = dt_rows t"

definition dt_len :: "'t r_data_table \<Rightarrow> nat" where "dt_len t = length (dt_rows t)"

definition dt_is_empty :: "'t r_data_table \<Rightarrow> bool" where "dt_is_empty t \<longleftrightarrow> dt_rows t = []"

definition into_result :: "'t r_data_table \<Rightarrow> 't option" where
  "into_result t = (case dt_rows t of [] \<Rightarrow> None | row # _ \<Rightarrow> Some row)"

definition dt_push :: "'t \<Rightarrow> 't r_data_table \<Rightarrow> 't r_data_table" where
  "dt_push row t = t\<lparr>dt_rows := dt_rows t @ [row]\<rparr>"

definition dt_map :: "('t \<Rightarrow> 'r) \<Rightarrow> 't r_data_table \<Rightarrow> 'r list" where
  "dt_map f t = map f (dt_rows t)"

text \<open>The rows are awaited one after the other; the first error returns.\<close>

primrec await_each :: "('t \<Rightarrow> 's \<Rightarrow> 's \<times> ('r, 'e) result) \<Rightarrow> 't list \<Rightarrow> 'r list \<Rightarrow> 's \<Rightarrow> 's \<times> ('r list, 'e) result" where
  "await_each f [] acc s = (s, Ok acc)"
| "await_each f (row # rows) acc s =
     (case f row s of
        (s', Ok r) \<Rightarrow> await_each f rows (acc @ [r]) s'
      | (s', Err e) \<Rightarrow> (s', Err e))"

definition map_async :: "('t \<Rightarrow> 's \<Rightarrow> 's \<times> ('r, 'e) result) \<Rightarrow> 't r_data_table \<Rightarrow> 's \<Rightarrow> 's \<times> ('r list, 'e) result" where
  "map_async f t s = await_each f (dt_rows t) [] s"

text \<open>When every row succeeds, \<open>map_async\<close> is \<open>map\<close>; rows behind the first failure are not visited.\<close>

lemma await_each_pure:
  "await_each (\<lambda>r s. (g r s, Ok (f r))) rows acc s = (fold g rows s, Ok (acc @ map f rows))"
  by (induction rows arbitrary: acc s) auto

lemma map_async_pure: "map_async (\<lambda>r s. (g r s, Ok (f r))) t s = (fold g (dt_rows t) s, Ok (dt_map f t))"
  by (simp add: map_async_def await_each_pure dt_map_def)

lemma await_each_error:
  "await_each f rows acc s = (s', Err e) \<Longrightarrow>
     \<exists>pre row post s1 rs. rows = pre @ row # post \<and> await_each f pre acc s = (s1, Ok rs) \<and> f row s1 = (s', Err e)"
proof (induction rows arbitrary: acc s)
  case (Cons row rows)
  obtain s1 r where f: "f row s = (s1, r)" by (cases "f row s")
  show ?case
  proof (cases r)
    case (Ok v)
    then obtain pre row' post s2 rs where
      "rows = pre @ row' # post" "await_each f pre (acc @ [v]) s1 = (s2, Ok rs)" "f row' s2 = (s', Err e)"
      using Cons f by fastforce
    with f Ok show ?thesis
      by (intro exI [of _ "row # pre"] exI [of _ row'] exI [of _ post]) simp
  next
    case (Err e')
    with f Cons.prems show ?thesis
      by (intro exI [of _ "[]"] exI [of _ row] exI [of _ rows]) simp
  qed
qed simp

section \<open>The deserialiser of a borrowed value\<close>

text \<open>
  \<open>src/libs/deserializer_wrapper.rs\<close>: what a type may ask of a deserialiser. \<open>on_value\<close> is how \<open>serde_json\<close>
  answers for a value. The wrapper passes every request on, with its names and lengths; the two it has
  no method for get the answer of the trait, an error.
\<close>

datatype de_request =
    De_Any | De_Bool | De_I8 | De_I16 | De_I32 | De_I64 | De_U8 | De_U16 | De_U32 | De_U64 | De_F32 | De_F64 | De_Char
  | De_Str | De_String | De_Bytes | De_Byte_Buf | De_Option | De_Unit | De_Unit_Struct string
  | De_Newtype_Struct string | De_Seq | De_Tuple nat | De_Tuple_Struct string nat | De_Map
  | De_Struct string "string list" | De_Enum string "string list" | De_Identifier | De_Ignored_Any | De_I128 | De_U128

record deserializer =
  de_input :: json

definition deserializer_from_value :: "json \<Rightarrow> deserializer" where
  "deserializer_from_value v = \<lparr>de_input = v\<rparr>"

definition deserialize :: "(json \<Rightarrow> de_request \<Rightarrow> ('a, string) result) \<Rightarrow> deserializer \<Rightarrow> de_request \<Rightarrow> ('a, string) result" where
  "deserialize on_value d r =
     (case r of
        De_I128 \<Rightarrow> Err ''i128 is not supported''
      | De_U128 \<Rightarrow> Err ''u128 is not supported''
      | _ \<Rightarrow> on_value (de_input d) r)"

lemma deserializer_transparent:
  "r \<noteq> De_I128 \<Longrightarrow> r \<noteq> De_U128 \<Longrightarrow> deserialize on_value (deserializer_from_value v) r = on_value v r"
  by (cases r) (simp_all add: deserialize_def deserializer_from_value_def)

end
