(* ===== verification/Log_Reader.thy ===== *)
theory Log_Reader
  imports Prelude
begin

text \<open>
  \<open>src/libs/log_reader.rs\<close>: the last lines of a log file as entries. The lines come from the \<open>rev_lines\<close>
  crate, last line first, each read or an error; \<open>re\<close> is \<open>replace_all\<close> of the \<open>regex\<close> crate,
  \<open>datetime\<close> the milliseconds of an RFC 3339 time, \<open>level\<close> a level of \<open>tracing\<close> as it prints itself. A
  panic of the reading thread is \<open>None\<close>.
\<close>

section \<open>The code\<close>

record log_entry =
  le_datetime :: int
  le_level :: string
  le_thread :: string
  le_path :: string
  le_line_number :: nat
  le_message :: string

definition CONTROL_SEQUENCE_PATTERN :: string where
  "CONTROL_SEQUENCE_PATTERN = [CHR 0x1B, CHR 0x5C] @ ''[[0-9;]*m''"

text \<open>\<open>split_whitespace\<close>, with the word read so far.\<close>

function split_ws :: "string \<Rightarrow> string \<Rightarrow> string list" where
  "split_ws cur s =
     (if s = [] then (if cur = [] then [] else [cur])
      else
        (case find (\<lambda>p. p \<noteq> [] \<and> starts_with s p) white_space of
           Some p \<Rightarrow> (if cur = [] then [] else [cur]) @ split_ws [] (drop (length p) s)
         | None \<Rightarrow> split_ws (cur @ [hd s]) (tl s)))"
  by auto
termination
  by (relation "measure (\<lambda>(cur, s). length s)") (auto simp: find_Some_iff)

declare split_ws.simps [simp del]

definition split_whitespace :: "string \<Rightarrow> string list" where
  "split_whitespace s = split_ws [] s"

text \<open>\<open>x[..x.len() - 1]\<close>: a panic unless the cut is between two characters.\<close>

definition cut_last :: "string \<Rightarrow> string option" where
  "cut_last x = (if x = [] \<or> utf8_cont (of_char (last x)) then None else Some (butlast x))"

definition usize_max :: nat where "usize_max = 2 ^ 64 - 1"

record line_reader =
  rd_re :: "string \<Rightarrow> string \<Rightarrow> string \<Rightarrow> string"
  rd_datetime :: "string \<Rightarrow> int option"
  rd_level :: "string \<Rightarrow> string option"

text \<open>Errors return early, panics go through.\<close>

fun obind :: "('a, 'e) result option \<Rightarrow> ('a \<Rightarrow> ('b, 'e) result option) \<Rightarrow> ('b, 'e) result option" where
  "obind None f = None"
| "obind (Some (Err e)) f = Some (Err e)"
| "obind (Some (Ok x)) f = f x"

definition next_word :: "string list \<Rightarrow> nat \<Rightarrow> string option" where
  "next_word ws i = (if i < length ws then Some (ws ! i) else None)"

definition or_context :: "string \<Rightarrow> 'a option \<Rightarrow> ('a, string) result option" where
  "or_context msg x = Some (case x of Some v \<Rightarrow> Ok v | None \<Rightarrow> Err msg)"

primrec join_words :: "string list \<Rightarrow> string" where
  "join_words [] = []"
| "join_words (w # ws) = (if ws = [] then w else w @ '' '' @ join_words ws)"

definition log_entry_from_str :: "line_reader \<Rightarrow> string \<Rightarrow> (log_entry, string) result option" where
  "log_entry_from_str rd s =
     (let ws = split_whitespace (rd_re rd CONTROL_SEQUENCE_PATTERN s []) in
      obind (or_context ''no datetime'' (Option.bind (next_word ws 0) (rd_datetime rd))) (\<lambda>datetime.
      obind (or_context ''no level'' (Option.bind (next_word ws 1) (rd_level rd))) (\<lambda>level.
      obind (or_context ''no thread'' (next_word ws 2)) (\<lambda>thread.
      obind (case next_word ws 3 of
               None \<Rightarrow> Some (Err ''no path'')
             | Some x \<Rightarrow> map_option Ok (cut_last x)) (\<lambda>path0.
      obind (case next_word ws 4 of
               None \<Rightarrow> Some (Ok 0)
             | Some x \<Rightarrow> map_option (\<lambda>n. Ok (case parse_unsigned usize_max n of Some k \<Rightarrow> k | None \<Rightarrow> 0)) (cut_last x))
        (\<lambda>line_number.
      Some (Ok \<lparr>le_datetime = datetime, le_level = level, le_thread = thread, le_path = path0,
                le_line_number = line_number, le_message = join_words (drop 5 ws)\<rparr>)))))))"

text \<open>An entry that only carries a message.\<close>

definition raw_entry :: "string \<Rightarrow> log_entry" where
  "raw_entry msg =
     \<lparr>le_datetime = 0, le_level = [], le_thread = [], le_path = [], le_line_number = 0, le_message = msg\<rparr>"

fun read_entries :: "line_reader \<Rightarrow> nat \<Rightarrow> (string, string) result list \<Rightarrow> log_entry list \<Rightarrow> log_entry list option" where
  "read_entries rd limit [] entries = Some entries"
| "read_entries rd limit (l # ls) entries =
     (if length entries \<ge> limit then Some entries
      else
        (case l of
           Err e \<Rightarrow> Some (entries @ [raw_entry e])
         | Ok line \<Rightarrow>
             (case log_entry_from_str rd line of
                None \<Rightarrow> None
              | Some (Ok entry) \<Rightarrow> read_entries rd limit ls (entries @ [entry])
              | Some (Err _) \<Rightarrow> read_entries rd limit ls (entries @ [raw_entry line]))))"

definition get_log_entries ::
  "line_reader \<Rightarrow> string \<Rightarrow> ((string, string) result list, string) result \<Rightarrow> nat \<Rightarrow> (log_entry list, string) result" where
  "get_log_entries rd path_text file limit =
     result_bind file (\<lambda>lines.
       case read_entries rd limit lines [] of
         None \<Rightarrow> Err ''log reader thread died before sending its result''
       | Some entries \<Rightarrow>
           Ok (if entries = [] then [raw_entry (''No entries found in '' @ path_text)] else entries))"

section \<open>Words\<close>

text \<open>A byte that begins no white space.\<close>

definition solid :: "char \<Rightarrow> bool" where
  "solid c \<longleftrightarrow> list_all (\<lambda>p. hd p \<noteq> c) white_space"

lemma graphic_solid: "graphic c \<Longrightarrow> solid c"
  using white_space_edges by (auto simp: solid_def list_all_iff)

lemma solid_no_space:
  assumes "solid c"
  shows "find (\<lambda>p. p \<noteq> [] \<and> starts_with (c # s) p) white_space = None"
proof -
  have "p = [] \<or> \<not> starts_with (c # s) p" if "p \<in> set white_space" for p
    using that assms by (auto simp: starts_with_iff solid_def list_all_iff Cons_eq_append_conv)
  then show ?thesis
    by (auto simp: find_None_iff)
qed

lemma split_ws_word: "list_all solid w \<Longrightarrow> split_ws cur (w @ s) = split_ws (cur @ w) s"
proof (induction w arbitrary: cur)
  case (Cons c w)
  then show ?case
    by (simp add: split_ws.simps [of cur "c # w @ s"] solid_no_space)
qed simp

lemma split_ws_space: "split_ws cur (CHR '' '' # s) = (if cur = [] then [] else [cur]) @ split_ws [] s"
proof -
  have "find (\<lambda>p. p \<noteq> [] \<and> starts_with (CHR '' '' # s) p) white_space = Some '' ''"
    by (subst white_space_Cons) (simp add: starts_with_def)
  then show ?thesis
    by (simp add: split_ws.simps [of cur "CHR '' '' # s"])
qed

text \<open>Words put together with single spaces come apart again.\<close>

lemma split_whitespace_join:
  "\<forall>w \<in> set ws. w \<noteq> [] \<and> list_all solid w \<Longrightarrow> split_whitespace (join_words ws) = ws"
proof (induction ws)
  case (Cons w ws)
  have "split_ws [] (join_words (w # ws)) = w # (if ws = [] then [] else split_ws [] (join_words ws))"
    using Cons.prems split_ws_word [of w "[]" "[]"] split_ws_word [of w "[]" "CHR '' '' # join_words ws"]
    by (auto simp: split_ws_space split_ws.simps [of w "[]"])
  then show ?case
    using Cons by (simp add: split_whitespace_def)
qed (simp add: split_whitespace_def split_ws.simps)

text \<open>A line in the format the subscriber writes, its path and line number each followed by a colon.\<close>

lemma log_entry_from_line:
  assumes "\<forall>w \<in> set (dt # lv # thread # (p @ '':'') # (show_nat n @ '':'') # ws). list_all solid w \<and> w \<noteq> []"
    and "rd_re rd CONTROL_SEQUENCE_PATTERN line [] = join_words (dt # lv # thread # (p @ '':'') # (show_nat n @ '':'') # ws)"
    and "rd_datetime rd dt = Some t" and "rd_level rd lv = Some l" and "n \<le> usize_max"
  shows "log_entry_from_str rd line =
    Some (Ok \<lparr>le_datetime = t, le_level = l, le_thread = thread, le_path = p, le_line_number = n, le_message = join_words ws\<rparr>)"
proof -
  have "split_whitespace (rd_re rd CONTROL_SEQUENCE_PATTERN line []) =
      dt # lv # thread # (p @ '':'') # (show_nat n @ '':'') # ws"
    unfolding assms(2) by (rule split_whitespace_join) (use assms(1) in auto)
  moreover have "cut_last (x @ '':'') = Some x" for x
    by (simp add: cut_last_def utf8_cont_def)
  ultimately show ?thesis
    using assms(3-5)
    by (simp add: log_entry_from_str_def or_context_def next_word_def parse_unsigned_show_nat)
qed

section \<open>Queries\<close>

definition line_entry :: "line_reader \<Rightarrow> string \<Rightarrow> log_entry" where
  "line_entry rd line = (case log_entry_from_str rd line of Some (Ok e) \<Rightarrow> e | _ \<Rightarrow> raw_entry line)"

fun err_entries :: "(string, string) result list \<Rightarrow> log_entry list" where
  "err_entries (Err e # _) = [raw_entry e]"
| "err_entries _ = []"

lemma read_entries_Ok:
  "length entries < limit \<Longrightarrow> read_entries rd limit (Ok l # ls) entries =
     (if log_entry_from_str rd l = None then None else read_entries rd limit ls (entries @ [line_entry rd l]))"
  by (auto simp: line_entry_def split: option.splits result.splits)

lemma read_entries_oks:
  assumes "rest = [] \<or> (\<exists>e r. rest = Err e # r)"
  shows "n = limit - length entries \<Longrightarrow>
    read_entries rd limit (map Ok oks @ rest) entries =
     (if \<exists>l \<in> set (take n oks). log_entry_from_str rd l = None then None
      else Some (entries @ map (line_entry rd) (take n oks) @ (if length oks < n then err_entries rest else [])))"
proof (induction oks arbitrary: entries n)
  case Nil
  then show ?case using assms by auto
next
  case (Cons l oks)
  show ?case
  proof (cases n)
    case (Suc k)
    then have room: "length entries < limit" "k = limit - length (entries @ [line_entry rd l])"
      using Cons.prems by auto
    show ?thesis
      using Cons.IH [OF room(2)] room(1) Suc by (simp add: read_entries_Ok del: read_entries.simps)
  qed (use Cons.prems in simp)
qed

text \<open>
  The reading thread panics on a line with a time and a level whose path or line number ends in a
  character of more than one byte.
\<close>

lemma obind_None: "obind x f = None \<longleftrightarrow> x = None \<or> (\<exists>v. x = Some (Ok v) \<and> f v = None)"
  by (cases "(x, f)" rule: obind.cases) auto

lemma log_entry_panics:
  "log_entry_from_str rd line = None \<longleftrightarrow>
     (\<exists>dt lv thread p ws t l.
        split_whitespace (rd_re rd CONTROL_SEQUENCE_PATTERN line []) = dt # lv # thread # p # ws \<and>
        rd_datetime rd dt = Some t \<and> rd_level rd lv = Some l \<and>
        (cut_last p = None \<or> (ws \<noteq> [] \<and> cut_last (hd ws) = None)))"
proof -
  obtain ws where ws: "split_whitespace (rd_re rd CONTROL_SEQUENCE_PATTERN line []) = ws" by simp
  consider "ws = []" | a where "ws = [a]" | a b where "ws = [a, b]" | a b c where "ws = [a, b, c]"
    | a b c d where "ws = [a, b, c, d]" | a b c d e es where "ws = a # b # c # d # e # es"
    by (metis list.exhaust)
  then show ?thesis
    by cases
      (auto simp: log_entry_from_str_def ws or_context_def next_word_def obind_None split: option.splits)
qed

text \<open>
  C33. A query shows the last lines of the file, newest first: one entry for each of the last \<open>limit\<close>
  lines, parsed or, if the line is not in the log format, as a bare message; after a read error an
  entry with the error and nothing more; a notice if there is nothing to show. But if a single one of
  these lines makes the parser panic - a line with a time and a level whose path or line-number word
  ends in a character of more than one byte - the whole query fails.
\<close>
theorem log_query_spec:
  assumes "rest = [] \<or> (\<exists>e r. rest = Err e # r)"
  shows "get_log_entries rd path_text (Ok (map Ok oks @ rest)) limit =
      (if \<exists>l \<in> set (take limit oks). log_entry_from_str rd l = None
       then Err ''log reader thread died before sending its result''
       else
         (let entries = map (line_entry rd) (take limit oks) @ (if length oks < limit then err_entries rest else []) in
          Ok (if entries = [] then [raw_entry (''No entries found in '' @ path_text)] else entries))) \<and>
    (log_entry_from_str rd line = None \<longleftrightarrow>
     (\<exists>dt lv thread p ws t l.
        split_whitespace (rd_re rd CONTROL_SEQUENCE_PATTERN line []) = dt # lv # thread # p # ws \<and>
        rd_datetime rd dt = Some t \<and> rd_level rd lv = Some l \<and>
        (cut_last p = None \<or> (ws \<noteq> [] \<and> cut_last (hd ws) = None))))"
proof
  let ?tail = "if length oks < limit then err_entries rest else []"
  have "read_entries rd limit (map Ok oks @ rest) [] =
      (if \<exists>l \<in> set (take limit oks). log_entry_from_str rd l = None then None
       else Some (map (line_entry rd) (take limit oks) @ ?tail))"
    using read_entries_oks [OF assms, of limit limit "[]" rd oks] by simp
  then show "get_log_entries rd path_text (Ok (map Ok oks @ rest)) limit =
      (if \<exists>l \<in> set (take limit oks). log_entry_from_str rd l = None
       then Err ''log reader thread died before sending its result''
       else
         (let entries = map (line_entry rd) (take limit oks) @ ?tail in
          Ok (if entries = [] then [raw_entry (''No entries found in '' @ path_text)] else entries)))"
    by (cases "\<exists>l \<in> set (take limit oks). log_entry_from_str rd l = None")
      (simp_all only: get_log_entries_def result_bind.simps if_True if_False option.case Let_def)
qed (rule log_entry_panics)

definition sample_reader :: line_reader where
  "sample_reader =
     \<lparr>rd_re = (\<lambda>p s r. s), rd_datetime = (\<lambda>s. if s = ''now'' then Some 7 else None),
      rd_level = (\<lambda>s. if s = ''INFO'' then Some ''INFO'' else None)\<rparr>"

text \<open>The second line from the end has a path that ends in a two-byte character.\<close>

theorem log_query_spec_witness:
  "get_log_entries sample_reader ''a.log''
     (Ok [Ok ''done'', Ok (''now INFO main p'' @ [CHR 0xC3, CHR 0xA9] @ '' 1: x''), Ok ''begin'']) 2 =
     Err ''log reader thread died before sending its result'' \<and>
   get_log_entries sample_reader ''a.log''
     (Ok [Ok ''done'', Ok (''now INFO main p'' @ [CHR 0xC3, CHR 0xA9] @ '' 1: x''), Ok ''begin'']) 1 =
     Ok [raw_entry ''done'']"
proof -
  let ?bad = "''now INFO main p'' @ [CHR 0xC3, CHR 0xA9] @ '' 1: x''"
  have solid: "list_all solid ''nowINFOmainp1:xde''" "solid (CHR 0xC3)" "solid (CHR 0xA9)"
    by (simp_all add: solid_def white_space_def upt_rec char_of_def bit_0)
  have words: "split_whitespace ?bad = [''now'', ''INFO'', ''main'', ''p'' @ [CHR 0xC3, CHR 0xA9], ''1:'', ''x'']"
    "split_whitespace ''done'' = [''done'']"
    using split_whitespace_join [of "[''now'', ''INFO'', ''main'', ''p'' @ [CHR 0xC3, CHR 0xA9], ''1:'', ''x'']"]
      split_whitespace_join [of "[''done'']"] solid by simp_all
  have "log_entry_from_str sample_reader ?bad = None" "log_entry_from_str sample_reader ''done'' = Some (Err ''no datetime'')"
    unfolding log_entry_from_str_def sample_reader_def line_reader.simps words
    by (simp_all add: or_context_def next_word_def cut_last_def utf8_cont_def)
  then show ?thesis
    using log_query_spec [of "[]" sample_reader "''a.log''" "[''done'', ?bad, ''begin'']" 2]
      log_query_spec [of "[]" sample_reader "''a.log''" "[''done'', ?bad, ''begin'']" 1]
    by (simp add: line_entry_def)
qed

end
