(* ===== verification/Level_Filter.thy ===== *)
theory Level_Filter
  imports Basics
begin

text \<open>
  \<open>src/libs/log/level_filter.rs\<close> and the reload handle of \<open>src/libs/log.rs\<close>: log levels, the global
  filter built for a level, and setting the level at run time. The filter itself belongs to
  \<open>tracing_subscriber\<close>: \<open>add\<close> is \<open>add_directive\<close>, \<open>parse\<close> reads a directive from a string, \<open>env0\<close> is
  the filter of the environment. A directive is a level for a target, or for everything (\<open>None\<close>).
\<close>

section \<open>Levels\<close>

text \<open>The derived order of the enumeration: its position.\<close>

definition level_rank :: "log_level \<Rightarrow> nat" where
  "level_rank l = (case l of
     Off_Level \<Rightarrow> 0 | Error_Level \<Rightarrow> 1 | Warn_Level \<Rightarrow> 2 | Info_Level \<Rightarrow> 3 | Debug_Level \<Rightarrow> 4 | Trace_Level \<Rightarrow> 5
   | Detail_Level \<Rightarrow> 6)"

lemma level_rank_inj: "level_rank a = level_rank b \<Longrightarrow> a = b"
  by (cases a; cases b) (simp_all add: level_rank_def)

instantiation log_level :: linorder
begin

definition less_eq_log_level :: "log_level \<Rightarrow> log_level \<Rightarrow> bool" where
  "less_eq_log_level a b \<longleftrightarrow> level_rank a \<le> level_rank b"

definition less_log_level :: "log_level \<Rightarrow> log_level \<Rightarrow> bool" where
  "less_log_level a b \<longleftrightarrow> level_rank a < level_rank b"

instance
  by standard (auto simp: less_eq_log_level_def less_log_level_def intro: level_rank_inj)

end

definition level_default :: log_level where "level_default = Off_Level"

text \<open>The levels of the \<open>tracing\<close> crate, and its filters.\<close>

datatype level = TRACE | DEBUG | INFO | WARN | ERROR

datatype level_filter = OFF | AtLevel level

definition restrictiveness :: "level \<Rightarrow> nat" where
  "restrictiveness l = (case l of TRACE \<Rightarrow> 0 | DEBUG \<Rightarrow> 1 | INFO \<Rightarrow> 2 | WARN \<Rightarrow> 3 | ERROR \<Rightarrow> 4)"

definition is_more_restrictive :: "level \<Rightarrow> level \<Rightarrow> bool" where
  "is_more_restrictive a b \<longleftrightarrow> restrictiveness a > restrictiveness b"

definition to_level_filter :: "log_level \<Rightarrow> level_filter" where
  "to_level_filter l = (case l of
     Error_Level \<Rightarrow> AtLevel ERROR | Warn_Level \<Rightarrow> AtLevel WARN | Info_Level \<Rightarrow> AtLevel INFO
   | Debug_Level \<Rightarrow> AtLevel DEBUG | Trace_Level \<Rightarrow> AtLevel TRACE | Detail_Level \<Rightarrow> AtLevel TRACE | Off_Level \<Rightarrow> OFF)"

definition to_level :: "log_level \<Rightarrow> level" where
  "to_level l = (case l of
     Error_Level \<Rightarrow> ERROR | Warn_Level \<Rightarrow> WARN | Info_Level \<Rightarrow> INFO | Debug_Level \<Rightarrow> DEBUG | Trace_Level \<Rightarrow> TRACE
   | Off_Level \<Rightarrow> TRACE | Detail_Level \<Rightarrow> TRACE)"

definition level_from_str :: "string \<Rightarrow> (log_level, string) result" where
  "level_from_str s =
     (let l = to_ascii_lowercase s in
      if l = ''error'' then Ok Error_Level
      else if l = ''warn'' then Ok Warn_Level
      else if l = ''info'' then Ok Info_Level
      else if l = ''debug'' then Ok Debug_Level
      else if l = ''trace'' then Ok Trace_Level
      else if l = ''detail'' then Ok Detail_Level
      else if l = ''off'' then Ok Off_Level
      else Err (''Invalid log level: '' @ s))"

text \<open>The serialised form: \<open>rename_all = "lowercase"\<close>.\<close>

definition level_name :: "log_level \<Rightarrow> string" where
  "level_name l = (case l of
     Off_Level \<Rightarrow> ''off'' | Error_Level \<Rightarrow> ''error'' | Warn_Level \<Rightarrow> ''warn'' | Info_Level \<Rightarrow> ''info''
   | Debug_Level \<Rightarrow> ''debug'' | Trace_Level \<Rightarrow> ''trace'' | Detail_Level \<Rightarrow> ''detail'')"

section \<open>The filter\<close>

type_synonym directive = "string option \<times> level"

text \<open>\<open>to_string().to_lowercase()\<close> of a level.\<close>

definition level_text :: "level \<Rightarrow> string" where
  "level_text l = (case l of
     TRACE \<Rightarrow> ''trace'' | DEBUG \<Rightarrow> ''debug'' | INFO \<Rightarrow> ''info'' | WARN \<Rightarrow> ''warn'' | ERROR \<Rightarrow> ''error'')"

definition DIRECTIVES :: "(level \<times> string) list" where
  "DIRECTIVES =
     [(DEBUG, ''tungstenite::protocol''),
      (INFO, ''h2''),
      (INFO, ''rustls::client::hs''),
      (INFO, ''rustls::client::tls13''),
      (INFO, ''hyper::client''),
      (INFO, ''hyper::proto''),
      (INFO, ''mio''),
      (INFO, ''want''),
      (INFO, ''sqlparser''),
      (WARN, ''opentelemetry''),
      (WARN, ''opentelemetry_otlp''),
      (WARN, ''opentelemetry_sdk''),
      (WARN, ''tracing_opentelemetry''),
      (WARN, ''h2''),
      (WARN, ''tower''),
      (WARN, ''hyper_util''),
      (WARN, ''tonic'')]"

fun add_caps ::
  "(string \<Rightarrow> (directive, 'e) result) \<Rightarrow> (directive \<Rightarrow> 'f \<Rightarrow> 'f) \<Rightarrow> level \<Rightarrow> (level \<times> string) list \<Rightarrow> 'f \<Rightarrow> ('f, 'e) result" where
  "add_caps parse add level [] flt = Ok flt"
| "add_caps parse add level ((dl, crate) # ds) flt =
     (if is_more_restrictive dl level
      then (case parse (crate @ ''='' @ level_text dl) of
              Ok d \<Rightarrow> add_caps parse add level ds (add d flt)
            | Err e \<Rightarrow> Err e)
      else add_caps parse add level ds flt)"

definition build_env_filter ::
  "'f \<Rightarrow> (string \<Rightarrow> (directive, 'e) result) \<Rightarrow> (directive \<Rightarrow> 'f \<Rightarrow> 'f) \<Rightarrow> log_level \<Rightarrow> ('f, 'e) result" where
  "build_env_filter env0 parse add log_level =
     (let level = to_level log_level;
          flt = add (None, level) env0 in
      if log_level > Info_Level \<and> log_level \<noteq> Detail_Level then add_caps parse add level DIRECTIVES flt else Ok flt)"

text \<open>
  \<open>modify\<close> of the reload handle fails when the subscriber is gone; the state is the filter in force,
  if there still is one.
\<close>

definition set_log_level ::
  "'f \<Rightarrow> (string \<Rightarrow> (directive, 'e) result) \<Rightarrow> (directive \<Rightarrow> 'f \<Rightarrow> 'f) \<Rightarrow> ('e \<Rightarrow> string) \<Rightarrow> string \<Rightarrow> log_level \<Rightarrow> 'f option
    \<Rightarrow> 'f option \<times> (unit, string) result" where
  "set_log_level env0 parse add show_err gone level cur =
     (case build_env_filter env0 parse add level of
        Ok flt \<Rightarrow>
          (case cur of
             Some _ \<Rightarrow> (Some flt, Ok ())
           | None \<Rightarrow> (None, Err (''Error setting new global log filter: '' @ gone @ ''. Ignoring reload attempt'')))
      | Err e \<Rightarrow>
          (cur, Err (''Error building new filter from given log level: '' @ show_err e @ ''. Ignoring reload attempt'')))"

section \<open>Properties\<close>

text \<open>Names are read back in any case; nothing else is a level.\<close>

lemma level_from_str_iff: "level_from_str s = Ok l \<longleftrightarrow> to_ascii_lowercase s = level_name l"
  by (cases l) (auto simp: level_from_str_def level_name_def Let_def split: if_splits)

lemma level_order:
  "a \<le> b \<Longrightarrow> a \<noteq> Off_Level \<Longrightarrow> restrictiveness (to_level b) \<le> restrictiveness (to_level a)"
  by (cases a; cases b) (simp_all add: less_eq_log_level_def level_rank_def to_level_def restrictiveness_def)

text \<open>
  What a filter says of a target (\<open>look\<close>): a directive replaces the earlier one of the same target. And
  what is printed as a directive is read as one.
\<close>

definition filter_laws ::
  "(string \<Rightarrow> (directive, 'e) result) \<Rightarrow> (directive \<Rightarrow> 'f \<Rightarrow> 'f) \<Rightarrow> ('f \<Rightarrow> string option \<Rightarrow> level option) \<Rightarrow> bool" where
  "filter_laws parse add look \<longleftrightarrow>
     (\<forall>t l f t'. look (add (t, l) f) t' = (if t' = t then Some l else look f t')) \<and>
     (\<forall>t l. (l, t) \<in> set DIRECTIVES \<longrightarrow> parse (t @ ''='' @ level_text l) = Ok (Some t, l))"

definition caps :: "level \<Rightarrow> (level \<times> string) list \<Rightarrow> string \<Rightarrow> level option" where
  "caps level ds = map_of (rev (map (\<lambda>(dl, c). (c, dl)) (filter (\<lambda>(dl, c). is_more_restrictive dl level) ds)))"

lemma caps_simps [simp]:
  "caps level [] c = None"
  "caps level ((dl, c') # ds) c =
     (case caps level ds c of
        Some l \<Rightarrow> Some l
      | None \<Rightarrow> if c = c' \<and> is_more_restrictive dl level then Some dl else None)"
  by (auto simp: caps_def map_add_def split: option.split)

lemma add_caps_look:
  assumes "filter_laws parse add look" and "set ds \<subseteq> set DIRECTIVES"
  shows "\<exists>flt'. add_caps parse add level ds flt = Ok flt' \<and> look flt' None = look flt None \<and>
    (\<forall>c. look flt' (Some c) = (case caps level ds c of Some dl \<Rightarrow> Some dl | None \<Rightarrow> look flt (Some c)))"
  using assms(2)
proof (induction ds arbitrary: flt)
  case (Cons d ds)
  obtain dl c where d: "d = (dl, c)" by (cases d)
  let ?flt = "if is_more_restrictive dl level then add (Some c, dl) flt else flt"
  have "parse (c @ ''='' @ level_text dl) = Ok (Some c, dl)"
    using assms(1) Cons.prems d by (simp add: filter_laws_def)
  then have "add_caps parse add level (d # ds) flt = add_caps parse add level ds ?flt"
    by (simp add: d)
  moreover have "look ?flt None = look flt None"
    "look ?flt (Some c') = (if c' = c \<and> is_more_restrictive dl level then Some dl else look flt (Some c'))" for c'
    using assms(1) by (auto simp: filter_laws_def)
  ultimately show ?case
    using Cons.IH [of ?flt] Cons.prems by (fastforce simp: d split: option.split)
qed simp

lemma caps_only_listed:
  "caps level ds c = Some dl \<Longrightarrow> (dl, c) \<in> set ds \<and> is_more_restrictive dl level"
  by (auto simp: caps_def dest!: map_of_SomeD)

text \<open>
  The list goes from lax to strict, so that for a crate listed twice the stricter entry is added last:
  every cap of the list that is tighter than the level is honoured.
\<close>

lemma caps_honoured_sorted:
  assumes "sorted (map (restrictiveness \<circ> fst) ds)" and "(dl, c) \<in> set ds" and "is_more_restrictive dl level"
  shows "\<exists>dl'. caps level ds c = Some dl' \<and> \<not> is_more_restrictive dl dl'"
  using assms
proof (induction ds)
  case (Cons d ds)
  obtain l c' where d: "d = (l, c')" by (cases d)
  show ?case
  proof (cases "(dl, c) \<in> set ds")
    case True
    with Cons obtain dl' where "caps level ds c = Some dl'" "\<not> is_more_restrictive dl dl'" by auto
    then show ?thesis by (simp add: d)
  next
    case False
    then have "d = (dl, c)" using Cons.prems(2) by simp
    then show ?thesis
      using Cons.prems caps_only_listed [of level ds c]
      by (fastforce simp: is_more_restrictive_def not_less split: option.split)
  qed
qed simp

lemma caps_honoured:
  assumes "(dl, c) \<in> set DIRECTIVES" and "is_more_restrictive dl level"
  shows "\<exists>dl'. caps level DIRECTIVES c = Some dl' \<and> \<not> is_more_restrictive dl dl'"
  by (rule caps_honoured_sorted [OF _ assms]) (simp add: DIRECTIVES_def restrictiveness_def)

text \<open>
  The global filter of a level. Building it never fails. Everything is logged at the level asked for,
  and at the levels Debug and Trace each listed crate is held at its cap, if that is tighter: whatever
  the environment said of it, it logs no more than the tightest entry of the list allows. Every other
  crate, and at every other level every crate, keeps what the environment said. The levels that mean
  nothing is filtered include Off, the default level.
\<close>
theorem global_filter_caps:
  assumes "filter_laws parse add look"
  shows "\<exists>flt. build_env_filter env0 parse add l = Ok flt \<and> look flt None = Some (to_level l) \<and>
    (l \<in> {Debug_Level, Trace_Level} \<longrightarrow>
       (\<forall>(dl, c) \<in> set DIRECTIVES. is_more_restrictive dl (to_level l) \<longrightarrow>
          (\<exists>dl'. look flt (Some c) = Some dl' \<and> \<not> is_more_restrictive dl dl'))) \<and>
    (\<forall>c. l \<notin> {Debug_Level, Trace_Level} \<or> c \<notin> snd ` set DIRECTIVES \<longrightarrow> look flt (Some c) = look env0 (Some c)) \<and>
    to_level level_default = TRACE"
proof -
  let ?base = "add (None, to_level l) env0"
  have base: "look ?base None = Some (to_level l)" "look ?base (Some c) = look env0 (Some c)" for c
    using assms by (auto simp: filter_laws_def)
  have off: "to_level level_default = TRACE"
    by (simp add: level_default_def to_level_def)
  show ?thesis
  proof (cases "l \<in> {Debug_Level, Trace_Level}")
    case True
    then have "build_env_filter env0 parse add l = add_caps parse add (to_level l) DIRECTIVES ?base"
      by (auto simp: build_env_filter_def Let_def less_log_level_def level_rank_def)
    moreover obtain flt where "add_caps parse add (to_level l) DIRECTIVES ?base = Ok flt"
      and "look flt None = Some (to_level l)"
      and "\<forall>c. look flt (Some c) =
        (case caps (to_level l) DIRECTIVES c of Some dl \<Rightarrow> Some dl | None \<Rightarrow> look env0 (Some c))"
      using add_caps_look [OF assms order.refl, of "to_level l" ?base] unfolding base by blast
    ultimately show ?thesis
      using True off caps_honoured [of _ _ "to_level l"] caps_only_listed [of "to_level l" DIRECTIVES]
      by (fastforce split: option.split intro: rev_image_eqI)
  next
    case False
    then have "build_env_filter env0 parse add l = Ok ?base"
      by (cases l) (simp_all add: build_env_filter_def Let_def less_log_level_def level_rank_def)
    then show ?thesis
      using False base off by auto
  qed
qed


text \<open>A filter as a map, and a reader of directives that knows the levels.\<close>

definition sample_parse :: "string \<Rightarrow> (directive, unit) result" where
  "sample_parse s =
     (case split_once s ''='' of
        Some (t, l) \<Rightarrow>
          (case find (\<lambda>v. level_text v = l) [TRACE, DEBUG, INFO, WARN, ERROR] of
             Some v \<Rightarrow> Ok (Some t, v)
           | None \<Rightarrow> Err ())
      | None \<Rightarrow> Err ())"

definition sample_add :: "directive \<Rightarrow> (string option \<rightharpoonup> level) \<Rightarrow> (string option \<rightharpoonup> level)" where
  "sample_add d m = m(fst d \<mapsto> snd d)"

lemma sample_parse_cap:
  "(l, t) \<in> set DIRECTIVES \<Longrightarrow> sample_parse (t @ ''='' @ level_text l) = Ok (Some t, l)"
  by (auto simp: DIRECTIVES_def sample_parse_def level_text_def starts_with_def)

theorem global_filter_caps_witness:
  "\<exists>flt. build_env_filter Map.empty sample_parse sample_add Trace_Level = Ok flt \<and>
     flt (Some ''h2'') \<in> {Some WARN, Some ERROR} \<and> flt None = Some TRACE \<and> flt (Some ''my_crate'') = None"
proof -
  have laws: "filter_laws sample_parse sample_add (\<lambda>f. f)"
    using sample_parse_cap unfolding filter_laws_def by (auto simp: sample_add_def)
  have h2: "(WARN, ''h2'') \<in> set DIRECTIVES" "is_more_restrictive WARN TRACE"
    and other: "''my_crate'' \<notin> snd ` set DIRECTIVES"
    by (simp_all add: DIRECTIVES_def is_more_restrictive_def restrictiveness_def)
  have "\<not> is_more_restrictive WARN l \<Longrightarrow> l \<in> {WARN, ERROR}" for l
    by (cases l) (simp_all add: is_more_restrictive_def restrictiveness_def)
  with global_filter_caps [OF laws, of Map.empty Trace_Level] h2 other show ?thesis
    by (fastforce simp: to_level_def)
qed

end
