(* ===== verification/Error_Aggregation.thy ===== *)
theory Error_Aggregation
  imports Prelude "HOL-Library.Multiset"
begin

text \<open>
  \<open>src/libs/log/error_aggregation.rs\<close>: recent errors, deduplicated. A tracing layer turns events of
  level ERROR into entries on an unbounded channel, a background task folds them into a table, and
  queries read the table; the lock makes each of these one step. The table is listed in its
  iteration order, which breaks ties between equal timestamps. The regular expressions are those of
  the \<open>regex\<close> crate: \<open>re p s r\<close> is \<open>replace_all\<close> of the pattern \<open>p\<close> in \<open>s\<close> by \<open>r\<close>.
\<close>

section \<open>The code\<close>

record error_entry =
  en_message :: string
  en_timestamp :: int
  en_target :: string
  en_count :: nat

record error_stats =
  es_count :: nat
  es_first_seen :: int
  es_last_seen :: int
  es_message :: string
  es_target :: string
  es_normalized_key :: string

record error_key =
  ek_target :: string
  ek_normalized_message :: string

record error_aggregation_config =
  ea_limit :: nat
  ea_normalize :: bool

definition ea_default :: error_aggregation_config where
  "ea_default = \<lparr>ea_limit = 100, ea_normalize = True\<rparr>"

type_synonym error_storage = "(error_key \<times> error_stats) list"

definition storage_new :: error_storage where "storage_new = []"

definition IP_PATTERN :: string where
  "IP_PATTERN = [CHR 0x5C] @ ''b(?:'' @ [CHR 0x5C] @ ''d{1,3}'' @ [CHR 0x5C] @ ''.){3}'' @ [CHR 0x5C] @ ''d{1,3}'' @ [CHR 0x5C] @ ''b''"

definition UUID_PATTERN :: string where
  "UUID_PATTERN = [CHR 0x5C] @ ''b[0-9a-fA-F]{8}-?[0-9a-fA-F]{4}-?[0-9a-fA-F]{4}-?[0-9a-fA-F]{4}-?[0-9a-fA-F]{12}'' @ [CHR 0x5C] @ ''b''"

definition NUMBER_PATTERN :: string where
  "NUMBER_PATTERN = [CHR 0x5C] @ ''b'' @ [CHR 0x5C] @ ''d+'' @ [CHR 0x5C] @ ''.?'' @ [CHR 0x5C] @ ''d*'' @ [CHR 0x5C] @ ''b''"

definition PATH_PATTERN :: string where
  "PATH_PATTERN = ''(?:/['' @ [CHR 0x5C] @ ''w'' @ [CHR 0x5C] @ ''-./]+)|(?:[A-Z]:'' @ [CHR 0x5C, CHR 0x5C] @ ''['' @
     [CHR 0x5C] @ ''w'' @ [CHR 0x5C] @ ''-'' @ [CHR 0x5C, CHR 0x5C] @ ''./]+)''"

definition HEX_PATTERN :: string where
  "HEX_PATTERN = [CHR 0x5C] @ ''b0x[0-9a-fA-F]+'' @ [CHR 0x5C] @ ''b''"

definition TIMESTAMP_PATTERN :: string where
  "TIMESTAMP_PATTERN = [CHR 0x5C] @ ''d{4}-'' @ [CHR 0x5C] @ ''d{2}-'' @ [CHR 0x5C] @ ''d{2}[T ]'' @ [CHR 0x5C] @ ''d{2}:'' @
     [CHR 0x5C] @ ''d{2}:'' @ [CHR 0x5C] @ ''d{2}(?:'' @ [CHR 0x5C] @ ''.'' @ [CHR 0x5C] @ ''d+)?(?:Z|[+-]'' @
     [CHR 0x5C] @ ''d{2}:'' @ [CHR 0x5C] @ ''d{2})?''"

definition WHITESPACE_PATTERN :: string where
  "WHITESPACE_PATTERN = [CHR 0x5C] @ ''s+''"

type_synonym replace_all = "string \<Rightarrow> string \<Rightarrow> string \<Rightarrow> string"

definition normalize_message :: "replace_all \<Rightarrow> string \<Rightarrow> string" where
  "normalize_message re message =
     (let n = re TIMESTAMP_PATTERN message ''<TIMESTAMP>'';
          n = re UUID_PATTERN n ''<UUID>'';
          n = re IP_PATTERN n ''<IP>'';
          n = re PATH_PATTERN n ''<PATH>'';
          n = re HEX_PATTERN n ''<HEX>'';
          n = re NUMBER_PATTERN n ''<NUM>'';
          n = re WHITESPACE_PATTERN n '' '' in
      trim n)"

definition entry_key :: "replace_all \<Rightarrow> error_aggregation_config \<Rightarrow> error_entry \<Rightarrow> error_key" where
  "entry_key re cfg e =
     \<lparr>ek_target = en_target e,
      ek_normalized_message = (if ea_normalize cfg then normalize_message re (en_message e) else en_message e)\<rparr>"

text \<open>\<open>min_by_key\<close>: the first of the entries seen first.\<close>

fun oldest :: "error_storage \<Rightarrow> (error_key \<times> error_stats) option" where
  "oldest [] = None"
| "oldest ((k, s) # m) =
     (case oldest m of
        None \<Rightarrow> Some (k, s)
      | Some (k', s') \<Rightarrow> if es_first_seen s \<le> es_first_seen s' then Some (k, s) else Some (k', s'))"

definition evict :: "error_storage \<Rightarrow> error_storage" where
  "evict m = (case oldest m of Some (k, _) \<Rightarrow> filter (\<lambda>(k', _). k' \<noteq> k) m | None \<Rightarrow> m)"

definition bump_stats :: "error_entry \<Rightarrow> error_stats \<Rightarrow> error_stats" where
  "bump_stats e s = s\<lparr>es_count := es_count s + 1, es_last_seen := en_timestamp e, es_message := en_message e\<rparr>"

definition fresh_stats :: "error_key \<Rightarrow> error_entry \<Rightarrow> error_stats" where
  "fresh_stats key e =
     \<lparr>es_count = 1, es_first_seen = en_timestamp e, es_last_seen = en_timestamp e, es_message = en_message e,
      es_target = en_target e, es_normalized_key = ek_normalized_message key\<rparr>"

definition aggregate :: "replace_all \<Rightarrow> error_aggregation_config \<Rightarrow> error_entry \<Rightarrow> error_storage \<Rightarrow> error_storage" where
  "aggregate re cfg e m =
     (let key = entry_key re cfg e in
      if map_of m key \<noteq> None
      then map (\<lambda>(k, s). if k = key then (k, bump_stats e s) else (k, s)) m
      else (if length m \<ge> ea_limit cfg then evict m else m) @ [(key, fresh_stats key e)])"

definition aggregation_task :: "replace_all \<Rightarrow> error_aggregation_config \<Rightarrow> error_entry list \<Rightarrow> error_storage \<Rightarrow> error_storage" where
  "aggregation_task re cfg es m = fold (aggregate re cfg) es m"

definition stats_entry :: "error_stats \<Rightarrow> error_entry" where
  "stats_entry s = \<lparr>en_message = es_message s, en_timestamp = es_last_seen s, en_target = es_target s, en_count = es_count s\<rparr>"

text \<open>\<open>sort_by\<close> is the caller's sorting; by default the most recent comes first, ties in table order.\<close>

definition get_errors ::
  "nat \<Rightarrow> nat \<Rightarrow> (error_entry list \<Rightarrow> error_entry list) option \<Rightarrow> error_storage \<Rightarrow> error_entry list" where
  "get_errors limit offset sort_by m =
     (let entries = map (stats_entry \<circ> snd) m;
          entries = (case sort_by of Some f \<Rightarrow> f entries | None \<Rightarrow> sort_key (\<lambda>e. - en_timestamp e) entries) in
      take limit (drop offset entries))"

definition get_stats :: "nat \<Rightarrow> nat \<Rightarrow> error_storage \<Rightarrow> error_stats list" where
  "get_stats limit offset m = take limit (drop offset (sort_key (\<lambda>s. - es_last_seen s) (map snd m)))"

definition error_count :: "error_storage \<Rightarrow> nat" where "error_count m = length m"

definition error_clear :: "error_storage \<Rightarrow> error_storage" where "error_clear m = []"

definition get_all_errors :: "error_aggregation_config \<Rightarrow> error_storage \<Rightarrow> error_entry list" where
  "get_all_errors cfg m = get_errors (ea_limit cfg) 0 None m"

definition get_latest :: "nat \<Rightarrow> error_storage \<Rightarrow> error_entry list" where
  "get_latest n m = get_errors n 0 None m"

text \<open>
  An event: whether it is of level ERROR, its target and its fields with the \<open>Debug\<close> text of their
  values. What is printed of a field is its name.
\<close>

record event_record =
  ev_is_error :: bool
  ev_target :: string
  ev_fields :: "(string \<times> string) list"

definition unquote :: "string \<Rightarrow> string" where
  "unquote s =
     (if s \<noteq> [] \<and> hd s = CHR 0x22 \<and> last s = CHR 0x22 \<and> length s > 1 then butlast (tl s) else s)"

fun record_debug :: "string \<times> string \<Rightarrow> string \<Rightarrow> string" where
  "record_debug (name, dbg) message = (if name = ''message'' then unquote dbg else message)"

definition find_or_first :: "('a \<Rightarrow> bool) \<Rightarrow> 'a list \<Rightarrow> 'a option" where
  "find_or_first p xs =
     (case find p xs of Some x \<Rightarrow> Some x | None \<Rightarrow> (case xs of [] \<Rightarrow> None | x # _ \<Rightarrow> Some x))"

definition on_event :: "int \<Rightarrow> event_record \<Rightarrow> error_entry option" where
  "on_event now ev =
     (if \<not> ev_is_error ev then None
      else
        (let location = find_or_first (\<lambda>n. n = ''caller_location'') (map fst (ev_fields ev));
             target = (case location of Some l \<Rightarrow> l @ '' ('' @ ev_target ev @ '')'' | None \<Rightarrow> ev_target ev) in
         Some \<lparr>en_message = fold record_debug (ev_fields ev) [], en_timestamp = now, en_target = target, en_count = 1\<rparr>))"

section \<open>The table\<close>

text \<open>What the table should say of a key after the entries \<open>es\<close>.\<close>

definition summary :: "(error_entry \<Rightarrow> error_key) \<Rightarrow> error_entry list \<Rightarrow> error_key \<Rightarrow> error_stats option" where
  "summary key es k =
     (let xs = filter (\<lambda>e. key e = k) es in
      if xs = [] then None
      else Some \<lparr>es_count = length xs, es_first_seen = en_timestamp (hd xs), es_last_seen = en_timestamp (last xs),
        es_message = en_message (last xs), es_target = en_target (hd xs), es_normalized_key = ek_normalized_message k\<rparr>)"

lemma summary_snoc:
  "summary key (es @ [e]) k =
     (if key e = k
      then Some (case summary key es k of None \<Rightarrow> fresh_stats k e | Some s \<Rightarrow> bump_stats e s)
      else summary key es k)"
  by (auto simp: summary_def Let_def fresh_stats_def bump_stats_def)

lemma map_of_bump:
  "map_of (map (\<lambda>(k, s). if k = key then (k, f s) else (k, s)) m) k' =
     (if k' = key then map_option f (map_of m key) else map_of m k')"
  by (induction m) auto

lemma fst_bump: "map (fst \<circ> (\<lambda>(k, s). if k = key then (k, f s) else (k, s))) m = map fst m"
  by (induction m) auto

lemma dom_summary: "dom (summary key es) = key ` set es"
  by (auto simp: summary_def dom_def Let_def filter_empty_conv)

lemma oldest_Some:
  "m \<noteq> [] \<Longrightarrow> \<exists>k s. oldest m = Some (k, s) \<and> (k, s) \<in> set m \<and> (\<forall>(k', s') \<in> set m. es_first_seen s \<le> es_first_seen s')"
proof (induction m rule: oldest.induct)
  case (2 k s m)
  show ?case
  proof (cases "m = []")
    case False
    with 2 obtain k' s' where "oldest m = Some (k', s')" "(k', s') \<in> set m"
        "\<forall>(k'', s'') \<in> set m. es_first_seen s' \<le> es_first_seen s''"
      by auto
    then show ?thesis
      by (cases "es_first_seen s \<le> es_first_seen s'") force+
  qed simp
qed simp

lemma distinct_remove_key:
  "distinct (map fst m) \<Longrightarrow> (k, s) \<in> set m \<Longrightarrow> length (filter (\<lambda>(k', _). k' \<noteq> k) m) = length m - 1"
proof (induction m)
  case (Cons x m)
  have "fst x = k \<Longrightarrow> filter (\<lambda>(k', _). k' \<noteq> k) m = m"
    using Cons.prems(1) by (intro filter_True) (auto intro: rev_image_eqI)
  moreover have "fst x \<noteq> k \<Longrightarrow> length (filter (\<lambda>(k', _). k' \<noteq> k) m) = length m - 1 \<and> m \<noteq> []"
    using Cons by auto
  ultimately show ?case
    by (cases x; cases "fst x = k") auto
qed simp

lemma evict_spec:
  assumes "m \<noteq> []"
  shows "\<exists>k s. (k, s) \<in> set m \<and> (\<forall>(k', s') \<in> set m. es_first_seen s \<le> es_first_seen s') \<and>
    evict m = filter (\<lambda>(k', _). k' \<noteq> k) m"
proof -
  obtain k s where "oldest m = Some (k, s)" "(k, s) \<in> set m"
      "\<forall>(k', s') \<in> set m. es_first_seen s \<le> es_first_seen s'"
    using oldest_Some [OF assms] by blast
  then show ?thesis
    by (intro exI [of _ k] exI [of _ s]) (simp add: evict_def)
qed

lemma evict_props:
  assumes "distinct (map fst m)"
  shows "distinct (map fst (evict m))" "length (evict m) = length m - 1" "set (evict m) \<subseteq> set m"
proof -
  show "distinct (map fst (evict m))"
    using assms by (simp add: evict_def distinct_map_filter split: option.split)
  show "length (evict m) = length m - 1"
    using evict_spec [of m] distinct_remove_key [OF assms] by (cases "m = []") (auto simp: evict_def)
  show "set (evict m) \<subseteq> set m"
    by (auto simp: evict_def split: option.split)
qed

lemma aggregate_inv:
  assumes "distinct (map fst m)" and "length m \<le> max 1 (ea_limit cfg)"
  shows "distinct (map fst (aggregate re cfg e m))" "length (aggregate re cfg e m) \<le> max 1 (ea_limit cfg)"
    "map_of (aggregate re cfg e m) (entry_key re cfg e) \<noteq> None"
proof -
  let ?key = "entry_key re cfg e"
  have fresh: "map_of m ?key = None \<Longrightarrow> ?key \<notin> fst ` set m \<and> ?key \<notin> fst ` set (evict m)"
    using evict_props(3) [OF assms(1)] unfolding map_of_eq_None_iff by blast
  show "distinct (map fst (aggregate re cfg e m))"
    using assms(1) evict_props(1) [OF assms(1)] fresh
    by (cases "map_of m ?key") (auto simp: aggregate_def Let_def fst_bump simp del: map_of_eq_None_iff not_None_eq)
  show "length (aggregate re cfg e m) \<le> max 1 (ea_limit cfg)"
    using assms(2) evict_props(2) [OF assms(1)] by (auto simp: aggregate_def Let_def)
  show "map_of (aggregate re cfg e m) ?key \<noteq> None"
    by (auto simp: aggregate_def Let_def map_of_bump map_add_def split: option.split)
qed

text \<open>
  What a table owes to the entries \<open>es\<close> received since it was empty: at most the configured number of rows
  (but always room for one), no key twice, a row for the latest error, and, as long as there are no more
  different errors than rows, exactly their summary.
\<close>

definition digest :: "replace_all \<Rightarrow> error_aggregation_config \<Rightarrow> error_entry list \<Rightarrow> error_storage \<Rightarrow> bool" where
  "digest re cfg es m \<longleftrightarrow>
     length m \<le> max 1 (ea_limit cfg) \<and> distinct (map fst m) \<and>
     (es \<noteq> [] \<longrightarrow> map_of m (entry_key re cfg (last es)) \<noteq> None) \<and>
     (card (entry_key re cfg ` set es) \<le> ea_limit cfg \<longrightarrow> map_of m = summary (entry_key re cfg) es)"

lemma digest_new: "digest re cfg [] storage_new"
  by (auto simp: digest_def storage_new_def summary_def)

text \<open>The order of the rows does not matter.\<close>

lemma digest_rehash:
  assumes "digest re cfg es m" and "mset m' = mset m"
  shows "digest re cfg es m'"
proof -
  have "distinct (map fst m')" "length m' = length m"
    using assms mset_eq_imp_distinct_iff [of "map fst m'" "map fst m"] mset_eq_length [OF assms(2)]
    by (simp_all add: digest_def)
  moreover from this have "map_of m' = map_of m"
    using assms mset_eq_setD [OF assms(2)] by (subst map_of_inject_set) (simp_all add: digest_def)
  ultimately show ?thesis
    using assms(1) unfolding digest_def by metis
qed

lemma aggregate_summary:
  assumes "digest re cfg es m" and "card (entry_key re cfg ` set (es @ [e])) \<le> ea_limit cfg"
  shows "map_of (aggregate re cfg e m) = summary (entry_key re cfg) (es @ [e])"
proof -
  let ?key = "entry_key re cfg"
  have "card (?key ` set es) \<le> card (?key ` set (es @ [e]))"
    by (rule card_mono) auto
  then have table: "map_of m = summary ?key es"
    using assms by (simp add: digest_def)
  have keys: "set (map fst m) = ?key ` set es"
    using arg_cong [OF table, of dom] by (simp add: dom_map_of_conv_image_fst dom_summary)
  show ?thesis
  proof (cases "map_of m (?key e)")
    case None
    then have new: "?key e \<notin> ?key ` set es"
      using keys by (simp add: map_of_eq_None_iff)
    have "length m = card (?key ` set es)"
      using assms(1) keys distinct_card [of "map fst m"] by (simp add: digest_def)
    then have "length m < ea_limit cfg"
      using new assms(2) by (simp add: card_insert_if)
    then show ?thesis
      using None table
      by (auto simp: aggregate_def Let_def summary_snoc fun_eq_iff map_add_def split: option.split)
  next
    case (Some s)
    then show ?thesis
      using table by (auto simp: aggregate_def Let_def summary_snoc fun_eq_iff map_of_bump)
  qed
qed

lemma aggregate_digest: "digest re cfg es m \<Longrightarrow> digest re cfg (es @ [e]) (aggregate re cfg e m)"
  using aggregate_inv [of m cfg re e] aggregate_summary [of re cfg es m e]
  unfolding digest_def by fastforce

text \<open>A full table without the new error gives up a row whose error was seen first.\<close>

lemma aggregate_full:
  assumes "map_of m (entry_key re cfg e) = None" and "ea_limit cfg \<le> length m" and "m \<noteq> []"
  shows "\<exists>k s. (k, s) \<in> set m \<and> (\<forall>(k', s') \<in> set m. es_first_seen s \<le> es_first_seen s') \<and>
    aggregate re cfg e m =
      filter (\<lambda>(k', _). k' \<noteq> k) m @ [(entry_key re cfg e, fresh_stats (entry_key re cfg e) e)]"
  using evict_spec [OF assms(3)] assms(1,2) by (auto simp: aggregate_def Let_def)

section \<open>Queries\<close>

text \<open>The pages of a query, one after the other, are the whole table, most recent error first.\<close>

lemma get_errors_pages:
  "concat (map (\<lambda>i. get_errors n (i * n) None m) [0 ..< p]) = get_errors (p * n) 0 None m"
proof (induction p)
  case (Suc p)
  then show ?case
    by (simp add: get_errors_def Let_def take_add add.commute [of n])
qed (simp add: get_errors_def)

lemma get_errors_recent_first:
  "sorted (map (\<lambda>e. - en_timestamp e) (get_errors n k None m))"
  by (simp add: get_errors_def Let_def sorted_wrt_take sorted_wrt_drop flip: take_map drop_map)

lemma get_latest_all: "mset (get_latest (error_count m) m) = mset (map (stats_entry \<circ> snd) m)"
  by (simp add: get_latest_def get_errors_def error_count_def)

section \<open>Events\<close>

text \<open>
  What an event's target shows of its fields is a name: the value of \<open>caller_location\<close>, or of any
  field but the message, makes no difference to the entry.
\<close>

lemma fold_record_debug:
  "fold record_debug fs msg = (case find (\<lambda>f. fst f = ''message'') (rev fs) of Some (_, d) \<Rightarrow> unquote d | None \<Rightarrow> msg)"
  by (induction fs rule: rev_induct) (auto split: prod.splits)

lemma find_filter: "find P xs = (case filter P xs of [] \<Rightarrow> None | x # _ \<Rightarrow> Some x)"
  by (induction xs) auto

lemma on_event_ignores_values:
  assumes "map fst (ev_fields ev) = map fst (ev_fields ev')"
    and "filter (\<lambda>f. fst f = ''message'') (ev_fields ev) = filter (\<lambda>f. fst f = ''message'') (ev_fields ev')"
    and "ev_is_error ev = ev_is_error ev'" and "ev_target ev = ev_target ev'"
  shows "on_event now ev = on_event now ev'"
  using assms by (simp add: on_event_def fold_record_debug find_filter split: option.split flip: rev_filter)

section \<open>The pipeline\<close>

text \<open>
  The container with its layer: the events go through an unbounded channel to the background task, which
  runs on another thread. Dropping the container asks the runtime to cancel the task; the runtime drops it,
  and with it the receiving end, at some later moment. The rows are listed in the order a walk over the
  hash map visits them, which may be another one at any time (\<open>PRehash\<close>).
\<close>

record error_container =
  ec_storage :: error_storage
  ec_channel :: "error_entry list"
  ec_running :: bool
  ec_cancelled :: bool
  ec_config :: error_aggregation_config

definition container_new :: "error_aggregation_config \<Rightarrow> error_container" where
  "container_new cfg =
     \<lparr>ec_storage = storage_new, ec_channel = [], ec_running = True, ec_cancelled = False, ec_config = cfg\<rparr>"

text \<open>A send to a channel whose receiver is gone is an error that the layer ignores.\<close>

definition layer_event :: "int \<Rightarrow> event_record \<Rightarrow> error_container \<Rightarrow> error_container" where
  "layer_event now ev c =
     (case on_event now ev of
        Some e \<Rightarrow> if ec_running c then c\<lparr>ec_channel := ec_channel c @ [e]\<rparr> else c
      | None \<Rightarrow> c)"

definition task_next :: "replace_all \<Rightarrow> error_container \<Rightarrow> error_container" where
  "task_next re c =
     (case ec_channel c of
        e # es \<Rightarrow>
          if ec_running c
          then c\<lparr>ec_storage := aggregate re (ec_config c) e (ec_storage c), ec_channel := es\<rparr>
          else c
      | [] \<Rightarrow> c)"

definition container_clear :: "error_container \<Rightarrow> error_container" where
  "container_clear c = c\<lparr>ec_storage := error_clear (ec_storage c)\<rparr>"

definition container_drop :: "error_container \<Rightarrow> error_container" where
  "container_drop c = c\<lparr>ec_cancelled := True\<rparr>"

text \<open>The end of a cancelled task: its receiver goes, and what is in the channel with it.\<close>

definition task_dropped :: "error_container \<Rightarrow> error_container" where
  "task_dropped c = c\<lparr>ec_running := False, ec_channel := []\<rparr>"

datatype pipe_event = PLog int event_record | PNext | PClear | PDrop | PStop | PRehash

inductive pipeline_step :: "replace_all \<Rightarrow> error_container \<Rightarrow> pipe_event \<Rightarrow> error_container \<Rightarrow> bool" for re where
  log: "pipeline_step re c (PLog now ev) (layer_event now ev c)"
| receive: "pipeline_step re c PNext (task_next re c)"
| clear: "pipeline_step re c PClear (container_clear c)"
| drop: "pipeline_step re c PDrop (container_drop c)"
| stop: "ec_cancelled c \<Longrightarrow> pipeline_step re c PStop (task_dropped c)"
| rehash: "mset m = mset (ec_storage c) \<Longrightarrow> pipeline_step re c PRehash (c\<lparr>ec_storage := m\<rparr>)"

inductive pipeline_run :: "replace_all \<Rightarrow> error_container \<Rightarrow> pipe_event list \<Rightarrow> error_container \<Rightarrow> bool" for re c0 where
  none: "pipeline_run re c0 [] c0"
| more: "pipeline_run re c0 evs c \<Longrightarrow> pipeline_step re c ev c' \<Longrightarrow> pipeline_run re c0 (evs @ [ev]) c'"

inductive_cases pipeline_stepE: "pipeline_step re c ev c'"

text \<open>The errors among the events of a run, in the order they were logged.\<close>

fun logged :: "pipe_event \<Rightarrow> error_entry list" where
  "logged (PLog now ev) = (case on_event now ev of Some e \<Rightarrow> [e] | None \<Rightarrow> [])"
| "logged _ = []"

definition errors_of :: "pipe_event list \<Rightarrow> error_entry list" where
  "errors_of evs = concat (map logged evs)"

lemma errors_of_simps [simp]: "errors_of [] = []" "errors_of (evs @ [ev]) = errors_of evs @ logged ev"
  by (simp_all add: errors_of_def)

text \<open>What was logged since the table was empty is what the task has taken and what is still in the channel.\<close>

definition in_transit ::
  "replace_all \<Rightarrow> error_aggregation_config \<Rightarrow> error_entry list \<Rightarrow> error_entry list \<Rightarrow> error_container \<Rightarrow> bool" where
  "in_transit re cfg es taken c \<longleftrightarrow>
     es = taken @ ec_channel c \<and> ec_running c \<and> ec_config c = cfg \<and> digest re cfg taken (ec_storage c)"

lemma in_transit_next:
  assumes "in_transit re cfg es taken c"
  shows "\<exists>taken. in_transit re cfg es taken (task_next re c)"
proof (cases "ec_channel c")
  case (Cons e q)
  then have "in_transit re cfg es (taken @ [e]) (task_next re c)"
    using assms aggregate_digest [of re cfg taken "ec_storage c" e] by (simp add: in_transit_def task_next_def)
  then show ?thesis ..
qed (use assms in \<open>auto simp: in_transit_def task_next_def\<close>)

lemma pipeline_in_transit:
  assumes "pipeline_run re c0 evs c" and "ec_running c0" and "ec_storage c0 = []" and "PClear \<notin> set evs" and "PStop \<notin> set evs"
  shows "\<exists>taken. in_transit re (ec_config c0) (ec_channel c0 @ errors_of evs) taken c"
  using assms(1,4,5)
proof (induction rule: pipeline_run.induct)
  case none
  show ?case
    using assms(2,3) digest_new [of re "ec_config c0"] by (auto simp: in_transit_def storage_new_def)
next
  case (more evs c ev c')
  then obtain taken where t: "in_transit re (ec_config c0) (ec_channel c0 @ errors_of evs) taken c" by auto
  from more.hyps(2) show ?case
  proof cases
    case receive
    with in_transit_next [OF t] show ?thesis by simp
  next
    case (rehash m)
    with t digest_rehash [of re "ec_config c0" taken "ec_storage c" m] show ?thesis
      by (auto simp: in_transit_def)
  qed (use t more.prems in \<open>auto simp: in_transit_def layer_event_def container_drop_def split: option.split\<close>)
qed

text \<open>The task, left alone, takes the whole channel.\<close>

lemma pipeline_drains:
  assumes "in_transit re cfg es taken c"
  shows "ec_channel ((task_next re ^^ length (ec_channel c)) c) = [] \<and>
    in_transit re cfg es es ((task_next re ^^ length (ec_channel c)) c)"
  using assms
proof (induction "length (ec_channel c)" arbitrary: c taken)
  case (Suc n)
  then obtain e q where q: "ec_channel c = e # q" by (cases "ec_channel c") auto
  with Suc.prems have "ec_channel (task_next re c) = q" by (simp add: task_next_def in_transit_def)
  moreover obtain taken' where "in_transit re cfg es taken' (task_next re c)"
    using in_transit_next [OF Suc.prems] by blast
  ultimately show ?case
    using Suc.hyps(1) [of "task_next re c" taken'] Suc.hyps(2) q by (simp add: funpow_swap1)
qed (simp add: in_transit_def)

text \<open>After the task is gone nothing is recorded any more.\<close>

lemma pipeline_stopped:
  assumes "pipeline_run re c0 evs c" and "\<not> ec_running c0" and "PClear \<notin> set evs"
  shows "\<not> ec_running c \<and> mset (ec_storage c) = mset (ec_storage c0)"
  using assms(1,3)
proof (induction rule: pipeline_run.induct)
  case (more evs c ev c')
  from more.hyps(2) more show ?case
    by cases (auto simp: layer_event_def task_next_def container_drop_def task_dropped_def split: option.split list.split)
qed (use assms(2) in simp)

text \<open>
  C30. The table of recent errors is a faithful digest, whatever the interleaving of the threads that log
  errors, the background task and the drop of the container, and whatever the order of the hash map. Start
  from an empty table, a new one or one just cleared. Every error logged since then was taken by
  the task or is still in the channel, in the order of logging: none is lost while the task lives. Of the
  errors taken, the table has at most the configured number of rows, except that a limit of zero
  still keeps one; it has no key twice, and the latest error is in it; a full table gives up a row than which none was
  seen earlier. As long as there were no more different errors than rows, the table says of each exactly how
  often it occurred, when first and last, and its latest message. Left alone the task takes everything that is in
  the channel; once it is gone, the rows no longer change.
\<close>
theorem error_table_digest:
  assumes "pipeline_run re c0 evs c" and "ec_running c0" and "ec_storage c0 = []" and "PClear \<notin> set evs" and "PStop \<notin> set evs"
  shows "let cfg = ec_config c0; m = ec_storage c; es = ec_channel c0 @ errors_of evs in
    \<exists>taken. es = taken @ ec_channel c \<and>
      length m \<le> max 1 (ea_limit cfg) \<and> distinct (map fst m) \<and>
      (taken \<noteq> [] \<longrightarrow> map_of m (entry_key re cfg (last taken)) \<noteq> None) \<and>
      (\<forall>e. map_of m (entry_key re cfg e) = None \<and> ea_limit cfg \<le> length m \<and> m \<noteq> [] \<longrightarrow>
        (\<exists>k s. (k, s) \<in> set m \<and> (\<forall>(k', s') \<in> set m. es_first_seen s \<le> es_first_seen s') \<and>
          aggregate re cfg e m =
            filter (\<lambda>(k', _). k' \<noteq> k) m @ [(entry_key re cfg e, fresh_stats (entry_key re cfg e) e)])) \<and>
      (card (entry_key re cfg ` set taken) \<le> ea_limit cfg \<longrightarrow> map_of m = summary (entry_key re cfg) taken) \<and>
      (let c' = (task_next re ^^ length (ec_channel c)) c
       in ec_channel c' = [] \<and> digest re cfg es (ec_storage c')) \<and>
      (\<forall>evs' c'. pipeline_run re (task_dropped c) evs' c' \<and> PClear \<notin> set evs' \<longrightarrow> mset (ec_storage c') = mset m)"
proof -
  obtain taken where t: "in_transit re (ec_config c0) (ec_channel c0 @ errors_of evs) taken c"
    using pipeline_in_transit [OF assms] by blast
  have "mset (ec_storage c') = mset (ec_storage c)"
    if "pipeline_run re (task_dropped c) evs' c'" "PClear \<notin> set evs'" for evs' c'
    using pipeline_stopped [OF that(1) _ that(2)] by (simp add: task_dropped_def)
  moreover note pipeline_drains [OF t]
  ultimately show ?thesis
    using t aggregate_full [of "ec_storage c"] unfolding Let_def in_transit_def digest_def
    by (intro exI [of _ taken]) blast
qed

definition sample_event :: "string \<Rightarrow> event_record" where
  "sample_event msg = \<lparr>ev_is_error = True, ev_target = ''core'', ev_fields = [(''message'', msg)]\<rparr>"

theorem error_table_digest_witness:
  "\<exists>c :: error_container. ec_channel c = [] \<and>
     map_of (ec_storage c) \<lparr>ek_target = ''message (core)'', ek_normalized_message = ''disk full''\<rparr> =
     Some \<lparr>es_count = 2, es_first_seen = 1, es_last_seen = 2, es_message = ''disk full'', es_target = ''message (core)'',
       es_normalized_key = ''disk full''\<rparr>"
proof -
  let ?re = "\<lambda>p s r. s" and ?cfg = "\<lparr>ea_limit = 2, ea_normalize = False\<rparr>"
  let ?c0 = "container_new ?cfg"
  let ?e1 = "PLog 1 (sample_event ''disk full'')" and ?e2 = "PLog 2 (sample_event ''disk full'')"
  let ?c1 = "layer_event 1 (sample_event ''disk full'') ?c0"
  let ?c2 = "layer_event 2 (sample_event ''disk full'') ?c1"
  let ?c3 = "task_next ?re ?c2"
  let ?c4 = "task_next ?re ?c3"
  have "pipeline_run ?re ?c0 ((((([] @ [?e1]) @ [?e2]) @ [PNext]) @ [PNext])) ?c4"
    by (rule pipeline_run.intros pipeline_step.intros)+
  then have run: "pipeline_run ?re ?c0 [?e1, ?e2, PNext, PNext] ?c4" by simp
  let ?es = "map (\<lambda>t. \<lparr>en_message = ''disk full'', en_timestamp = t, en_target = ''message (core)'', en_count = 1\<rparr>) [1, 2]"
  have es: "ec_channel ?c0 @ errors_of [?e1, ?e2, PNext, PNext] = ?es" "ec_channel ?c4 = []" "ec_config ?c0 = ?cfg"
    by (simp_all add: container_new_def layer_event_def sample_event_def on_event_def find_or_first_def task_next_def
        unquote_def errors_of_def Let_def)
  have table: "map_of (ec_storage ?c4) = summary (entry_key ?re ?cfg) ?es"
    using error_table_digest [OF run] unfolding Let_def es
    by (simp add: entry_key_def container_new_def storage_new_def)
  show ?thesis
    by (rule exI [of _ ?c4], unfold table) (simp add: entry_key_def summary_def es(2))
qed

end
