(* ===== verification/Logging.thy ===== *)
theory Logging
  imports Level_Filter Error_Aggregation
begin

text \<open>
  \<open>src/libs/log.rs\<close> and \<open>src/libs/log/legacy.rs\<close>: setting up logging. The layers themselves are those of
  \<open>tracing\<close>; modelled is what is configured, in which order, and how it can fail, with the features
  \<open>error_aggregation\<close> and \<open>log_throttling\<close> on. \<open>rate_ok\<close> is whether the rate limiter can be built
  (a panic, \<open>None\<close>, if not), \<open>open_file\<close> opens a rolling file. Durations are seconds.
\<close>

section \<open>Configuration\<close>

record otel_config =
  oc_enabled :: bool
  oc_service_name :: "string option"
  oc_endpoint :: "string option"
  oc_headers :: "string \<Rightarrow> string option"

datatype log_rotation = MINUTELY | HOURLY | DAILY | NEVER

record file_logging_config =
  fl_path :: string
  fl_file_prefix :: "string option"
  fl_rotation :: "log_rotation option"

record log_throttling_config =
  lt_summary_emission_interval :: "nat option"
  lt_metrics_emission_interval :: "nat option"
  lt_excluded_fields :: "string list option"
  lt_exemptions :: "string list option"

definition throttling_default :: log_throttling_config where
  "throttling_default =
     \<lparr>lt_summary_emission_interval = None, lt_metrics_emission_interval = None, lt_excluded_fields = None,
      lt_exemptions = None\<rparr>"

record logging_config =
  lc_level :: log_level
  lc_file_config :: "file_logging_config option"
  lc_otel_config :: otel_config
  lc_error_aggregation :: error_aggregation_config
  lc_throttling_config :: "log_throttling_config option"

section \<open>Building\<close>

definition unwrap_or :: "'a \<Rightarrow> 'a option \<Rightarrow> 'a" where
  "unwrap_or d x = (case x of Some v \<Rightarrow> v | None \<Rightarrow> d)"

record rate_limit =
  rl_excluded_fields :: "string list"
  rl_exempt_targets :: "string list"
  rl_active_emission :: bool
  rl_summary_interval :: nat
  rl_metrics_every :: "nat option"

definition rate_limit_filter :: "log_throttling_config option \<Rightarrow> rate_limit" where
  "rate_limit_filter cfg =
     (let t = unwrap_or throttling_default cfg in
      \<lparr>rl_excluded_fields = unwrap_or [] (lt_excluded_fields t),
       rl_exempt_targets = ''tracing_throttle::infrastructure::layer'' # unwrap_or [] (lt_exemptions t),
       rl_active_emission = (lt_summary_emission_interval t \<noteq> None),
       rl_summary_interval = unwrap_or (5 * 60) (lt_summary_emission_interval t),
       rl_metrics_every = lt_metrics_emission_interval t\<rparr>)"

record appender =
  ap_rotation :: log_rotation
  ap_prefix :: string
  ap_suffix :: string
  ap_path :: string

text \<open>\<open>now\<close> is the time as text, the prefix when none is given.\<close>

definition file_appender :: "string \<Rightarrow> file_logging_config \<Rightarrow> appender" where
  "file_appender now fc =
     \<lparr>ap_rotation = unwrap_or NEVER (fl_rotation fc), ap_prefix = unwrap_or now (fl_file_prefix fc),
      ap_suffix = ''log'', ap_path = fl_path fc\<rparr>"

datatype log_layer = Stdout_Layer | File_Layer appender rate_limit | Error_Layer error_aggregation_config

text \<open>The subscriber: its global filter and the layers behind it, and what was warned about on the way.\<close>

record 'f logging_parts =
  lp_filter :: 'f
  lp_layers :: "log_layer list"
  lp_throttling :: rate_limit
  lp_warned :: "string option"

definition build_logging_subscriber ::
  "(log_level \<Rightarrow> ('f, 'e) result) \<Rightarrow> (rate_limit \<Rightarrow> bool) \<Rightarrow> (appender \<Rightarrow> (unit, 'e) result) \<Rightarrow> string \<Rightarrow> logging_config
    \<Rightarrow> ('f logging_parts, 'e) result option" where
  "build_logging_subscriber build_filter rate_ok open_file now cfg =
     (case build_filter (lc_level cfg) of
        Err e \<Rightarrow> Some (Err e)
      | Ok flt \<Rightarrow>
          (let rl = rate_limit_filter (lc_throttling_config cfg) in
           if \<not> rate_ok rl then None
           else
             (let file = map_option (file_appender now) (lc_file_config cfg) in
              case (case file of Some a \<Rightarrow> open_file a | None \<Rightarrow> Ok ()) of
                Err e \<Rightarrow> Some (Err e)
              | Ok _ \<Rightarrow>
                  Some (Ok
                    \<lparr>lp_filter = flt,
                     lp_layers =
                       [Stdout_Layer] @ (case file of Some a \<Rightarrow> [File_Layer a rl] | None \<Rightarrow> []) @
                       [Error_Layer (lc_error_aggregation cfg)],
                     lp_throttling = rl,
                     lp_warned =
                       (if oc_enabled (lc_otel_config cfg)
                        then Some (unwrap_or ''unset'' (oc_endpoint (lc_otel_config cfg))) else None)\<rparr>))))"

text \<open>\<open>setup_logging\<close> installs the subscriber; \<open>init\<close> panics if there is one already.\<close>

definition setup_logging ::
  "(log_level \<Rightarrow> ('f, 'e) result) \<Rightarrow> (rate_limit \<Rightarrow> bool) \<Rightarrow> (appender \<Rightarrow> (unit, 'e) result) \<Rightarrow> string \<Rightarrow> logging_config
    \<Rightarrow> 'f logging_parts option \<Rightarrow> ('f logging_parts option \<times> (unit, 'e) result) option" where
  "setup_logging build_filter rate_ok open_file now cfg installed =
     (case build_logging_subscriber build_filter rate_ok open_file now cfg of
        None \<Rightarrow> None
      | Some (Err e) \<Rightarrow> Some (installed, Err e)
      | Some (Ok parts) \<Rightarrow> if installed = None then Some (Some parts, Ok ()) else None)"

text \<open>
  Every subscriber that is built writes to standard output and aggregates errors, has the file exactly
  when one is configured, and never throttles the throttle's own messages.
\<close>

lemma build_logging_subscriber_layers:
  assumes "build_logging_subscriber build_filter rate_ok open_file now cfg = Some (Ok parts)"
  shows "build_filter (lc_level cfg) = Ok (lp_filter parts) \<and> hd (lp_layers parts) = Stdout_Layer \<and>
    last (lp_layers parts) = Error_Layer (lc_error_aggregation cfg) \<and>
    ((\<exists>a rl. File_Layer a rl \<in> set (lp_layers parts)) \<longleftrightarrow> lc_file_config cfg \<noteq> None) \<and>
    hd (rl_exempt_targets (lp_throttling parts)) = ''tracing_throttle::infrastructure::layer''"
  using assms
  by (auto simp: build_logging_subscriber_def rate_limit_filter_def Let_def split: result.splits option.splits if_splits)

text \<open>A failed setup leaves the installed subscriber alone.\<close>

lemma setup_logging_failure:
  "setup_logging build_filter rate_ok open_file now cfg installed = Some (installed', Err e) \<Longrightarrow> installed' = installed"
  by (auto simp: setup_logging_def split: option.splits result.splits if_splits)

section \<open>Where an error came from\<close>

record 'h custom_eyre_handler =
  ce_default_handler :: 'h
  ce_location :: "string option"

definition default_with_location_saving :: "'h \<Rightarrow> 'h custom_eyre_handler" where
  "default_with_location_saving dflt = \<lparr>ce_default_handler = dflt, ce_location = None\<rparr>"

definition get_location :: "'h custom_eyre_handler \<Rightarrow> string option" where
  "get_location h = ce_location h"

definition track_caller :: "(string \<Rightarrow> 'h \<Rightarrow> 'h) \<Rightarrow> string \<Rightarrow> 'h custom_eyre_handler \<Rightarrow> 'h custom_eyre_handler" where
  "track_caller track location h =
     h\<lparr>ce_location := Some location, ce_default_handler := track location (ce_default_handler h)\<rparr>"

lemma location_saved: "get_location (track_caller track l h) = Some l"
  by (simp add: get_location_def track_caller_def)

text \<open>
  The location is recorded in a field of the event so that the target of the aggregated error shows it;
  what the target shows is the field's name.
\<close>

lemma find_eq: "x \<in> set xs \<Longrightarrow> find (\<lambda>n. n = x) xs = Some x"
  by (induction xs) auto

lemma caller_location_not_shown:
  assumes "(''caller_location'', loc) \<in> set (ev_fields ev)" and "ev_is_error ev"
  shows "map_option en_target (on_event now ev) = Some (''caller_location ('' @ ev_target ev @ '')'')"
proof -
  have "find (\<lambda>n. n = ''caller_location'') (map fst (ev_fields ev)) = Some ''caller_location''"
    using assms(1) by (intro find_eq) force
  then show ?thesis
    using assms(2) by (simp add: on_event_def find_or_first_def)
qed

section \<open>Deprecated helpers\<close>

datatype logging_guard = NonBlocking string | StdoutWithPath "string option"

fun get_file :: "logging_guard \<Rightarrow> string option" where
  "get_file (NonBlocking p) = Some p"
| "get_file (StdoutWithPath p) = p"

text \<open>
  The files of a disk with their contents. \<open>creatable\<close> and \<open>removable\<close> say what the system allows; creating
  a file that exists empties it.
\<close>

definition can_create_file_in_directory ::
  "(string \<Rightarrow> bool) \<Rightarrow> (string \<Rightarrow> bool) \<Rightarrow> string \<Rightarrow> (string \<Rightarrow> string option) \<Rightarrow> (string \<Rightarrow> string option) \<times> bool" where
  "can_create_file_in_directory creatable removable directory fs =
     (let f = directory @ ''/test_file.txt'' in
      if creatable f
      then (let fs' = fs(f \<mapsto> []) in (if removable f then fs'(f := None) else fs', True))
      else (fs, False))"

text \<open>
  The probe leaves every other file alone, and the disk as it was unless a file of its name was there:
  that one is gone.
\<close>

lemma probe_destroys_existing_file:
  "can_create_file_in_directory creatable removable d fs = (fs', r) \<Longrightarrow>
     r = creatable (d @ ''/test_file.txt'') \<and>
     (\<forall>f. f \<noteq> d @ ''/test_file.txt'' \<longrightarrow> fs' f = fs f) \<and>
     (r \<longrightarrow> fs' (d @ ''/test_file.txt'') \<in> {None, Some []}) \<and> (\<not> r \<longrightarrow> fs' = fs)"
  by (auto simp: can_create_file_in_directory_def Let_def split: if_splits)

end
