(* ===== verification/Spec2Isabelle.thy ===== *)
theory Spec2Isabelle
  imports Framed Api_Document Signal Push Client Mcp_Wire Streams Shards Hub_Table Scheduler Support Log_Reader Logging
begin

text \<open>
  A verification of \<open>endpoint-libs\<close>, a Rust library for endpoint servers: typed requests and streams over
  WebSocket, MCP over the same socket or over local transports, with authentication in the upgrade header,
  admission limits, subscriptions and logging. Paths below are relative to \<open>src/src\<close>.

  \<^bold>\<open>How the program works.\<close> A server is built from a configuration, endpoints, hooks and an auth
  controller. \<open>listen\<close> resolves and binds its address and serves it on one or more threads. Every accepted
  connection takes a slot, is upgraded from HTTP, authenticated, entered in a table and served by a
  session: a loop over finished handlers, outbound frames, inbound frames and a flag that ends it. An
  inbound frame is a legacy request or a JSON-RPC one; an admitted request becomes a task, which runs the
  hooks and the handler and hands its answer to the toolbox; the toolbox puts it into the outbound queue
  of the connection, from where the session writes it. Handlers and publishers reach other connections
  through the same toolbox.

  \<^bold>\<open>Theories and sources.\<close>

  \<^item> \<open>Prelude\<close>: machine types, \<open>Result\<close>, \<open>Poll\<close>, numbers as text, UTF-8, trimming and splitting, with
    the lemmas every component uses. \<open>Json\<close>: values of \<open>serde_json\<close>; an object is a sorted list, and
    the locale \<open>btree_map\<close> is what the crate relies on of it.
  \<^item> \<open>Error_Code\<close> (\<open>libs/error_code.rs\<close>), \<open>Peer\<close> (\<open>libs/peer.rs\<close>, the type-keyed extensions behind
    the locale \<open>type_map\<close>), \<open>Basics\<close> (\<open>libs/ws/basics.rs\<close>, \<open>conn.rs\<close>): the data of a connection, its
    frames, and the table of connections shared by all tasks, as the record \<open>world\<close>, an explicit store in
    which a connection, its queue and its end flag are numbered cells.
  \<^item> \<open>Wire_Message\<close> (\<open>libs/ws/message.rs\<close>), \<open>Outbound\<close> (\<open>libs/ws/outbound.rs\<close>), \<open>Framed\<close>
    (\<open>libs/ws/transport/framed.rs\<close>), \<open>Streams\<close> (\<open>traits.rs\<close>, \<open>transport.rs\<close>, \<open>transport/nagoya.rs\<close>): messages
    and what carries them. The queue is the state under its mutex, its users interleave as \<open>chan_step\<close>;
    the framed transport is a buffer against the answers of a byte stream, polls included.
  \<^item> \<open>Server_Limits\<close>: \<open>WsServerConfig\<close>, \<open>ServerLimitState\<close> and the observer of \<open>libs/ws/server.rs\<close>, with
    atomic operations interleaved by any number of threads (locale \<open>admission\<close>).
  \<^item> \<open>Api_Types\<close> (\<open>model/types.rs\<close>, \<open>endpoint.rs\<close>, \<open>service.rs\<close>, \<open>pg_func.rs\<close>), \<open>Json_Schema\<close>
    (\<open>model/json_schema.rs\<close>), \<open>Api_Document\<close> (\<open>model/api_document.rs\<close>): the schema model and what is
    generated from it.
  \<^item> \<open>Toolbox\<close> (\<open>libs/ws/toolbox.rs\<close>), \<open>Subs\<close> (\<open>libs/ws/subs.rs\<close>), \<open>Push\<close> (\<open>libs/ws/push.rs\<close>): sending and
    publishing. The locale \<open>outbox\<close> says that a send touches one mailbox; \<open>publisher\<close> is what publishing
    needs of a sender, and the toolbox is shown to provide it; \<open>live_publisher\<close> follows one subscriber through
    a series of publications.
  \<^item> \<open>Mcp\<close> (\<open>libs/ws/mcp.rs\<close>), \<open>Mcp_Wire\<close> (\<open>mcp_wire.rs\<close>): JSON-RPC, the tool table and its routing; the
    client's side of it.
  \<^item> \<open>Hooks\<close> (\<open>libs/ws/hooks.rs\<close>, locale \<open>short_circuit\<close>), \<open>Handler\<close> (\<open>handler.rs\<close>), \<open>Session\<close>
    (\<open>session.rs\<close>), \<open>Session_Tasks\<close> and \<open>Session_Loop\<close>: one request and one session. A task is cut into
    segments at its await points, and the segments of all tasks, the loop's own steps, timers and the rest
    of the process interleave; the locale \<open>session_invariant\<close> carries an invariant over such runs.
  \<^item> \<open>Headers\<close> (\<open>libs/ws/headers.rs\<close>), \<open>Upgrader\<close> (\<open>tungstenite/upgrader.rs\<close>), \<open>Server\<close> (\<open>server.rs\<close>),
    \<open>Listener\<close> (\<open>listener.rs\<close>), \<open>Shards\<close> (\<open>listen_on\<close> of \<open>server.rs\<close>), \<open>Signal\<close> (\<open>libs/signal.rs\<close>):
    from the socket to the session, and from the signal to the end of the last thread.
  \<^item> \<open>Hub\<close>, \<open>Hub_Table\<close>: all connections of a server at once, the segments of their futures interleaved over the
    shared limits, the table of connections and the counter of \<open>libs/utils.rs\<close> that numbers them. One
    connection's segments in a row are \<open>serve_connection\<close>.
  \<^item> \<open>Client\<close> (\<open>libs/ws/client.rs\<close>): building a client, dialling, requests and responses.
  \<^item> \<open>Level_Filter\<close>, \<open>Error_Aggregation\<close> (\<open>libs/log/\<close>), \<open>Logging\<close> (\<open>libs/log.rs\<close>, \<open>log/legacy.rs\<close>),
    \<open>Log_Reader\<close> (\<open>libs/log_reader.rs\<close>), \<open>Scheduler\<close> (\<open>scheduler.rs\<close>), \<open>Scalars\<close> (\<open>types.rs\<close>, \<open>utils.rs\<close>),
    \<open>Support\<close> (\<open>config.rs\<close>, \<open>warn.rs\<close>, \<open>datatable.rs\<close>, \<open>deserializer_wrapper.rs\<close>).
  \<^item> This theory: a request from the client to the handler and back.

  Definitions have the name of the function they model; a prefix or suffix is added where names meet, and
  the fields of a record have a prefix for their record. Each theory has the code first, then its invariant,
  then the properties with their concrete instances.

  \<^bold>\<open>What is shown.\<close> The queue delivers each accepted message once and in order and never forgets a
  sleeping receiver; the framed transport delivers what was sent for every cutting of the bytes, with a
  bounded buffer; no interleaving exceeds a cap. A request is admitted only with a role its connection has at
  that moment, answered at most once, and if a hook refuses it, never handled; a session's slots balance,
  a flagged session writes its queue and ends. A connection's queue has exactly what was sent to it. Forbidden tools cannot be told from missing ones. A connection that
  fails authentication serves nothing, and every connection leaves the table before its disconnect hooks run; over all connections together the counters are
  exact, the caps hold, and no connection gets into another's entry or mailbox; what the client offers in the header is what
  authentication reads. Shards stop together. Publishing sends one numbered frame per live subscriber, and the numbers have no gaps. Schemas
  are closed and computed for recursive types. A client's call returns the handler's value. Around it: the
  error table is a digest of the errors, log queries, periods of jobs, numbers of connections, the text
  of scalars. Where the code does something else than it says, the theorem states what it does.

  \<^bold>\<open>Modelling decisions.\<close> Machine integers are words and wrap, as in a release build; \<open>usize\<close> lengths
  that memory bounds are natural numbers. Strings are their UTF-8 bytes. Panics are \<open>None\<close> where
  the code can reach one. A mutex or a lock makes the code under it one step; atomics are one step each;
  \<open>async\<close> code runs from one await to the next. A hash map is a function, and where it is iterated any
  order of iteration is a parameter or the order of a list. Hooks, handlers, the auth controller and other
  callbacks of the application are arbitrary functions on the shared state. A hook or a handler is one
  segment of its task, though it may await inside; what it does to the shared state meanwhile is one
  function on it. An authentication that runs out of time is dropped half-way and may have had any partial effect,
  which is an argument. The two \<open>try_send\<close> of a one-shot \<open>enqueue\<close>, the message and its close
  frame, are one step of the shared world, though another thread could send between them; single \<open>try_send\<close>s
  interleave in \<open>Outbound\<close>. Removing a connection from the table drops its sender. Dropping the error
  container cancels its task, which ends at a later step.

  Other crates are parameters: \<open>serde_json\<close>'s reading and writing, the casing functions, \<open>regex\<close>, \<open>hex\<close>,
  \<open>chrono\<close>, \<open>urlencoding\<close>, the upgrade of \<open>nago-wss\<close>, resolver, dialling, TLS and reactor of \<open>nagoya\<close>, the
  filters and layers of \<open>tracing\<close>. What a theorem needs of one of them is a hypothesis of its own, and
  its concrete instance has such a function.

  \<^bold>\<open>Fuel.\<close> The schema conversion follows references through the registry and carries fuel; \<open>schema_fuel\<close>,
  the size of the type plus, for each registered struct, the largest size of one, is always enough, because
  no struct is expanded twice, and that it is enough is part of the theorem that the schema is computed. Runs
  of polls (\<open>reader_run\<close>) are bounded by the messages and the answers of the stream, the bound
  being part of the theorem. Every other loop is structural recursion or has its measure.

  \<^bold>\<open>Not modelled.\<close> Module lists and re-exports; the timing of the reactor and of TLS; \<open>Debug\<close>
  and \<open>Display\<close> of types whose text nothing depends on; the verifier that accepts every certificate, of
  which \<open>Client\<close> has when it is used; the clock; what \<open>tracing\<close> writes where.
\<close>

section \<open>A request from the client to the handler and back\<close>

lemma sent_request:
  assumes "send_req ser (Ok ()) m p cl = (cl1, Ok ())"
  shows "\<exists>body. ser \<lparr>rq_method = m, rq_seq = cl_seq cl + 1, rq_params = p\<rparr> = Ok body \<and>
    cl_out cl1 = cl_out cl @ [Text (Utf8Bytes (str_bytes body))] \<and> cl_seq cl1 = cl_seq cl + 1"
  using assms
  by (auto simp: send_req_def stream_send_def client_write_def Let_def wire_from_string_def utf8_from_string_def
      split: result.splits)

lemma legacy_task:
  assumes "handle_message sv conn (Text (Utf8Bytes b)) s = (s1, DTask t)" and "server_mcp sv = None"
    and "sd_request_str (server_serde sv) b = Ok req"
  shows "replies s1 = replies s \<and> tk_env t = LegacyCall \<and> tk_params t = rq_params req \<and>
    rc_connection_id (tk_context t) = wc_connection_id conn \<and> rc_method (tk_context t) = rq_method req \<and>
    rc_seq (tk_context t) = rq_seq req \<and>
    (\<exists>ep. server_handlers sv (rq_method req) = Some ep \<and> tk_handler t = server_impl sv (we_handler ep))"
  using assms
  by (auto simp: handle_message_def handle_parsed_def handle_request_def task_new_def from_conn_def Let_def
      srv_acquire_def srv_observe_message_def split: if_splits option.splits prod.splits)

text \<open>Hooks that let every request pass, as the same request.\<close>

definition hooks_admit :: "'u hooks \<Rightarrow> bool" where
  "hooks_admit h \<longleftrightarrow>
     (\<forall>ctx schema params a. \<exists>a' ctx'. run_before h ctx schema params a = (a', ctx', Ok ()) \<and>
        rc_connection_id ctx' = rc_connection_id ctx \<and> rc_method ctx' = rc_method ctx \<and> rc_seq ctx' = rc_seq ctx)"

lemma admitted_reply:
  assumes "hooks_admit (server_hooks sv)" and "tk_env t = LegacyCall" and "tk_handler t = Typed h"
    and "rh_from_value h (tk_params t) = Ok data" and "\<forall>ctx a. snd (rh_handle h ctx data a) = Ok (Some v)"
  shows "replies (work sv t s) = replies s @ [(rc_connection_id (tk_context t),
    Frame (Immediate \<lparr>sr_method = rc_method (tk_context t), sr_seq = rc_seq (tk_context t), sr_params = v\<rparr>))]"
proof -
  obtain a ctx where "run_before (server_hooks sv) (tk_context t) (tk_schema t) (tk_params t) (srv_world s, srv_app s) = (a, ctx, Ok ())"
    and ctx: "rc_connection_id ctx = rc_connection_id (tk_context t)" "rc_method ctx = rc_method (tk_context t)"
      "rc_seq ctx = rc_seq (tk_context t)"
    using assms(1) unfolding hooks_admit_def by metis
  then have before: "on_site (run_before (server_hooks sv) (tk_context t) (tk_schema t) (tk_params t)) s =
      (s\<lparr>srv_world := fst a, srv_app := snd a\<rparr>, ctx, Ok ())"
    by (simp add: on_site_def split: prod.split)
  obtain w u where "rh_handle h ctx data a = ((w, u), Ok (Some v))"
    using assms(5) by (metis prod.collapse)
  with before ctx assms(2-4) show ?thesis
    by (simp add: work_def run_task_handler_def handle_def handle_typed_def on_site_def
        encode_handler_response_def encode_ok_def Let_def)
qed



end
